(* ===== verification/Prelude.thy ===== *)
theory Prelude
  imports Main "HOL-Library.Word"
begin

text \<open>
  Shared vocabulary of the development: the C integer types of
  \<^verbatim>\<open>src/include/types.h\<close> as words, the collections the component theories fill,
  the bounded search loop that the kernel writes again and again
  (\<^verbatim>\<open>for (i = lo; i < hi; i++) if (P(i)) return i;\<close>), and lemmas on words, lists and
  options that several components use.
\<close>

unbundle bit_operations_syntax

type_synonym u8 = "8 word"
type_synonym u16 = "16 word"
type_synonym u32 = "32 word"

named_theorems frame_simps \<open>fields of the kernel state that an operation leaves alone\<close>
named_theorems inv_intros \<open>operations that keep the invariant of their component\<close>

section \<open>Words\<close>

lemma unat_u32_less [simp]: "unat (w :: u32) < 4294967296"
  using unsigned_less [of w, where ?'a = nat] by simp

lemma unat_u32_of_nat: "n < 4294967296 \<Longrightarrow> unat (word_of_nat n :: u32) = n"
  by (simp add: unat_of_nat)

lemma unat_u32_add:
  "unat (a :: u32) + unat b < 4294967296 \<Longrightarrow> unat (a + b) = unat a + unat b"
  by (simp add: unat_word_ariths)

lemma unat_u32_mult:
  "unat (a :: u32) * unat b < 4294967296 \<Longrightarrow> unat (a * b) = unat a * unat b"
  by (simp add: unat_word_ariths)

lemma unat_u32_sub: "b \<le> a \<Longrightarrow> unat ((a :: u32) - b) = unat a - unat b"
  by (rule unat_sub)

lemma unat_u32_inc: "unat (a :: u32) < 4294967295 \<Longrightarrow> unat (a + 1) = Suc (unat a)"
  using unat_u32_add [of a 1] by simp

lemma unat_u32_succ: "(i :: u32) < r \<Longrightarrow> unat (i + 1) = Suc (unat i)"
  using unat_u32_inc [of i] unat_u32_less [of r] unfolding word_less_nat_alt by linarith

lemma u32_loop_decreases: "(i :: u32) < r \<Longrightarrow> unat r - unat (i + 1) < unat r - unat i"
  by (simp add: unat_u32_succ word_less_nat_alt diff_less_mono2)

lemma unat_u32_dec: "0 < unat (a :: u32) \<Longrightarrow> unat (a - 1) = unat a - 1"
  using unat_u32_sub [of 1 a] by (simp add: word_le_nat_alt)

lemma u32_of_nat_unat [simp]: "word_of_nat (unat (w :: u32)) = w"
  by simp

lemma u32_eq_unat: "(a :: u32) = b \<longleftrightarrow> unat a = unat b"
  by (simp add: word_unat_eq_iff)

section \<open>The search loop\<close>

text \<open>
  \<open>for_find P lo hi\<close> is the loop \<^verbatim>\<open>for (i = lo; i < hi; i++) if (P(i)) return i;\<close>
  with \<open>None\<close> for falling off its end.
\<close>

function for_find :: "(nat \<Rightarrow> bool) \<Rightarrow> nat \<Rightarrow> nat \<Rightarrow> nat option" where
  "for_find P lo hi =
     (if lo < hi then (if P lo then Some lo else for_find P (Suc lo) hi) else None)"
  by pat_completeness auto
termination
  by (relation "measure (\<lambda>(P, lo, hi). hi - lo)") auto

declare for_find.simps [simp del]

lemma for_find_None: "for_find P lo hi = None \<longleftrightarrow> (\<forall>i. lo \<le> i \<and> i < hi \<longrightarrow> \<not> P i)"
proof (induction P lo hi rule: for_find.induct)
  case (1 P lo hi)
  show ?case
  proof (cases "lo < hi \<and> \<not> P lo")
    case True
    with 1 have "for_find P lo hi = None \<longleftrightarrow> (\<forall>i. Suc lo \<le> i \<and> i < hi \<longrightarrow> \<not> P i)"
      by (simp add: for_find.simps [of P lo hi])
    moreover have "lo \<le> i \<longleftrightarrow> i = lo \<or> Suc lo \<le> i" for i by auto
    ultimately show ?thesis using True by auto
  next
    case False
    then show ?thesis by (auto simp: for_find.simps [of P lo hi])
  qed
qed

lemma for_find_Some:
  "for_find P lo hi = Some i \<longleftrightarrow>
     lo \<le> i \<and> i < hi \<and> P i \<and> (\<forall>j. lo \<le> j \<and> j < i \<longrightarrow> \<not> P j)"
proof (induction P lo hi rule: for_find.induct)
  case (1 P lo hi)
  show ?case
  proof (cases "lo < hi \<and> \<not> P lo")
    case True
    with 1 have "for_find P lo hi = Some i \<longleftrightarrow>
        Suc lo \<le> i \<and> i < hi \<and> P i \<and> (\<forall>j. Suc lo \<le> j \<and> j < i \<longrightarrow> \<not> P j)"
      by (simp add: for_find.simps [of P lo hi])
    moreover have "lo \<le> i \<longleftrightarrow> i = lo \<or> Suc lo \<le> i" for i by auto
    ultimately show ?thesis using True by auto
  next
    case False
    then show ?thesis by (auto simp: for_find.simps [of P lo hi])
  qed
qed

lemma for_find_ex: "lo \<le> i \<Longrightarrow> i < hi \<Longrightarrow> P i \<Longrightarrow> \<exists>j. for_find P lo hi = Some j \<and> j \<le> i"
  by (metis for_find_None for_find_Some not_le_imp_less option.exhaust)

lemmas for_find_SomeD = for_find_Some [THEN iffD1]

lemma for_find_cong [fundef_cong]:
  assumes "lo = lo'" and "hi = hi'" and "\<And>i. lo' \<le> i \<Longrightarrow> i < hi' \<Longrightarrow> P i = Q i"
  shows "for_find P lo hi = for_find Q lo' hi'"
proof (cases "for_find Q lo' hi'")
  case None
  with assms have "for_find P lo hi = None" by (simp add: for_find_None)
  with None show ?thesis by simp
next
  case (Some i)
  with assms have "for_find P lo hi = Some i" by (auto simp: for_find_Some)
  with Some show ?thesis by simp
qed

section \<open>Bits\<close>

text \<open>The simplifier writes the mask \<^verbatim>\<open>1 << n\<close>, \<open>push_bit n 1\<close>, as \<open>2 ^ n\<close>.\<close>

lemma bit_set_mask: "bit ((w :: u32) OR 2 ^ n) k \<longleftrightarrow> bit w k \<or> (k = n \<and> n < 32)"
  by (auto simp: bit_simps)

lemma bit_clear_mask: "k < 32 \<Longrightarrow> bit ((w :: u32) AND NOT (2 ^ n)) k \<longleftrightarrow> bit w k \<and> k \<noteq> n"
  by (auto simp: bit_simps)

lemma and_mask_eq_zero: "n < 32 \<Longrightarrow> (w :: u32) AND 2 ^ n = 0 \<longleftrightarrow> \<not> bit w n"
  by (simp add: bit_iff_and_push_bit_not_eq_0)

lemma u32_all_ones: "(w :: u32) = 0xFFFFFFFF \<longleftrightarrow> (\<forall>j < 32. bit w j)"
proof -
  have "(0xFFFFFFFF :: u32) = mask 32" by (simp add: mask_eq_exp_minus_1)
  then show ?thesis by (auto simp: bit_eq_iff bit_mask_iff)
qed

section \<open>Page arithmetic\<close>

text \<open>The simplifier writes the mask \<^verbatim>\<open>~0xFFF\<close> as \<open>- 4096\<close>.\<close>

lemma unat_page_offset: "unat ((x :: u32) AND 0xFFF) = unat x mod 4096"
proof -
  have "(0xFFF :: u32) = mask 12" by (simp add: mask_eq_exp_minus_1)
  then have "x AND 0xFFF = take_bit 12 x" by (simp only: take_bit_eq_mask)
  then have "unat (x AND 0xFFF) = take_bit 12 (unat x)" by (simp add: unsigned_take_bit_eq)
  then show ?thesis by (simp add: take_bit_eq_mod)
qed

lemma page_base_offset: "(x :: u32) AND - 4096 = x - (x AND 0xFFF)"
proof -
  have "x = (x AND 0xFFF) OR (x AND NOT 0xFFF)" by (simp add: bit_eq_iff bit_simps) blast
  moreover have "(x AND 0xFFF) OR (x AND NOT 0xFFF) = (x AND 0xFFF) + (x AND NOT 0xFFF)"
    by (rule disjunctive_add_eq_or [symmetric]) (auto simp: bit_eq_iff bit_simps)
  ultimately have "x AND NOT 0xFFF = x - (x AND 0xFFF)" by (metis add_diff_cancel_left')
  then show ?thesis by simp
qed

lemma unat_page_base: "unat ((x :: u32) AND - 4096) = unat x - unat x mod 4096"
  by (simp add: page_base_offset unat_u32_sub word_le_nat_alt unat_page_offset)

end
