(* ===== verification/PMM.thy ===== *)
theory PMM
  imports Prelude
begin

text \<open>
  The physical memory manager, \<^verbatim>\<open>src/kernel/memory/pmm.c\<close>: a bitmap with one bit per
  4 KB frame. The file's four static variables are the fields of \<open>pmm_state\<close>; later
  components extend this record, so every operation here is stated for an arbitrary
  extension and touches only these fields. The boot loader's tables are the arguments of
  \<open>pmm_init\<close>: the multiboot structure as a record and the memory map as a function from the
  address of an entry to the entry.
\<close>

section \<open>State and data\<close>

abbreviation (input) PAGE_SIZE :: u32 where "PAGE_SIZE \<equiv> 4096"
abbreviation (input) MAX_MEMORY :: u32 where "MAX_MEMORY \<equiv> 0x10000000"

definition PAGE_ALIGN :: "u32 \<Rightarrow> u32" where
  "PAGE_ALIGN addr = (addr + PAGE_SIZE - 1) AND NOT (PAGE_SIZE - 1)"

definition PAGE_NUMBER :: "u32 \<Rightarrow> u32" where
  "PAGE_NUMBER addr = addr div PAGE_SIZE"

record pmm_state =
  bitmap :: "u32 list"
  total_pages :: u32
  used_pages :: u32
  bitmap_size :: u32

record multiboot_info =
  mb_flags :: u32
  mem_lower :: u32
  mem_upper :: u32
  boot_device :: u32
  cmdline :: u32
  mods_count :: u32
  mods_addr :: u32
  syms :: "u32 list"
  mmap_length :: u32
  mmap_addr :: u32
  drives_length :: u32
  drives_addr :: u32
  config_table :: u32
  boot_loader_name :: u32
  apm_table :: u32
  vbe_control_info :: u32
  vbe_mode_info :: u32
  vbe_mode :: u32
  vbe_interface_seg :: u32
  vbe_interface_off :: u32
  vbe_interface_len :: u32
  framebuffer_addr_low :: u32
  framebuffer_addr_high :: u32
  framebuffer_pitch :: u32
  framebuffer_width :: u32
  framebuffer_height :: u32
  framebuffer_bpp :: u8
  framebuffer_type :: u8
  framebuffer_color_info :: "u8 list"

record multiboot_mmap_entry =
  me_size :: u32
  me_addr_low :: u32
  me_addr_high :: u32
  me_len_low :: u32
  me_len_high :: u32
  me_type :: u32

section \<open>Operations\<close>

definition bitmap_set :: "u32 \<Rightarrow> 'a pmm_state_scheme \<Rightarrow> 'a pmm_state_scheme" where
  "bitmap_set b s =
     s\<lparr>bitmap := (bitmap s)[unat (b div 32) :=
        bitmap s ! unat (b div 32) OR push_bit (unat (b mod 32)) 1]\<rparr>"

definition bitmap_clear :: "u32 \<Rightarrow> 'a pmm_state_scheme \<Rightarrow> 'a pmm_state_scheme" where
  "bitmap_clear b s =
     s\<lparr>bitmap := (bitmap s)[unat (b div 32) :=
        bitmap s ! unat (b div 32) AND NOT (push_bit (unat (b mod 32)) 1)]\<rparr>"

definition bitmap_test :: "u32 \<Rightarrow> 'a pmm_state_scheme \<Rightarrow> bool" where
  "bitmap_test b s \<longleftrightarrow> bitmap s ! unat (b div 32) AND push_bit (unat (b mod 32)) 1 \<noteq> 0"

text \<open>The two nested loops of \<open>bitmap_first_free\<close>; the outer one continues when the inner
  one falls through.\<close>

function bitmap_first_free_from :: "nat \<Rightarrow> 'a pmm_state_scheme \<Rightarrow> u32" where
  "bitmap_first_free_from i s =
     (if i < unat (bitmap_size s)
      then (if bitmap s ! i \<noteq> 0xFFFFFFFF
            then (case for_find (\<lambda>j. bitmap s ! i AND push_bit j 1 = 0) 0 32 of
                    Some j \<Rightarrow> word_of_nat i * 32 + word_of_nat j
                  | None \<Rightarrow> bitmap_first_free_from (Suc i) s)
            else bitmap_first_free_from (Suc i) s)
      else 0xFFFFFFFF)"
  by pat_completeness auto
termination
  by (relation "measure (\<lambda>(i, s). unat (bitmap_size s) - i)") auto

declare bitmap_first_free_from.simps [simp del]

definition bitmap_first_free :: "'a pmm_state_scheme \<Rightarrow> u32" where
  "bitmap_first_free s = bitmap_first_free_from 0 s"

text \<open>The loop that marks the kernel's own frames; it does not test the bit first.\<close>

function pmm_reserve_low :: "u32 \<Rightarrow> u32 \<Rightarrow> 'a pmm_state_scheme \<Rightarrow> 'a pmm_state_scheme" where
  "pmm_reserve_low i r s =
     (if i < r \<and> i < total_pages s
      then pmm_reserve_low (i + 1) r
             ((bitmap_set i s)\<lparr>used_pages := used_pages s + 1\<rparr>)
      else s)"
  by pat_completeness auto
termination
  by (relation "measure (\<lambda>(i, r, s). unat r - unat i)")
    (auto simp: u32_loop_decreases)

declare pmm_reserve_low.simps [simp del]

text \<open>The loop that marks one entry of the memory map.\<close>

function pmm_reserve_range :: "u32 \<Rightarrow> u32 \<Rightarrow> 'a pmm_state_scheme \<Rightarrow> 'a pmm_state_scheme" where
  "pmm_reserve_range i end_page s =
     (if i < end_page \<and> i < total_pages s
      then pmm_reserve_range (i + 1) end_page
             (if \<not> bitmap_test i s
              then (bitmap_set i s)\<lparr>used_pages := used_pages s + 1\<rparr> else s)
      else s)"
  by pat_completeness auto
termination
  by (relation "measure (\<lambda>(i, e, s). unat e - unat i)")
    (auto simp: u32_loop_decreases)

declare pmm_reserve_range.simps [simp del]

text \<open>The walk over the memory map: the step to the next entry is read from the entry
  itself, so the walk need not end on a malformed map and is an option.\<close>

partial_function (option) pmm_mmap_loop ::
  "(u32 \<Rightarrow> multiboot_mmap_entry) \<Rightarrow> u32 \<Rightarrow> u32 \<Rightarrow> 'a pmm_state_scheme
     \<Rightarrow> 'a pmm_state_scheme option" where
  "pmm_mmap_loop M mmap mmap_end s =
     (if mmap < mmap_end
      then pmm_mmap_loop M (mmap + me_size (M mmap) + 4) mmap_end
             (if me_type (M mmap) \<noteq> 1
              then pmm_reserve_range (PAGE_NUMBER (me_addr_low (M mmap)))
                     (PAGE_NUMBER (me_addr_low (M mmap) + me_len_low (M mmap))) s
              else s)
      else Some s)"

definition pmm_total_memory :: "multiboot_info \<Rightarrow> u32" where
  "pmm_total_memory mb =
     (let total_memory =
        (if mb_flags mb AND 0x01 \<noteq> 0 then (mem_lower mb + mem_upper mb) * 1024
         else 64 * 1024 * 1024)
      in if total_memory > MAX_MEMORY then MAX_MEMORY else total_memory)"

text \<open>The part of \<open>pmm_init\<close> before the memory map: sizes, the cleared bitmap and the
  frames below the end of the bitmap at 0x200000.\<close>

definition pmm_init_bitmap :: "multiboot_info \<Rightarrow> 'a pmm_state_scheme \<Rightarrow> 'a pmm_state_scheme" where
  "pmm_init_bitmap mb s =
     (let tp = pmm_total_memory mb div PAGE_SIZE;
          bs = (tp + 31) div 32;
          s1 = s\<lparr>total_pages := tp, bitmap_size := bs, bitmap := replicate (unat bs) 0\<rparr>;
          kernel_end = 0x200000 + bs * 4;
          reserved_pages = PAGE_NUMBER (PAGE_ALIGN kernel_end)
      in pmm_reserve_low 0 reserved_pages s1)"

definition pmm_init ::
  "multiboot_info \<Rightarrow> (u32 \<Rightarrow> multiboot_mmap_entry) \<Rightarrow> 'a pmm_state_scheme
     \<Rightarrow> 'a pmm_state_scheme option" where
  "pmm_init mb M s =
     (let s1 = pmm_init_bitmap mb s
      in if mb_flags mb AND 0x40 \<noteq> 0
         then pmm_mmap_loop M (mmap_addr mb) (mmap_addr mb + mmap_length mb) s1
         else Some s1)"

definition pmm_alloc_page :: "'a pmm_state_scheme \<Rightarrow> u32 \<times> 'a pmm_state_scheme" where
  "pmm_alloc_page s =
     (let page = bitmap_first_free s
      in if page = 0xFFFFFFFF \<or> page \<ge> total_pages s then (0, s)
         else (page * PAGE_SIZE, (bitmap_set page s)\<lparr>used_pages := used_pages s + 1\<rparr>))"

definition pmm_free_page :: "u32 \<Rightarrow> 'a pmm_state_scheme \<Rightarrow> 'a pmm_state_scheme" where
  "pmm_free_page page s =
     (if page = 0 then s
      else let page_num = PAGE_NUMBER page
           in if page_num \<ge> total_pages s then s
              else if bitmap_test page_num s
                   then (bitmap_clear page_num s)\<lparr>used_pages := used_pages s - 1\<rparr>
                   else s)"

definition pmm_get_free_pages :: "'a pmm_state_scheme \<Rightarrow> u32" where
  "pmm_get_free_pages s = total_pages s - used_pages s"

definition pmm_get_total_pages :: "'a pmm_state_scheme \<Rightarrow> u32" where
  "pmm_get_total_pages s = total_pages s"

section \<open>The bitmap as a set of frames\<close>

definition page_used :: "'a pmm_state_scheme \<Rightarrow> nat \<Rightarrow> bool" where
  "page_used s p \<longleftrightarrow> bit (bitmap s ! (p div 32)) (p mod 32)"

definition used_frames :: "'a pmm_state_scheme \<Rightarrow> nat set" where
  "used_frames s = {p. p < unat (total_pages s) \<and> page_used s p}"

definition free_frames :: "'a pmm_state_scheme \<Rightarrow> nat set" where
  "free_frames s = {p. p < unat (total_pages s) \<and> \<not> page_used s p}"

definition pmm_shape :: "'a pmm_state_scheme \<Rightarrow> bool" where
  "pmm_shape s \<longleftrightarrow> length (bitmap s) = unat (bitmap_size s) \<and>
     unat (bitmap_size s) = (unat (total_pages s) + 31) div 32 \<and> unat (total_pages s) \<le> 65536"

text \<open>The invariant: the bitmap has the announced size and \<open>used_pages\<close> counts its set
  bits.\<close>

definition pmm_wf :: "'a pmm_state_scheme \<Rightarrow> bool" where
  "pmm_wf s \<longleftrightarrow> pmm_shape s \<and> unat (used_pages s) = card (used_frames s)"

lemma finite_used_frames [simp]: "finite (used_frames s)"
  by (rule finite_subset [of _ "{..<unat (total_pages s)}"]) (auto simp: used_frames_def)

lemma finite_free_frames [simp]: "finite (free_frames s)"
  by (rule finite_subset [of _ "{..<unat (total_pages s)}"]) (auto simp: free_frames_def)

lemma frames_partition: "used_frames s \<union> free_frames s = {..<unat (total_pages s)}"
  "used_frames s \<inter> free_frames s = {}"
  by (auto simp: used_frames_def free_frames_def)

lemma shape_index: "pmm_shape s \<Longrightarrow> p < unat (total_pages s) \<Longrightarrow> p div 32 < length (bitmap s)"
  unfolding pmm_shape_def by linarith

lemma bitmap_test_used: "bitmap_test b s \<longleftrightarrow> page_used s (unat b)"
  by (simp add: bitmap_test_def page_used_def unat_div unat_mod and_mask_eq_zero)

lemma page_used_set:
  assumes "unat b div 32 < length (bitmap s)"
  shows "page_used (bitmap_set b s) p \<longleftrightarrow> page_used s p \<or> p = unat b"
proof (cases "p div 32 = unat b div 32")
  case True
  then have "p = unat b \<longleftrightarrow> p mod 32 = unat b mod 32"
    by (metis div_mult_mod_eq)
  with True assms show ?thesis
    by (simp add: page_used_def bitmap_set_def unat_div unat_mod bit_set_mask)
next
  case False
  then have "p \<noteq> unat b" by auto
  with False show ?thesis
    by (simp add: page_used_def bitmap_set_def unat_div)
qed

lemma page_used_clear:
  assumes "unat b div 32 < length (bitmap s)"
  shows "page_used (bitmap_clear b s) p \<longleftrightarrow> page_used s p \<and> p \<noteq> unat b"
proof (cases "p div 32 = unat b div 32")
  case True
  then have "p = unat b \<longleftrightarrow> p mod 32 = unat b mod 32"
    by (metis div_mult_mod_eq)
  with True assms show ?thesis
    by (simp add: page_used_def bitmap_clear_def unat_div unat_mod bit_clear_mask)
next
  case False
  then have "p \<noteq> unat b" by auto
  with False show ?thesis
    by (simp add: page_used_def bitmap_clear_def unat_div)
qed

lemma bitmap_set_fields [frame_simps, simp]:
  "total_pages (bitmap_set b s) = total_pages s" "used_pages (bitmap_set b s) = used_pages s"
  "bitmap_size (bitmap_set b s) = bitmap_size s"
  "length (bitmap (bitmap_set b s)) = length (bitmap s)"
  "pmm_state.more (bitmap_set b s) = pmm_state.more s"
  by (simp_all add: bitmap_set_def)

lemma bitmap_clear_fields [frame_simps, simp]:
  "total_pages (bitmap_clear b s) = total_pages s"
  "used_pages (bitmap_clear b s) = used_pages s"
  "bitmap_size (bitmap_clear b s) = bitmap_size s"
  "length (bitmap (bitmap_clear b s)) = length (bitmap s)"
  "pmm_state.more (bitmap_clear b s) = pmm_state.more s"
  by (simp_all add: bitmap_clear_def)

lemma page_used_used_pages [simp]:
  "page_used (s\<lparr>used_pages := n\<rparr>) = page_used s" "pmm_shape (s\<lparr>used_pages := n\<rparr>) = pmm_shape s"
  "used_frames (s\<lparr>used_pages := n\<rparr>) = used_frames s"
  "free_frames (s\<lparr>used_pages := n\<rparr>) = free_frames s"
  by (simp_all add: page_used_def pmm_shape_def used_frames_def free_frames_def fun_eq_iff)

lemma used_frames_set:
  assumes "pmm_shape s" and "unat b < unat (total_pages s)"
  shows "used_frames (bitmap_set b s) = insert (unat b) (used_frames s)"
    and "free_frames (bitmap_set b s) = free_frames s - {unat b}"
    and "pmm_shape (bitmap_set b s)"
  using assms
  by (auto simp: used_frames_def free_frames_def page_used_set shape_index pmm_shape_def)

lemma used_frames_clear:
  assumes "pmm_shape s" and "unat b < unat (total_pages s)"
  shows "used_frames (bitmap_clear b s) = used_frames s - {unat b}"
    and "free_frames (bitmap_clear b s) = insert (unat b) (free_frames s)"
    and "pmm_shape (bitmap_clear b s)"
  using assms
  by (auto simp: used_frames_def free_frames_def page_used_clear shape_index pmm_shape_def)

text \<open>Marking a free frame and counting it keeps the invariant; so does the reverse.\<close>

lemma card_used_less: "pmm_shape s \<Longrightarrow> card (used_frames s) \<le> 65536"
proof -
  assume "pmm_shape s"
  moreover have "card (used_frames s) \<le> card {..<unat (total_pages s)}"
    by (rule card_mono) (auto simp: used_frames_def)
  ultimately show ?thesis by (simp add: pmm_shape_def)
qed

lemma pmm_wf_mark [inv_intros]:
  assumes "pmm_wf s" and "unat b < unat (total_pages s)" and "\<not> page_used s (unat b)"
  shows "pmm_wf ((bitmap_set b s)\<lparr>used_pages := used_pages s + 1\<rparr>)"
proof -
  have sh: "pmm_shape s" and cnt: "unat (used_pages s) = card (used_frames s)"
    using assms(1) by (auto simp: pmm_wf_def)
  have "card (insert (unat b) (used_frames s)) = Suc (card (used_frames s))"
    using assms(3) by (simp add: used_frames_def)
  moreover have "unat (used_pages s + 1) = Suc (unat (used_pages s))"
    using card_used_less [OF sh] cnt by (simp add: unat_u32_inc)
  ultimately show ?thesis
    using assms sh cnt by (simp add: pmm_wf_def used_frames_set)
qed

lemma pmm_wf_unmark [inv_intros]:
  assumes "pmm_wf s" and "unat b < unat (total_pages s)" and "page_used s (unat b)"
  shows "pmm_wf ((bitmap_clear b s)\<lparr>used_pages := used_pages s - 1\<rparr>)"
proof -
  have sh: "pmm_shape s" and cnt: "unat (used_pages s) = card (used_frames s)"
    using assms(1) by (auto simp: pmm_wf_def)
  have mem: "unat b \<in> used_frames s"
    using assms(2,3) by (simp add: used_frames_def)
  then have "0 < card (used_frames s)" by (auto simp: card_gt_0_iff)
  then have "unat (used_pages s - 1) = card (used_frames s) - 1"
    using cnt by (simp add: unat_u32_dec)
  with mem assms sh show ?thesis
    by (simp add: pmm_wf_def used_frames_clear)
qed

section \<open>Finding the first free frame\<close>

lemma all_ones_used:
  "bitmap s ! i = 0xFFFFFFFF \<longleftrightarrow> (\<forall>q. 32 * i \<le> q \<and> q < 32 * Suc i \<longrightarrow> page_used s q)"
proof -
  have "q div 32 = i \<and> q mod 32 < 32"
    if "32 * i \<le> q" "q < 32 * Suc i" for q
    using that by (auto intro!: div_nat_eqI)
  moreover have "32 * i \<le> 32 * i + j \<and> 32 * i + j < 32 * Suc i \<and> (32 * i + j) div 32 = i \<and>
      (32 * i + j) mod 32 = j" if "j < 32" for j
    using that by simp
  ultimately show ?thesis
    unfolding u32_all_ones page_used_def by metis
qed

lemma bitmap_first_free_from_spec:
  assumes "unat (bitmap_size s) \<le> 2048" and "i \<le> unat (bitmap_size s)"
    and "\<forall>q < 32 * i. page_used s q"
  shows "(bitmap_first_free_from i s = 0xFFFFFFFF \<and> (\<forall>q < 32 * unat (bitmap_size s). page_used s q)) \<or>
     (\<exists>p < 32 * unat (bitmap_size s). bitmap_first_free_from i s = word_of_nat p \<and>
        \<not> page_used s p \<and> (\<forall>q < p. page_used s q))"
  using assms
proof (induction i s rule: bitmap_first_free_from.induct)
  case (1 i s)
  show ?case
  proof (cases "i < unat (bitmap_size s)")
    case False
    with 1 have "i = unat (bitmap_size s)" by simp
    with 1 False show ?thesis
      by (auto simp: bitmap_first_free_from.simps [of "unat (bitmap_size s)" s])
  next
    case lt: True
    show ?thesis
    proof (cases "bitmap s ! i = 0xFFFFFFFF")
      case True
      then have "\<forall>q < 32 * Suc i. page_used s q"
        using 1(5) all_ones_used [of s i] by (metis not_less)
      with 1(2) [OF lt] True 1(3) lt show ?thesis
        by (simp add: bitmap_first_free_from.simps [of i s])
    next
      case False
      have pu: "page_used s (32 * i + j) \<longleftrightarrow> bit (bitmap s ! i) j" if "j < 32" for j
        using that by (simp add: page_used_def)
      from False obtain j0 where "j0 < 32" "\<not> bit (bitmap s ! i) j0"
        by (auto simp: u32_all_ones)
      then obtain j where j: "for_find (\<lambda>j. bitmap s ! i AND push_bit j 1 = 0) 0 32 = Some j"
        using for_find_ex [of 0 j0 32 "\<lambda>j. bitmap s ! i AND push_bit j 1 = 0"]
          by (auto simp: and_mask_eq_zero)
      then have fj: "j < 32" "\<not> bit (bitmap s ! i) j" "\<forall>k < j. bit (bitmap s ! i) k"
        by (auto dest!: for_find_SomeD simp: and_mask_eq_zero)
      have "page_used s q" if "q < 32 * i + j" for q
      proof (cases "q < 32 * i")
        case True
        with 1(5) show ?thesis by simp
      next
        case False
        then have "q - 32 * i < j" and "q = 32 * i + (q - 32 * i)" using that by auto
        then show ?thesis using fj pu [of "q - 32 * i"] by simp
      qed
      moreover have "bitmap_first_free_from i s = word_of_nat (32 * i + j)"
        using j lt False by (simp add: bitmap_first_free_from.simps [of i s] mult.commute)
      moreover have "32 * i + j < 32 * unat (bitmap_size s)"
        using lt fj(1) by linarith
      ultimately show ?thesis using fj pu [of j] by blast
    qed
  qed
qed

lemma bitmap_first_free_least:
  assumes "pmm_shape s" and "free_frames s \<noteq> {}"
  shows "bitmap_first_free s = word_of_nat (Min (free_frames s))"
proof -
  let ?n = "32 * unat (bitmap_size s)"
  obtain f where f: "f \<in> free_frames s" using assms(2) by blast
  have le: "unat (total_pages s) \<le> ?n" and sz: "unat (bitmap_size s) \<le> 2048"
    using assms(1) unfolding pmm_shape_def by linarith+
  have "f < ?n" "\<not> page_used s f" using f le by (auto simp: free_frames_def)
  then obtain p where p: "bitmap_first_free s = word_of_nat p" "\<not> page_used s p"
      "\<forall>q < p. page_used s q"
    using bitmap_first_free_from_spec [OF sz, of 0] by (auto simp: bitmap_first_free_def)
  have "p \<le> f" using \<open>\<not> page_used s f\<close> p(3) by (meson not_le)
  then have "Min (free_frames s) = p"
    using f p by (intro Min_eqI) (auto simp: free_frames_def not_less [symmetric])
  with p(1) show ?thesis by simp
qed

lemma bitmap_first_free_full:
  assumes "pmm_shape s" and "free_frames s = {}"
  shows "bitmap_first_free s = 0xFFFFFFFF \<or> total_pages s \<le> bitmap_first_free s"
proof -
  have sz: "unat (bitmap_size s) \<le> 2048"
    using assms(1) unfolding pmm_shape_def by linarith
  have "\<not> page_used s p \<Longrightarrow> unat (total_pages s) \<le> p" for p
    using assms(2) by (auto simp: free_frames_def not_less [symmetric])
  then show ?thesis
    using bitmap_first_free_from_spec [OF sz, of 0] sz
    by (auto simp: bitmap_first_free_def word_le_nat_alt unat_u32_of_nat)
qed

section \<open>Allocation and release\<close>

lemma pmm_alloc_page_least:
  assumes "pmm_shape s" and "free_frames s \<noteq> {}"
  defines "p \<equiv> Min (free_frames s)"
  shows "pmm_alloc_page s =
    (word_of_nat p * 4096, (bitmap_set (word_of_nat p) s)\<lparr>used_pages := used_pages s + 1\<rparr>)"
proof -
  have "p \<in> free_frames s" unfolding p_def using assms(2) by (intro Min_in) auto
  then have lt: "p < unat (total_pages s)" by (simp add: free_frames_def)
  moreover have "unat (total_pages s) \<le> 65536" using assms(1) by (simp add: pmm_shape_def)
  ultimately have "p < 65536" by simp
  then have "unat (word_of_nat p :: u32) = p" by (simp add: unat_u32_of_nat)
  with lt \<open>p < 65536\<close> have "\<not> (word_of_nat p = (0xFFFFFFFF :: u32) \<or> total_pages s \<le> word_of_nat p)"
    by (auto simp: word_le_nat_alt u32_eq_unat)
  then show ?thesis
    using bitmap_first_free_least [OF assms(1,2)] by (simp add: pmm_alloc_page_def p_def Let_def)
qed

lemma pmm_alloc_page_full:
  "pmm_shape s \<Longrightarrow> free_frames s = {} \<Longrightarrow> pmm_alloc_page s = (0, s)"
  using bitmap_first_free_full [of s] by (auto simp: pmm_alloc_page_def)

text \<open>Frame 0 stays marked, so that \<^verbatim>\<open>NULL\<close> is never the address of a frame.\<close>

definition pmm_inv :: "'a pmm_state_scheme \<Rightarrow> bool" where
  "pmm_inv s \<longleftrightarrow> pmm_wf s \<and> 0 \<notin> free_frames s"

lemma pmm_alloc_page_some:
  assumes "pmm_inv s" and "free_frames s \<noteq> {}"
  shows "\<exists>p s'. pmm_alloc_page s = (word_of_nat (4096 * p), s') \<and> p = Min (free_frames s) \<and>
     free_frames s' = free_frames s - {p} \<and> used_frames s' = insert p (used_frames s) \<and>
     total_pages s' = total_pages s \<and> pmm_state.more s' = pmm_state.more s \<and> pmm_inv s'"
proof -
  let ?p = "Min (free_frames s)"
  let ?w = "word_of_nat ?p :: u32"
  have sh: "pmm_shape s" using assms(1) by (simp add: pmm_inv_def pmm_wf_def)
  have p: "?p \<in> free_frames s" using assms(2) by (intro Min_in) auto
  then have lt: "?p < unat (total_pages s)" "\<not> page_used s ?p" by (auto simp: free_frames_def)
  moreover have "unat (total_pages s) \<le> 65536" using sh by (simp add: pmm_shape_def)
  ultimately have w: "unat ?w = ?p" by (intro unat_u32_of_nat) simp
  have "pmm_inv ((bitmap_set ?w s)\<lparr>used_pages := used_pages s + 1\<rparr>)"
    using assms(1) lt w pmm_wf_mark [of s ?w]
    by (auto simp: pmm_inv_def used_frames_set pmm_wf_def)
  then show ?thesis
    using pmm_alloc_page_least [OF sh assms(2)] lt w sh
    by (auto simp: used_frames_set mult.commute)
qed

lemma pmm_free_page_frame:
  assumes "pmm_inv s" and "0 < p" and "p < unat (total_pages s)" and "p \<notin> free_frames s"
  defines "s' \<equiv> pmm_free_page (word_of_nat (4096 * p)) s"
  shows "free_frames s' = insert p (free_frames s)" and "pmm_inv s'"
    and "total_pages s' = total_pages s" and "pmm_state.more s' = pmm_state.more s"
proof -
  have sh: "pmm_shape s" using assms(1) by (simp add: pmm_inv_def pmm_wf_def)
  then have "p < 65536" using assms(3) by (simp add: pmm_shape_def)
  then have ua: "unat (word_of_nat (4096 * p) :: u32) = 4096 * p"
    by (intro unat_u32_of_nat) simp
  then have pn: "unat (PAGE_NUMBER (word_of_nat (4096 * p))) = p"
    by (simp add: PAGE_NUMBER_def unat_div)
  have nz: "(word_of_nat (4096 * p) :: u32) \<noteq> 0" using ua assms(2) by (simp add: u32_eq_unat)
  have used: "page_used s p" using assms(3,4) by (simp add: free_frames_def)
  have eq: "s' = (bitmap_clear (PAGE_NUMBER (word_of_nat (4096 * p))) s)
      \<lparr>used_pages := used_pages s - 1\<rparr>"
    using nz pn used assms(3)
    by (simp add: s'_def pmm_free_page_def Let_def bitmap_test_used word_le_nat_alt)
  show "free_frames s' = insert p (free_frames s)" "total_pages s' = total_pages s"
    "pmm_state.more s' = pmm_state.more s"
    using eq sh pn assms(3) by (simp_all add: used_frames_clear)
  show "pmm_inv s'"
    using eq assms(1-3) pn used pmm_wf_unmark [of s "PAGE_NUMBER (word_of_nat (4096 * p))"]
    by (auto simp: pmm_inv_def used_frames_clear pmm_wf_def)
qed

section \<open>The allocator's interface\<close>

text \<open>What paging, the heap, the task manager and the loader rely on: allocation hands out
  a free frame's address and takes exactly that frame, or returns \<^verbatim>\<open>NULL\<close> and changes
  nothing; releasing an allocated frame gives it back.\<close>

locale frame_allocator =
  fixes alloc :: "'s \<Rightarrow> u32 \<times> 's"
    and release :: "u32 \<Rightarrow> 's \<Rightarrow> 's"
    and frames :: "'s \<Rightarrow> nat set"
    and limit :: "'s \<Rightarrow> nat"
    and inv :: "'s \<Rightarrow> bool"
  assumes frames_bound: "inv s \<Longrightarrow> p \<in> frames s \<Longrightarrow> 0 < p \<and> p < limit s"
    and limit_bound: "inv s \<Longrightarrow> limit s \<le> 65536"
    and alloc_some: "inv s \<Longrightarrow> frames s \<noteq> {} \<Longrightarrow>
      \<exists>p s'. alloc s = (word_of_nat (4096 * p), s') \<and> p \<in> frames s \<and>
        frames s' = frames s - {p} \<and> limit s' = limit s \<and> inv s'"
    and alloc_none: "inv s \<Longrightarrow> frames s = {} \<Longrightarrow> alloc s = (0, s)"
    and release_frame: "inv s \<Longrightarrow> 0 < p \<Longrightarrow> p < limit s \<Longrightarrow> p \<notin> frames s \<Longrightarrow>
      inv (release (word_of_nat (4096 * p)) s) \<and>
      frames (release (word_of_nat (4096 * p)) s) = insert p (frames s)"
begin

lemma frame_address:
  assumes "inv s" and "p \<in> frames s"
  shows "unat (word_of_nat (4096 * p) :: u32) = 4096 * p"
proof -
  have "p < 65536" using frames_bound [OF assms] limit_bound [OF assms(1)] by simp
  then show ?thesis by (intro unat_u32_of_nat) simp
qed

lemma alloc_cases:
  assumes "inv s"
  obtains (full) "frames s = {}" "alloc s = (0, s)"
  | (frame) p s' where "alloc s = (word_of_nat (4096 * p), s')" "p \<in> frames s"
      "frames s' = frames s - {p}" "inv s'" "unat (word_of_nat (4096 * p) :: u32) = 4096 * p"
  using alloc_some [OF assms] alloc_none [OF assms] frame_address [OF assms] by metis

lemma alloc_null: "inv s \<Longrightarrow> fst (alloc s) = 0 \<longleftrightarrow> frames s = {}"
proof -
  assume i: "inv s"
  then show ?thesis
  proof (cases rule: alloc_cases)
    case full
    then show ?thesis by simp
  next
    case (frame p s')
    then have "0 < 4096 * p" using frames_bound [OF i] by simp
    with frame show ?thesis by (auto simp: u32_eq_unat)
  qed
qed

lemma alloc_inv: "inv s \<Longrightarrow> inv (snd (alloc s))"
  by (rule alloc_cases [of s]) auto

lemma alloc_subset: "inv s \<Longrightarrow> frames (snd (alloc s)) \<subseteq> frames s"
  by (erule alloc_cases) auto

lemma alloc_aligned: "inv s \<Longrightarrow> unat (fst (alloc s)) mod 4096 = 0"
  by (erule alloc_cases) auto

lemma alloc_count:
  "inv s \<Longrightarrow> finite (frames s) \<Longrightarrow> card (frames (snd (alloc s))) = card (frames s) - 1"
  by (erule alloc_cases) auto

lemma alloc_release:
  assumes "inv s" and "frames s \<noteq> {}"
  shows "frames (release (fst (alloc s)) (snd (alloc s))) = frames s"
proof -
  obtain p s' where a: "alloc s = (word_of_nat (4096 * p), s')" "p \<in> frames s"
      "frames s' = frames s - {p}" "limit s' = limit s" "inv s'"
    using alloc_some [OF assms] by blast
  then have "0 < p" "p < limit s'" using frames_bound [OF assms(1)] by auto
  then show ?thesis using a release_frame [of s' p] by auto
qed

end

interpretation pmm: frame_allocator pmm_alloc_page pmm_free_page free_frames
  "\<lambda>s. unat (total_pages s)" pmm_inv
proof (unfold_locales, goal_cases)
  case (1 s p)
  then show ?case by (metis (mono_tags, lifting) bot_nat_0.not_eq_extremum free_frames_def mem_Collect_eq pmm_inv_def)
next
  case (2 s)
  then show ?case by (simp add: pmm_inv_def pmm_wf_def pmm_shape_def)
next
  case (3 s)
  then show ?case using pmm_alloc_page_some [of s] by (metis Min_in finite_free_frames)
next
  case (4 s)
  then show ?case by (simp add: pmm_alloc_page_full pmm_inv_def pmm_wf_def)
next
  case (5 s p)
  then show ?case using pmm_free_page_frame [of s p] by simp
qed

section \<open>Initialisation\<close>

lemma pmm_reserve_low_spec:
  assumes "pmm_wf s" and "\<forall>p. unat i \<le> p \<and> p < unat (total_pages s) \<longrightarrow> \<not> page_used s p"
  shows "pmm_wf (pmm_reserve_low i r s) \<and>
    used_frames (pmm_reserve_low i r s) =
      used_frames s \<union> {p. unat i \<le> p \<and> p < unat r \<and> p < unat (total_pages s)} \<and>
    total_pages (pmm_reserve_low i r s) = total_pages s \<and>
    pmm_state.more (pmm_reserve_low i r s) = pmm_state.more s"
  using assms
proof (induction i r s rule: pmm_reserve_low.induct)
  case (1 i r s)
  show ?case
  proof (cases "i < r \<and> i < total_pages s")
    case True
    let ?s = "(bitmap_set i s)\<lparr>used_pages := used_pages s + 1\<rparr>"
    have sh: "pmm_shape s" using 1 by (simp add: pmm_wf_def)
    have lt: "unat i < unat (total_pages s)" "unat i < unat r" using True by (auto simp: word_less_nat_alt)
    have suc: "unat (i + 1) = Suc (unat i)" using True unat_u32_succ by blast
    have "pmm_wf ?s" using 1 lt by (intro pmm_wf_mark) auto
    moreover have "\<forall>p. unat (i + 1) \<le> p \<and> p < unat (total_pages ?s) \<longrightarrow> \<not> page_used ?s p"
      using 1 sh lt suc by (auto simp: page_used_set shape_index)
    moreover have "used_frames ?s = insert (unat i) (used_frames s)"
      using sh lt by (simp add: used_frames_set)
    ultimately show ?thesis
      using 1(1) [OF True] True lt suc by (auto simp: pmm_reserve_low.simps [of i r s])
  next
    case False
    then show ?thesis using 1
      by (auto simp: pmm_reserve_low.simps [of i r s] word_less_nat_alt)
  qed
qed

lemma pmm_reserve_range_spec:
  assumes "pmm_wf s"
  shows "pmm_wf (pmm_reserve_range i e s) \<and>
    used_frames (pmm_reserve_range i e s) =
      used_frames s \<union> {p. unat i \<le> p \<and> p < unat e \<and> p < unat (total_pages s)} \<and>
    total_pages (pmm_reserve_range i e s) = total_pages s \<and>
    pmm_state.more (pmm_reserve_range i e s) = pmm_state.more s"
  using assms
proof (induction i e s rule: pmm_reserve_range.induct)
  case (1 i e s)
  show ?case
  proof (cases "i < e \<and> i < total_pages s")
    case True
    let ?s = "if \<not> bitmap_test i s then (bitmap_set i s)\<lparr>used_pages := used_pages s + 1\<rparr> else s"
    have sh: "pmm_shape s" using 1 by (simp add: pmm_wf_def)
    have lt: "unat i < unat (total_pages s)" "unat i < unat e" using True by (auto simp: word_less_nat_alt)
    have suc: "unat (i + 1) = Suc (unat i)" using True unat_u32_succ by blast
    have "pmm_wf ?s" using 1 lt by (auto simp: bitmap_test_used intro: pmm_wf_mark)
    moreover have "used_frames ?s = insert (unat i) (used_frames s)"
      using sh lt by (auto simp: bitmap_test_used used_frames_def page_used_set shape_index)
    moreover have "total_pages ?s = total_pages s" "pmm_state.more ?s = pmm_state.more s"
      by simp_all
    moreover have "pmm_reserve_range i e s = pmm_reserve_range (i + 1) e ?s"
      using True by (simp add: pmm_reserve_range.simps [of i e s])
    moreover have "{p. unat (i + 1) \<le> p \<and> p < unat e \<and> p < unat (total_pages s)} \<union> {unat i} =
        {p. unat i \<le> p \<and> p < unat e \<and> p < unat (total_pages s)}"
      using lt suc by auto
    ultimately show ?thesis using 1(1) [OF True] by auto
  next
    case False
    then show ?thesis using 1
      by (auto simp: pmm_reserve_range.simps [of i e s] word_less_nat_alt)
  qed
qed

text \<open>A well-formed memory map: following the size fields from \<open>a\<close> reaches the end after
  the entries \<open>es\<close>.\<close>

fun mmap_entries :: "(u32 \<Rightarrow> multiboot_mmap_entry) \<Rightarrow> u32 \<Rightarrow> u32 \<Rightarrow> multiboot_mmap_entry list \<Rightarrow> bool" where
  "mmap_entries M a e [] \<longleftrightarrow> \<not> a < e"
| "mmap_entries M a e (x # xs) \<longleftrightarrow> a < e \<and> M a = x \<and> mmap_entries M (a + me_size x + 4) e xs"

text \<open>The frames that an entry makes unavailable.\<close>

definition entry_reserved :: "multiboot_mmap_entry \<Rightarrow> nat set" where
  "entry_reserved x = (if me_type x \<noteq> 1
     then {unat (PAGE_NUMBER (me_addr_low x)) ..< unat (PAGE_NUMBER (me_addr_low x + me_len_low x))}
     else {})"

lemma pmm_mmap_loop_spec:
  assumes "mmap_entries M a e es" and "pmm_wf s"
  shows "\<exists>s'. pmm_mmap_loop M a e s = Some s' \<and> pmm_wf s' \<and>
    used_frames s' = used_frames s \<union> ((\<Union>x \<in> set es. entry_reserved x) \<inter> {..<unat (total_pages s)}) \<and>
    total_pages s' = total_pages s \<and> pmm_state.more s' = pmm_state.more s"
  using assms
proof (induction es arbitrary: a s)
  case Nil
  then show ?case by (simp add: pmm_mmap_loop.simps [of M a e s])
next
  case (Cons x xs)
  let ?s = "if me_type x \<noteq> 1
     then pmm_reserve_range (PAGE_NUMBER (me_addr_low x))
            (PAGE_NUMBER (me_addr_low x + me_len_low x)) s else s"
  have s: "pmm_wf ?s" "used_frames ?s = used_frames s \<union> (entry_reserved x \<inter> {..<unat (total_pages s)})"
      "total_pages ?s = total_pages s" "pmm_state.more ?s = pmm_state.more s"
    using pmm_reserve_range_spec [OF Cons.prems(2)] Cons.prems(2) by (auto simp: entry_reserved_def)
  have step: "pmm_mmap_loop M a e s = pmm_mmap_loop M (a + me_size x + 4) e ?s"
    using Cons.prems(1) by (auto simp: pmm_mmap_loop.simps [of M a e s])
  from Cons.IH [OF _ s(1), of "a + me_size x + 4"] Cons.prems(1) s step show ?case
    by auto
qed

lemma pmm_total_pages_bound: "unat (pmm_total_memory mb div PAGE_SIZE) \<le> 65536"
proof -
  have "unat (pmm_total_memory mb) \<le> 0x10000000"
    by (auto simp: pmm_total_memory_def Let_def word_le_nat_alt not_less [symmetric] word_less_nat_alt)
  then have "unat (pmm_total_memory mb) div 4096 \<le> 0x10000000 div 4096"
    by (rule div_le_mono)
  then show ?thesis by (simp add: unat_div)
qed

lemma pmm_init_bitmap_spec:
  fixes s :: "'a pmm_state_scheme" and mb :: multiboot_info
  assumes "used_pages s = 0"
  defines "s' \<equiv> pmm_init_bitmap mb s"
    and "n \<equiv> unat (pmm_total_memory mb) div 4096"
  shows "pmm_wf s' \<and> unat (total_pages s') = n \<and>
    used_frames s' = {..<min n (512 + (4 * ((n + 31) div 32) + 4095) div 4096)} \<and> pmm_state.more s' = pmm_state.more s"
proof -
  let ?tp = "pmm_total_memory mb div PAGE_SIZE"
  let ?bs = "(?tp + 31) div 32"
  let ?s1 = "s\<lparr>total_pages := ?tp, bitmap_size := ?bs, bitmap := replicate (unat ?bs) 0\<rparr>"
  let ?r = "PAGE_NUMBER (PAGE_ALIGN (0x200000 + ?bs * 4))"
  have n: "unat ?tp = n" and n': "n \<le> 65536"
    using pmm_total_pages_bound [of mb] by (auto simp: n_def unat_div)
  have "unat (?tp + 31) = n + 31" using n n' by (simp add: unat_u32_add)
  then have bs: "unat ?bs = (n + 31) div 32" by (simp add: unat_div)
  have bs4: "unat (?bs * 4) = 4 * ((n + 31) div 32)"
    using bs n' by (subst unat_u32_mult) auto
  have "unat (0x200000 + ?bs * 4 + 4096 - 1) = 0x200000 + 4 * ((n + 31) div 32) + 4095"
    (is "unat ?k = ?kn")
  proof -
    have "?k = 0x200000 + ?bs * 4 + 4095" by (simp add: algebra_simps)
    moreover have "(n + 31) div 32 \<le> 2048" using n' by linarith
    ultimately show ?thesis using bs4 by (simp add: unat_u32_add)
  qed
  then have r: "unat ?r = 512 + (4 * ((n + 31) div 32) + 4095) div 4096"
    by (simp add: PAGE_NUMBER_def PAGE_ALIGN_def unat_div unat_page_base minus_mod_eq_mult_div)
  have pu: "\<not> page_used ?s1 p" if "p < n" for p
  proof -
    have "p div 32 < unat ?bs" using that bs by linarith
    then show ?thesis by (simp add: page_used_def)
  qed
  then have empty: "used_frames ?s1 = {}" using n by (auto simp: used_frames_def)
  have "pmm_wf ?s1" using assms(1) empty n n' bs by (simp add: pmm_wf_def pmm_shape_def)
  then have res: "pmm_wf (pmm_reserve_low 0 ?r ?s1)"
      "used_frames (pmm_reserve_low 0 ?r ?s1) = {p. p < unat ?r \<and> p < n}"
      "total_pages (pmm_reserve_low 0 ?r ?s1) = ?tp" "pmm_state.more (pmm_reserve_low 0 ?r ?s1) = pmm_state.more s"
    using pmm_reserve_low_spec [of ?s1 0 ?r] pu empty n by simp_all
  have s': "s' = pmm_reserve_low 0 ?r ?s1"
    by (simp only: s'_def pmm_init_bitmap_def Let_def)
  have "{p. p < unat ?r \<and> p < n} = {..<min n (512 + (4 * ((n + 31) div 32) + 4095) div 4096)}"
    unfolding r by auto
  with res n show ?thesis unfolding s' by simp
qed

section \<open>Properties\<close>

text \<open>An executable form of the frame sets, for evaluating concrete states.\<close>

lemma frames_code [code]:
  "used_frames s = set (filter (page_used s) [0..<unat (total_pages s)])"
  "free_frames s = set (filter (\<lambda>p. \<not> page_used s p) [0..<unat (total_pages s)])"
  by (auto simp: used_frames_def free_frames_def)

text \<open>A machine with 6 frames whose frames 0 to 3 are taken.\<close>

definition pmm_example :: pmm_state where
  "pmm_example = \<lparr>bitmap = [0x0F], total_pages = 6, used_pages = 4, bitmap_size = 1\<rparr>"

lemma pmm_example_frames: "used_frames pmm_example = {0, 1, 2, 3}" "free_frames pmm_example = {4, 5}"
proof -
  have "[0..<6] = [0, 1, 2, 3, 4, 5::nat]" by code_simp
  then show "used_frames pmm_example = {0, 1, 2, 3}" "free_frames pmm_example = {4, 5}"
    by (simp_all add: frames_code pmm_example_def page_used_def)
qed

lemma pmm_example_inv: "pmm_inv pmm_example"
proof -
  have "pmm_shape pmm_example" by (simp add: pmm_shape_def pmm_example_def)
  moreover have "unat (used_pages pmm_example) = 4" by (simp add: pmm_example_def)
  ultimately show ?thesis by (simp add: pmm_inv_def pmm_wf_def pmm_example_frames)
qed

lemma bitmap_clear_set:
  assumes "unat b div 32 < length (bitmap s)" and "\<not> page_used s (unat b)"
  shows "bitmap_clear b ((bitmap_set b s)\<lparr>used_pages := n\<rparr>) = s\<lparr>used_pages := n\<rparr>"
proof -
  have "(bitmap s ! (unat b div 32) OR 2 ^ (unat b mod 32)) AND NOT (2 ^ (unat b mod 32)) =
      bitmap s ! (unat b div 32)"
    using assms(2) by (intro bit_word_eqI) (auto simp: page_used_def bit_simps)
  with assms(1) show ?thesis
    by (simp add: bitmap_clear_def bitmap_set_def unat_div unat_mod)
qed

lemma pmm_init_spec:
  assumes "used_pages s = 0" and "mb_flags mb AND 0x40 \<noteq> 0"
    and "mmap_entries M (mmap_addr mb) (mmap_addr mb + mmap_length mb) es"
    and "4096 \<le> pmm_total_memory mb"
  shows "\<exists>s' n. pmm_init mb M s = Some s' \<and> pmm_inv s' \<and>
     n = unat (pmm_total_memory mb) div 4096 \<and> unat (total_pages s') = n \<and>
     used_frames s' = {p. p < n \<and> (p < 512 + (4 * ((n + 31) div 32) + 4095) div 4096 \<or>
                                   (\<exists>x \<in> set es. p \<in> entry_reserved x))} \<and>
     pmm_state.more s' = pmm_state.more s"
proof -
  define n where "n = unat (pmm_total_memory mb) div 4096"
  define r where "r = 512 + (4 * ((n + 31) div 32) + 4095) div 4096"
  define s1 where "s1 = pmm_init_bitmap mb s"
  have i: "pmm_wf s1" "unat (total_pages s1) = n" "used_frames s1 = {..<min n r}" "pmm_state.more s1 = pmm_state.more s"
    using pmm_init_bitmap_spec [OF assms(1), of mb] unfolding s1_def n_def r_def by blast+
  have "pmm_init mb M s = pmm_mmap_loop M (mmap_addr mb) (mmap_addr mb + mmap_length mb) s1"
    using assms(2) by (simp add: pmm_init_def s1_def Let_def)
  then obtain s' where s': "pmm_init mb M s = Some s'" "pmm_wf s'" "unat (total_pages s') = n"
      "used_frames s' = {..<min n r} \<union> ((\<Union>x \<in> set es. entry_reserved x) \<inter> {..<n})" "pmm_state.more s' = pmm_state.more s"
    using pmm_mmap_loop_spec [OF assms(3) i(1)] i by auto
  have "0 < n" using assms(4) by (simp add: n_def word_le_nat_alt div_greater_zero_iff)
  then have "0 \<in> used_frames s'" using s'(4) by (simp add: r_def)
  then have "pmm_inv s'" using s'(2) frames_partition(2) [of s'] by (auto simp: pmm_inv_def)
  moreover have "used_frames s' = {p. p < n \<and> (p < r \<or> (\<exists>x \<in> set es. p \<in> entry_reserved x))}"
    unfolding s'(4) by (simp add: set_eq_iff) blast
  ultimately show ?thesis using s' unfolding r_def n_def by blast
qed

text \<open>C31: \<open>pmm_alloc_page\<close> returns \<^verbatim>\<open>NULL\<close> and changes nothing when no frame is free; otherwise it
  returns the address of the lowest free frame, marks exactly that frame, and keeps the
  invariant (bitmap of the announced size, \<open>used_pages\<close> equal to the number of set bits,
  frame 0 taken).\<close>

theorem pmm_alloc_page_correct:
  assumes "pmm_inv s"
  shows "if free_frames s = {} then pmm_alloc_page s = (0, s)
     else \<exists>s'. pmm_alloc_page s = (word_of_nat (4096 * Min (free_frames s)), s') \<and>
       unat (fst (pmm_alloc_page s)) = 4096 * Min (free_frames s) \<and>
       free_frames s' = free_frames s - {Min (free_frames s)} \<and>
       used_frames s' = insert (Min (free_frames s)) (used_frames s) \<and> pmm_inv s'"
proof (cases "free_frames s = {}")
  case True
  then show ?thesis using pmm.alloc_none [OF assms] by simp
next
  case False
  then have "Min (free_frames s) \<in> free_frames s" by (intro Min_in) auto
  from pmm.frame_address [OF assms this] False show ?thesis
    using pmm_alloc_page_some [OF assms False] by auto
qed

theorem pmm_alloc_page_correct_witness:
  "pmm_inv pmm_example \<and> unat (fst (pmm_alloc_page pmm_example)) = 4096 * 4"
  using pmm_alloc_page_correct [OF pmm_example_inv] pmm_example_inv
  by (auto simp: pmm_example_frames)

text \<open>C32: releasing the frame that \<open>pmm_alloc_page\<close> just handed out restores the manager's state
  exactly; and for the address of any page but page 0, \<open>pmm_free_page\<close> frees that page if it
  is marked and is the identity if it is already free or beyond the managed memory (so a
  double free is harmless).\<close>

theorem pmm_free_page_correct:
  assumes "pmm_inv s"
  shows "(free_frames s \<noteq> {} \<longrightarrow>
       pmm_free_page (fst (pmm_alloc_page s)) (snd (pmm_alloc_page s)) = s) \<and>
     (0 < unat a div 4096 \<longrightarrow>
       (if unat a div 4096 \<in> used_frames s
        then free_frames (pmm_free_page a s) = insert (unat a div 4096) (free_frames s) \<and>
             pmm_inv (pmm_free_page a s)
        else pmm_free_page a s = s))"
proof (intro conjI impI)
  assume nonempty: "free_frames s \<noteq> {}"
  let ?p = "Min (free_frames s)"
  let ?w = "word_of_nat ?p :: u32"
  let ?s = "(bitmap_set ?w s)\<lparr>used_pages := used_pages s + 1\<rparr>"
  have sh: "pmm_shape s" using assms by (simp add: pmm_inv_def pmm_wf_def)
  have p: "?p \<in> free_frames s" using nonempty by (intro Min_in) auto
  have b: "0 < ?p" "?p < unat (total_pages s)" "unat (total_pages s) \<le> 65536"
    using pmm.frames_bound [OF assms p] pmm.limit_bound [OF assms] by auto
  then have w: "unat ?w = ?p" by (intro unat_u32_of_nat) simp
  have a: "unat (?w * 4096) = 4096 * ?p" using w b by (subst unat_u32_mult) auto
  then have pn: "PAGE_NUMBER (?w * 4096) = ?w" and nz: "?w * 4096 \<noteq> 0"
    using w b by (auto simp: PAGE_NUMBER_def u32_eq_unat unat_div)
  have np: "\<not> page_used s (unat ?w)" using p w by (simp add: free_frames_def)
  have "pmm_free_page (?w * 4096) ?s = (bitmap_clear ?w ?s)\<lparr>used_pages := used_pages s + 1 - 1\<rparr>"
    using pn nz b w sh by (simp add: pmm_free_page_def Let_def bitmap_test_used word_le_nat_alt
        page_used_set shape_index)
  also have "\<dots> = s" using bitmap_clear_set [of ?w s] np w b sh by (simp add: shape_index)
  finally show "pmm_free_page (fst (pmm_alloc_page s)) (snd (pmm_alloc_page s)) = s"
    using pmm_alloc_page_least [OF sh nonempty] by simp
next
  assume pos: "0 < unat a div 4096"
  have sh: "pmm_shape s" using assms by (simp add: pmm_inv_def pmm_wf_def)
  have pn: "unat (PAGE_NUMBER a) = unat a div 4096" by (simp add: PAGE_NUMBER_def unat_div)
  have nz: "a \<noteq> 0" using pos by auto
  let ?s' = "(bitmap_clear (PAGE_NUMBER a) s)\<lparr>used_pages := used_pages s - 1\<rparr>"
  show "if unat a div 4096 \<in> used_frames s
        then free_frames (pmm_free_page a s) = insert (unat a div 4096) (free_frames s) \<and>
             pmm_inv (pmm_free_page a s)
        else pmm_free_page a s = s"
  proof (cases "unat a div 4096 \<in> used_frames s")
    case True
    then have lt: "unat a div 4096 < unat (total_pages s)" "page_used s (unat a div 4096)"
      by (auto simp: used_frames_def)
    then have "pmm_free_page a s = ?s'"
      using nz pn by (simp add: pmm_free_page_def Let_def bitmap_test_used word_le_nat_alt)
    then show ?thesis
      using lt True pn pos assms sh pmm_wf_unmark [of s "PAGE_NUMBER a"]
      by (auto simp: used_frames_clear pmm_inv_def pmm_wf_def)
  next
    case False
    then show ?thesis
      using nz pn by (auto simp: pmm_free_page_def Let_def bitmap_test_used word_le_nat_alt used_frames_def)
  qed
qed

theorem pmm_free_page_correct_witness:
  "pmm_inv pmm_example \<and> free_frames (pmm_free_page 0x3000 pmm_example) = {3, 4, 5} \<and>
   pmm_free_page (fst (pmm_alloc_page pmm_example)) (snd (pmm_alloc_page pmm_example)) = pmm_example"
  using pmm_free_page_correct [OF pmm_example_inv, of "0x3000"] pmm_example_inv
  by (auto simp: pmm_example_frames)

text \<open>C33: on a machine whose boot loader passes a well-formed memory map, \<open>pmm_init\<close> terminates,
  establishes the invariant, and leaves exactly these frames taken: those below the end of the
  bitmap at 2 MB (not 4 MB, as its comment says) and those of the map's entries that are not
  available memory.\<close>

theorem pmm_init_correct:
  assumes "used_pages s = 0" and "mb_flags mb AND 0x40 \<noteq> 0"
    and "mmap_entries M (mmap_addr mb) (mmap_addr mb + mmap_length mb) es"
    and "4096 \<le> pmm_total_memory mb"
  shows "\<exists>s' n. pmm_init mb M s = Some s' \<and> pmm_inv s' \<and>
     n = unat (pmm_total_memory mb) div 4096 \<and> unat (total_pages s') = n \<and>
     used_frames s' = {p. p < n \<and> (p < 512 + (4 * ((n + 31) div 32) + 4095) div 4096 \<or>
                                   (\<exists>x \<in> set es. p \<in> entry_reserved x))}"
  using pmm_init_spec [OF assms] by blast

text \<open>A machine with 8 MB whose map has one available entry and one reserved one.\<close>

definition mb_example :: multiboot_info where
  "mb_example = \<lparr>mb_flags = 0x41, mem_lower = 0, mem_upper = 0x2000, boot_device = 0, cmdline = 0,
     mods_count = 0, mods_addr = 0, syms = [0, 0, 0, 0], mmap_length = 48, mmap_addr = 0x9000,
     drives_length = 0, drives_addr = 0, config_table = 0, boot_loader_name = 0, apm_table = 0,
     vbe_control_info = 0, vbe_mode_info = 0, vbe_mode = 0, vbe_interface_seg = 0,
     vbe_interface_off = 0, vbe_interface_len = 0, framebuffer_addr_low = 0,
     framebuffer_addr_high = 0, framebuffer_pitch = 0, framebuffer_width = 0,
     framebuffer_height = 0, framebuffer_bpp = 0, framebuffer_type = 0, framebuffer_color_info = []\<rparr>"

definition mmap_example :: "u32 \<Rightarrow> multiboot_mmap_entry" where
  "mmap_example a = \<lparr>me_size = 20, me_addr_low = (if a = 0x9000 then 0 else 0x700000),
     me_addr_high = 0, me_len_low = (if a = 0x9000 then 0x700000 else 0x2000), me_len_high = 0,
     me_type = (if a = 0x9000 then 1 else 2)\<rparr>"

theorem pmm_init_correct_witness:
  "\<exists>s'. pmm_init mb_example mmap_example (pmm_example\<lparr>used_pages := 0\<rparr>) = Some s' \<and> pmm_inv s' \<and>
     used_frames s' = {..<513} \<union> {0x700, 0x701}"
proof -
  let ?es = "[mmap_example 0x9000, mmap_example 0x9018]"
  have tm: "pmm_total_memory mb_example = 0x800000"
    by (simp add: pmm_total_memory_def mb_example_def)
  have es: "mmap_entries mmap_example (mmap_addr mb_example)
      (mmap_addr mb_example + mmap_length mb_example) ?es"
    by (simp add: mmap_example_def mb_example_def)
  have fl: "mb_flags mb_example AND 0x40 \<noteq> 0" by (simp add: mb_example_def)
  have up: "used_pages (pmm_example\<lparr>used_pages := 0\<rparr>) = 0" by simp
  have r: "entry_reserved (mmap_example 0x9000) = {}"
      "entry_reserved (mmap_example 0x9018) = {0x700 ..< 0x702}"
    by (simp_all add: entry_reserved_def mmap_example_def PAGE_NUMBER_def)
  have "{0x700 ..< 0x702} = {0x700, 0x701 :: nat}" by auto
  then show ?thesis
    using pmm_init_correct [OF up fl es] unfolding tm by (fastforce simp: r)
qed

end
