(* ===== verification/Paging.thy ===== *)
theory Paging
  imports PMM
begin

text \<open>
  Virtual memory, \<^verbatim>\<open>src/kernel/memory/paging.c\<close>: the static page directory, and page tables in
  frames taken from the frame allocator. The state extends the frame allocator's. Page tables
  are kept in a store indexed by their address, the static \<open>first_page_table\<close> among them; the
  addresses the linker gives to the two static arrays are fields that no operation changes.
  Loading \<^verbatim>\<open>cr3\<close> and setting bit 31 of \<^verbatim>\<open>cr0\<close> are updates of two register fields;
  \<^verbatim>\<open>invlpg\<close> has no effect on the model, which has no translation cache.
\<close>

section \<open>State and operations\<close>

abbreviation (input) PAGE_PRESENT :: u32 where "PAGE_PRESENT \<equiv> 0x001"
abbreviation (input) PAGE_WRITABLE :: u32 where "PAGE_WRITABLE \<equiv> 0x002"
abbreviation (input) PAGE_USER :: u32 where "PAGE_USER \<equiv> 0x004"

record paging_state = pmm_state +
  page_directory :: "u32 list"
  page_tables :: "u32 \<Rightarrow> u32 list"
  first_page_table :: u32
  page_directory_addr :: u32
  cr0 :: u32
  cr3 :: u32

definition paging_create_page_table ::
  "'a paging_state_scheme \<Rightarrow> u32 \<times> 'a paging_state_scheme" where
  "paging_create_page_table s =
     (let (table, s1) = pmm_alloc_page s
      in if table = 0 then (0, s1)
         else (table, s1\<lparr>page_tables := (page_tables s1)(table := replicate 1024 0)\<rparr>))"

definition paging_enable :: "'a paging_state_scheme \<Rightarrow> 'a paging_state_scheme" where
  "paging_enable s = s\<lparr>cr0 := cr0 s OR 0x80000000\<rparr>"

definition paging_disable :: "'a paging_state_scheme \<Rightarrow> 'a paging_state_scheme" where
  "paging_disable s = s\<lparr>cr0 := cr0 s AND NOT 0x80000000\<rparr>"

definition paging_init :: "'a paging_state_scheme \<Rightarrow> 'a paging_state_scheme" where
  "paging_init s =
     (let table = map (\<lambda>i. (word_of_nat i * PAGE_SIZE) OR PAGE_PRESENT OR PAGE_WRITABLE) [0..<1024];
          directory = (replicate 1024 0)[0 := first_page_table s OR PAGE_PRESENT OR PAGE_WRITABLE];
          s1 = s\<lparr>page_tables := (page_tables s)(first_page_table s := table),
                 page_directory := directory, cr3 := page_directory_addr s\<rparr>
      in paging_enable s1)"

definition pd_index :: "u32 \<Rightarrow> nat" where
  "pd_index va = unat (drop_bit 22 va)"

definition pt_index :: "u32 \<Rightarrow> nat" where
  "pt_index va = unat (drop_bit 12 va AND 0x3FF)"

text \<open>The entry write at the end of \<open>paging_map_page\<close>, once the directory slot is present.\<close>

definition paging_set_entry :: "u32 \<Rightarrow> u32 \<Rightarrow> 'a paging_state_scheme \<Rightarrow> 'a paging_state_scheme" where
  "paging_set_entry va e s =
     (let page_table = page_directory s ! pd_index va AND NOT 0xFFF
      in s\<lparr>page_tables := (page_tables s)(page_table := (page_tables s page_table)[pt_index va := e])\<rparr>)"

definition paging_map_page ::
  "u32 \<Rightarrow> u32 \<Rightarrow> u32 \<Rightarrow> 'a paging_state_scheme \<Rightarrow> 'a paging_state_scheme" where
  "paging_map_page virtual_addr physical_addr flags s =
     (if page_directory s ! pd_index virtual_addr AND PAGE_PRESENT = 0
      then let (page_table, s1) = paging_create_page_table s
           in if page_table = 0 then s1
              else paging_set_entry virtual_addr (physical_addr OR flags)
                     (s1\<lparr>page_directory := (page_directory s1)[pd_index virtual_addr :=
                           page_table OR PAGE_PRESENT OR PAGE_WRITABLE]\<rparr>)
      else paging_set_entry virtual_addr (physical_addr OR flags) s)"

definition paging_unmap_page :: "u32 \<Rightarrow> 'a paging_state_scheme \<Rightarrow> 'a paging_state_scheme" where
  "paging_unmap_page virtual_addr s =
     (if page_directory s ! pd_index virtual_addr AND PAGE_PRESENT \<noteq> 0
      then paging_set_entry virtual_addr 0 s else s)"

definition paging_get_physical :: "u32 \<Rightarrow> 'a paging_state_scheme \<Rightarrow> u32" where
  "paging_get_physical virtual_addr s =
     (if page_directory s ! pd_index virtual_addr AND PAGE_PRESENT = 0 then 0
      else let page_table = page_tables s (page_directory s ! pd_index virtual_addr AND NOT 0xFFF)
           in if page_table ! pt_index virtual_addr AND PAGE_PRESENT = 0 then 0
              else (page_table ! pt_index virtual_addr AND NOT 0xFFF) + (virtual_addr AND 0xFFF))"

section \<open>Word facts\<close>

lemma pd_index_less: "pd_index va < 1024"
proof -
  have "pd_index va = unat va div 4194304" by (simp add: pd_index_def unat_drop_bit_eq drop_bit_eq_div unat_div)
  then show ?thesis using unat_u32_less [of va] by (simp add: less_mult_imp_div_less)
qed

lemma pd_index_page: "pd_index va = unat va div 4096 div 1024"
  by (simp add: pd_index_def unat_drop_bit_eq drop_bit_eq_div unat_div div_mult2_eq [symmetric])

lemma pt_index_page: "pt_index va = unat va div 4096 mod 1024"
proof -
  have "(0x3FF :: u32) = mask 10" by (simp add: mask_eq_exp_minus_1)
  then have "drop_bit 12 va AND 0x3FF = take_bit 10 (drop_bit 12 va)" by (simp only: take_bit_eq_mask)
  then have "pt_index va = take_bit 10 (drop_bit 12 (unat va))"
    by (simp add: pt_index_def unsigned_take_bit_eq unat_drop_bit_eq)
  then show ?thesis by (simp add: take_bit_eq_mod drop_bit_eq_div)
qed

lemma pt_index_less: "pt_index va < 1024"
  by (simp add: pt_index_page)

lemma present_or: "(e OR f) AND 1 = (0 :: u32) \<longleftrightarrow> e AND 1 = 0 \<and> f AND 1 = 0"
  by (auto simp: bit_eq_iff bit_simps)

lemma page_base_or: "(f :: u32) AND - 4096 = 0 \<Longrightarrow> (e OR f) AND - 4096 = e AND - 4096"
  by (simp add: bit.conj_disj_distrib2)

lemma page_base_frame: "unat ((x :: u32) AND - 4096) div 4096 = unat x div 4096"
  by (simp add: unat_page_base minus_mod_eq_mult_div)

section \<open>The address space\<close>

text \<open>What the tables mean: the page-table entry of each virtual page that has one. Pages are
  numbered from 0 to \<open>2 ^ 20 - 1\<close>.\<close>

definition page_entry :: "'a paging_state_scheme \<Rightarrow> nat \<Rightarrow> u32" where
  "page_entry s v = page_tables s (page_directory s ! (v div 1024) AND - 4096) ! (v mod 1024)"

definition aspace :: "'a paging_state_scheme \<Rightarrow> nat \<Rightarrow> u32 option" where
  "aspace s v =
     (if v < 1048576 \<and> page_directory s ! (v div 1024) AND 1 \<noteq> 0 \<and> page_entry s v AND 1 \<noteq> 0
      then Some (page_entry s v) else None)"

text \<open>The invariant: each present directory slot has its own table of 1024 entries, in a frame
  that the allocator will not hand out again.\<close>

definition tables_wf :: "'a paging_state_scheme \<Rightarrow> bool" where
  "tables_wf s \<longleftrightarrow> length (page_directory s) = 1024 \<and>
     (\<forall>i < 1024. page_directory s ! i AND 1 \<noteq> 0 \<longrightarrow>
        length (page_tables s (page_directory s ! i AND - 4096)) = 1024 \<and>
        unat (page_directory s ! i) div 4096 \<notin> free_frames s) \<and>
     (\<forall>i < 1024. \<forall>j < 1024. page_directory s ! i AND 1 \<noteq> 0 \<longrightarrow> page_directory s ! j AND 1 \<noteq> 0 \<longrightarrow>
        page_directory s ! i AND - 4096 = page_directory s ! j AND - 4096 \<longrightarrow> i = j)"

definition paging_inv :: "'a paging_state_scheme \<Rightarrow> bool" where
  "paging_inv s \<longleftrightarrow> pmm_inv s \<and> tables_wf s"

lemma page_of_less: "unat (va :: u32) div 4096 < 1048576"
  using unat_u32_less [of va] by (simp add: less_mult_imp_div_less)

lemma same_page_index: "v < 1048576 \<Longrightarrow> w < 1048576 \<Longrightarrow> v div 1024 = w div 1024 \<Longrightarrow> v mod 1024 = w mod 1024 \<Longrightarrow> v = (w :: nat)"
  by (metis div_mult_mod_eq)

lemma paging_get_physical_aspace:
  "paging_get_physical va s =
     (case aspace s (unat va div 4096) of None \<Rightarrow> 0
      | Some e \<Rightarrow> (e AND - 4096) + (va AND 0xFFF))"
  using page_of_less [of va]
  by (simp add: paging_get_physical_def aspace_def page_entry_def pd_index_page pt_index_page Let_def)

lemma free_frames_paging [simp]:
  "free_frames (s\<lparr>page_tables := t\<rparr>) = free_frames s" "free_frames (s\<lparr>page_directory := d\<rparr>) = free_frames s"
  "pmm_inv (s\<lparr>page_tables := t\<rparr>) = pmm_inv s" "pmm_inv (s\<lparr>page_directory := d\<rparr>) = pmm_inv s"
  by (simp_all add: free_frames_def page_used_def pmm_inv_def pmm_wf_def pmm_shape_def used_frames_def)

lemma paging_set_entry_fields [frame_simps, simp]:
  "free_frames (paging_set_entry va e s) = free_frames s"
  "pmm_inv (paging_set_entry va e s) = pmm_inv s"
  "page_directory (paging_set_entry va e s) = page_directory s"
  "paging_state.more (paging_set_entry va e s) = paging_state.more s"
  by (simp_all add: paging_set_entry_def Let_def)

lemma tables_wf_set_entry [inv_intros]:
  "tables_wf s \<Longrightarrow> tables_wf (paging_set_entry va e s)"
  unfolding tables_wf_def paging_set_entry_def Let_def by auto

lemma aspace_set_entry:
  assumes "tables_wf s" and "page_directory s ! pd_index va AND 1 \<noteq> 0"
  shows "aspace (paging_set_entry va e s) =
     (aspace s)(unat va div 4096 := (if e AND 1 \<noteq> 0 then Some e else None))"
proof
  fix v
  let ?p = "unat va div 4096"
  let ?pd = "\<lambda>v. page_directory s ! (v div 1024)"
  have len: "length (page_tables s (?pd ?p AND - 4096)) = 1024"
    using assms pd_index_less [of va] by (auto simp: tables_wf_def pd_index_page)
  show "aspace (paging_set_entry va e s) v =
      ((aspace s)(?p := (if e AND 1 \<noteq> 0 then Some e else None))) v"
  proof (cases "v < 1048576 \<and> ?pd v AND 1 \<noteq> 0")
    case False
    then show ?thesis
      using assms(2) page_of_less [of va] by (auto simp: aspace_def pd_index_page)
  next
    case True
    then have "v div 1024 < 1024" by (simp add: less_mult_imp_div_less)
    then have same: "?pd v AND - 4096 = ?pd ?p AND - 4096 \<longleftrightarrow> v div 1024 = ?p div 1024"
      using assms True pd_index_less [of va] by (auto simp: tables_wf_def pd_index_page)
    have "page_entry (paging_set_entry va e s) v =
        (if v div 1024 = ?p div 1024 \<and> v mod 1024 = ?p mod 1024 then e else page_entry s v)"
      using same len
      by (auto simp: page_entry_def paging_set_entry_def Let_def pd_index_page pt_index_page)
    moreover have "v div 1024 = ?p div 1024 \<and> v mod 1024 = ?p mod 1024 \<longleftrightarrow> v = ?p"
      using same_page_index [of v ?p] True page_of_less [of va] by blast
    ultimately show ?thesis using True assms(2) by (auto simp: aspace_def)
  qed
qed

lemma pmm_alloc_page_paging [frame_simps, simp]:
  "page_directory (snd (pmm_alloc_page s)) = page_directory s"
  "page_tables (snd (pmm_alloc_page s)) = page_tables s"
  "first_page_table (snd (pmm_alloc_page s)) = first_page_table s"
  "paging_state.more (snd (pmm_alloc_page s)) = paging_state.more s"
  by (simp_all add: pmm_alloc_page_def bitmap_set_def Let_def)

text \<open>Creating a table takes the lowest free frame; entering it in an absent directory slot keeps
  the invariant and the address space, because the new table is empty.\<close>

lemma create_page_table_cases:
  assumes "paging_inv s"
  obtains (full) "free_frames s = {}" "paging_create_page_table s = (0, s)"
  | (table) p s0 where "p \<in> free_frames s" "p = Min (free_frames s)"
      "pmm_alloc_page s = (word_of_nat (4096 * p), s0)"
      "unat (word_of_nat (4096 * p) :: u32) = 4096 * p" "free_frames s0 = free_frames s - {p}"
      "pmm_inv s0" "page_directory s0 = page_directory s" "page_tables s0 = page_tables s"
      "paging_create_page_table s = (word_of_nat (4096 * p),
         s0\<lparr>page_tables := (page_tables s0)(word_of_nat (4096 * p) := replicate 1024 0)\<rparr>)"
proof (cases "free_frames s = {}")
  case True
  then show ?thesis
    using full pmm.alloc_none [of s] assms by (simp add: paging_create_page_table_def paging_inv_def)
next
  case False
  have inv: "pmm_inv s" using assms by (simp add: paging_inv_def)
  obtain p s0 where a: "pmm_alloc_page s = (word_of_nat (4096 * p), s0)" "p = Min (free_frames s)"
      "free_frames s0 = free_frames s - {p}" "pmm_inv s0"
    using pmm_alloc_page_some [OF inv False] by blast
  have p: "p \<in> free_frames s" using a(2) False by simp
  have adr: "unat (word_of_nat (4096 * p) :: u32) = 4096 * p" by (rule pmm.frame_address [OF inv p])
  then have nz: "(word_of_nat (4096 * p) :: u32) \<noteq> 0"
    using pmm.frames_bound [OF inv p] by (auto simp: u32_eq_unat)
  have "s0 = snd (pmm_alloc_page s)" using a(1) by simp
  then have "page_directory s0 = page_directory s" "page_tables s0 = page_tables s" by simp_all
  then show ?thesis
    using table a p adr nz by (simp add: paging_create_page_table_def)
qed

lemma table_entry_bits:
  fixes t :: u32
  assumes "unat t = 4096 * p"
  shows "(t OR 1 OR 2) AND - 4096 = t" and "(t OR 1 OR 2) AND 1 \<noteq> 0"
    and "unat (t OR 1 OR 2) div 4096 = p"
proof -
  have "t AND 0xFFF = 0" using unat_page_offset [of t] assms by (simp add: u32_eq_unat)
  then have t: "t AND - 4096 = t" by (simp add: page_base_offset)
  have e: "t OR 1 OR 2 = t OR 3" by simp
  show base: "(t OR 1 OR 2) AND - 4096 = t" unfolding e by (simp add: page_base_or t)
  show "(t OR 1 OR 2) AND 1 \<noteq> 0" unfolding e present_or by simp
  note page_base_frame [of "t OR 1 OR 2"]
  then show "unat (t OR 1 OR 2) div 4096 = p" unfolding base using assms by simp
qed

lemma new_table:
  assumes inv: "paging_inv s" and absent: "page_directory s ! i AND 1 = 0" and "i < 1024"
    and create: "paging_create_page_table s = (t, s1)" and "t \<noteq> 0"
  defines "s2 \<equiv> s1\<lparr>page_directory := (page_directory s1)[i := t OR 1 OR 2]\<rparr>"
  shows "paging_inv s2" and "aspace s2 = aspace s" and "page_directory s2 ! i AND 1 \<noteq> 0"
    and "free_frames s2 = free_frames s - {Min (free_frames s)}"
proof -
  have wf: "tables_wf s" using inv by (simp add: paging_inv_def)
  obtain p s0 where p: "p \<in> free_frames s" "p = Min (free_frames s)" "unat t = 4096 * p"
      "free_frames s0 = free_frames s - {p}" "pmm_inv s0" "page_directory s0 = page_directory s"
      "page_tables s0 = page_tables s" "s1 = s0\<lparr>page_tables := (page_tables s0)(t := replicate 1024 0)\<rparr>"
    using create \<open>t \<noteq> 0\<close> by (cases rule: create_page_table_cases [OF inv]) auto
  note e = table_entry_bits [OF p(3)]
  have len: "length (page_directory s) = 1024" using wf by (simp add: tables_wf_def)
  have pd: "page_directory s2 ! j = (if j = i then t OR 1 OR 2 else page_directory s ! j)"
    if "j < 1024" for j using that p(6,8) len \<open>i < 1024\<close> by (simp add: s2_def nth_list_update)
  have fresh: "page_directory s ! j AND - 4096 \<noteq> t" if "j < 1024" "page_directory s ! j AND 1 \<noteq> 0" for j
  proof
    assume "page_directory s ! j AND - 4096 = t"
    then have "unat (page_directory s ! j) div 4096 = p"
      using p(3) page_base_frame [of "page_directory s ! j"] by simp
    with that p(1) wf show False by (auto simp: tables_wf_def)
  qed
  have pt: "page_tables s2 = (page_tables s)(t := replicate 1024 0)" using p(7,8) by (simp add: s2_def)
  show pres: "page_directory s2 ! i AND 1 \<noteq> 0" using pd [OF \<open>i < 1024\<close>] e(2) by simp
  show fr: "free_frames s2 = free_frames s - {Min (free_frames s)}" using p by (simp add: s2_def)
  have "tables_wf s2"
    unfolding tables_wf_def
  proof (intro conjI allI impI)
    show "length (page_directory s2) = 1024" using p(6,8) len by (simp add: s2_def)
  next
    fix j assume "j < 1024" "page_directory s2 ! j AND 1 \<noteq> 0"
    then show "length (page_tables s2 (page_directory s2 ! j AND - 4096)) = 1024"
        "unat (page_directory s2 ! j) div 4096 \<notin> free_frames s2"
      using pd [of j] e pt fresh [of j] wf fr p(2) by (auto simp: tables_wf_def split: if_splits)
  next
    fix j k assume "j < 1024" "k < 1024" "page_directory s2 ! j AND 1 \<noteq> 0"
      "page_directory s2 ! k AND 1 \<noteq> 0" "page_directory s2 ! j AND - 4096 = page_directory s2 ! k AND - 4096"
    then show "j = k"
      using pd [of j] pd [of k] e fresh [of j] fresh [of k] wf by (auto simp: tables_wf_def split: if_splits)
  qed
  then show "paging_inv s2" using p(5,8) by (simp add: paging_inv_def s2_def)
  show "aspace s2 = aspace s"
  proof
    fix v
    show "aspace s2 v = aspace s v"
    proof (cases "v < 1048576")
      case True
      then have "v div 1024 < 1024" by (simp add: less_mult_imp_div_less)
      then show ?thesis
        using True pd [of "v div 1024"] e pt fresh [of "v div 1024"] absent
        by (auto simp: aspace_def page_entry_def)
    qed (simp add: aspace_def)
  qed
qed

section \<open>Mapping and unmapping as updates of the address space\<close>

definition map_ready :: "u32 \<Rightarrow> 'a paging_state_scheme \<Rightarrow> bool" where
  "map_ready va s \<longleftrightarrow> page_directory s ! pd_index va AND 1 \<noteq> 0 \<or> free_frames s \<noteq> {}"

definition entry_of :: "u32 \<Rightarrow> u32 \<Rightarrow> u32 option" where
  "entry_of pa fl = (if (pa OR fl) AND 1 \<noteq> 0 then Some (pa OR fl) else None)"

lemma paging_inv_set_entry [inv_intros]: "paging_inv s \<Longrightarrow> paging_inv (paging_set_entry va e s)"
  by (simp add: paging_inv_def tables_wf_set_entry)

lemma map_page_present:
  assumes "paging_inv s" and "page_directory s ! pd_index va AND 1 \<noteq> 0"
  shows "paging_inv (paging_map_page va pa fl s)"
    and "aspace (paging_map_page va pa fl s) = (aspace s)(unat va div 4096 := entry_of pa fl)"
  using assms aspace_set_entry [of s va "pa OR fl"]
  by (simp_all add: paging_map_page_def paging_inv_set_entry entry_of_def paging_inv_def
      tables_wf_set_entry)

lemma map_page_full:
  assumes "paging_inv s" and "page_directory s ! pd_index va AND 1 = 0" and "free_frames s = {}"
  shows "paging_map_page va pa fl s = s"
  using assms(2,3) by (cases rule: create_page_table_cases [OF assms(1)]) (simp_all add: paging_map_page_def)

lemma map_page_new:
  assumes inv: "paging_inv s" and absent: "page_directory s ! pd_index va AND 1 = 0"
    and "free_frames s \<noteq> {}"
  shows "paging_inv (paging_map_page va pa fl s)"
    and "aspace (paging_map_page va pa fl s) = (aspace s)(unat va div 4096 := entry_of pa fl)"
    and "free_frames (paging_map_page va pa fl s) = free_frames s - {Min (free_frames s)}"
proof -
  obtain t s1 where c: "paging_create_page_table s = (t, s1)" by fastforce
  have "t \<noteq> 0"
    using c assms(3) pmm.frames_bound [of s "Min (free_frames s)"] inv
    by (cases rule: create_page_table_cases [OF inv]) (auto simp: paging_inv_def u32_eq_unat)
  define s2 where "s2 = s1\<lparr>page_directory := (page_directory s1)[pd_index va := t OR 1 OR 2]\<rparr>"
  note n = new_table [OF inv absent pd_index_less c \<open>t \<noteq> 0\<close>, folded s2_def]
  have m: "paging_map_page va pa fl s = paging_set_entry va (pa OR fl) s2"
    using absent c \<open>t \<noteq> 0\<close> by (simp add: paging_map_page_def s2_def)
  show "paging_inv (paging_map_page va pa fl s)" unfolding m by (rule paging_inv_set_entry [OF n(1)])
  show "aspace (paging_map_page va pa fl s) = (aspace s)(unat va div 4096 := entry_of pa fl)"
    unfolding m using aspace_set_entry [of s2 va "pa OR fl"] n by (simp add: paging_inv_def entry_of_def)
  show "free_frames (paging_map_page va pa fl s) = free_frames s - {Min (free_frames s)}"
    unfolding m using n(4) by simp
qed

lemma unmap_page_aspace:
  assumes "paging_inv s"
  shows "aspace (paging_unmap_page va s) = (aspace s)(unat va div 4096 := None)"
proof (cases "page_directory s ! pd_index va AND 1 = 0")
  case True
  then have "aspace s (unat va div 4096) = None" by (simp add: aspace_def pd_index_page)
  then show ?thesis using True by (auto simp: paging_unmap_page_def)
next
  case False
  then show ?thesis
    using assms aspace_set_entry [of s va 0] by (simp add: paging_unmap_page_def paging_inv_def)
qed

lemma paging_inv_unmap [inv_intros]: "paging_inv s \<Longrightarrow> paging_inv (paging_unmap_page va s)"
  by (simp add: paging_unmap_page_def paging_inv_set_entry)

text \<open>The contract of the virtual memory component. Its clients see page maps: an abstract
  function from page numbers to entries, updated by mapping and unmapping, read by translation.\<close>

locale address_space =
  fixes inv :: "'s \<Rightarrow> bool"
    and space :: "'s \<Rightarrow> nat \<Rightarrow> u32 option"
    and ready :: "u32 \<Rightarrow> 's \<Rightarrow> bool"
    and map_page :: "u32 \<Rightarrow> u32 \<Rightarrow> u32 \<Rightarrow> 's \<Rightarrow> 's"
    and unmap_page :: "u32 \<Rightarrow> 's \<Rightarrow> 's"
    and translate :: "u32 \<Rightarrow> 's \<Rightarrow> u32"
  assumes map_inv: "inv s \<Longrightarrow> inv (map_page va pa fl s)"
    and map_space: "inv s \<Longrightarrow> ready va s \<Longrightarrow>
      space (map_page va pa fl s) = (space s)(unat va div 4096 := entry_of pa fl)"
    and map_stuck: "inv s \<Longrightarrow> \<not> ready va s \<Longrightarrow> map_page va pa fl s = s"
    and unmap_inv: "inv s \<Longrightarrow> inv (unmap_page va s)"
    and unmap_space: "inv s \<Longrightarrow> space (unmap_page va s) = (space s)(unat va div 4096 := None)"
    and translate_space: "translate va s =
      (case space s (unat va div 4096) of None \<Rightarrow> 0 | Some e \<Rightarrow> (e AND - 4096) + (va AND 0xFFF))"
begin

lemma translate_map:
  assumes "inv s" and "ready va s" and "pa AND 0xFFF = 0" and "fl AND - 4096 = 0" and "fl AND 1 \<noteq> 0"
  shows "translate va' (map_page va pa fl s) =
    (if unat va' div 4096 = unat va div 4096 then pa + (va' AND 0xFFF) else translate va' s)"
proof -
  have "(pa OR fl) AND - 4096 = pa"
    using page_base_or [OF assms(4), of pa] page_base_offset [of pa] assms(3) by simp
  then show ?thesis
    using assms by (simp add: translate_space map_space entry_of_def present_or)
qed

lemma translate_unmap:
  "inv s \<Longrightarrow> translate va' (unmap_page va s) =
    (if unat va' div 4096 = unat va div 4096 then 0 else translate va' s)"
  by (simp add: translate_space unmap_space)

lemma unmap_map:
  "inv s \<Longrightarrow> ready va s \<Longrightarrow> space (unmap_page va (map_page va pa fl s)) = (space s)(unat va div 4096 := None)"
  by (simp add: unmap_space map_space map_inv)

end

interpretation vm: address_space paging_inv aspace map_ready paging_map_page paging_unmap_page paging_get_physical
proof unfold_locales
  fix s :: "'a paging_state_scheme" and va pa fl
  assume inv: "paging_inv s"
  have c: "\<not> map_ready va s \<Longrightarrow> paging_map_page va pa fl s = s"
    by (rule map_page_full [OF inv]) (auto simp: map_ready_def)
  show "paging_inv (paging_map_page va pa fl s)"
    using c map_page_present(1) [OF inv] map_page_new(1) [OF inv] inv unfolding map_ready_def by metis
  show "\<not> map_ready va s \<Longrightarrow> paging_map_page va pa fl s = s" by (rule c)
  show "map_ready va s \<Longrightarrow> aspace (paging_map_page va pa fl s) = (aspace s)(unat va div 4096 := entry_of pa fl)"
    using map_page_present(2) [OF inv] map_page_new(2) [OF inv] unfolding map_ready_def by metis
qed (simp_all add: paging_inv_unmap unmap_page_aspace paging_get_physical_aspace)

section \<open>The initial address space\<close>

lemma frame_word_base:
  assumes "v < 1048576"
  shows "((word_of_nat (4096 * v) :: u32) OR 3) AND - 4096 = word_of_nat (4096 * v)"
    and "((word_of_nat (4096 * v) :: u32) OR 3) AND 1 \<noteq> 0"
  using table_entry_bits [of "word_of_nat (4096 * v)" v] assms unat_u32_of_nat [of "4096 * v"] by simp_all

lemma paging_init_fields:
  assumes "first_page_table s AND 0xFFF = 0"
  shows "length (page_directory (paging_init s)) = 1024"
    and "i < 1024 \<Longrightarrow> page_directory (paging_init s) ! i = (if i = 0 then first_page_table s OR 3 else 0)"
    and "(first_page_table s OR 3) AND - 4096 = first_page_table s"
    and "page_tables (paging_init s) (first_page_table s) = map (\<lambda>i. word_of_nat (4096 * i) OR 3) [0..<1024]"
    and "free_frames (paging_init s) = free_frames s" and "pmm_inv (paging_init s) = pmm_inv s"
proof -
  show "(first_page_table s OR 3) AND - 4096 = first_page_table s"
    using page_base_or [of 3 "first_page_table s"] page_base_offset [of "first_page_table s"] assms by simp
qed (simp_all add: paging_init_def Let_def paging_enable_def nth_list_update free_frames_def page_used_def
    pmm_inv_def pmm_wf_def pmm_shape_def used_frames_def mult.commute)

lemma paging_init_inv [inv_intros]:
  assumes "pmm_inv s" and "first_page_table s AND 0xFFF = 0"
    and "unat (first_page_table s) div 4096 \<notin> free_frames s"
  shows "paging_inv (paging_init s)"
proof -
  note f = paging_init_fields [OF assms(2)]
  have "unat (first_page_table s OR 3) div 4096 = unat (first_page_table s) div 4096"
    using page_base_frame [of "first_page_table s OR 3"] f(3) by simp
  then show ?thesis
    using assms f by (auto simp: paging_inv_def tables_wf_def split: if_splits)
qed

lemma paging_init_aspace:
  assumes "first_page_table s AND 0xFFF = 0"
  shows "aspace (paging_init s) v = (if v < 1024 then Some (word_of_nat (4096 * v) OR 3) else None)"
proof (cases "v < 1048576")
  case True
  note f = paging_init_fields [OF assms]
  have "v div 1024 < 1024" using True by (simp add: less_mult_imp_div_less)
  moreover have "v div 1024 = 0 \<longleftrightarrow> v < 1024" by auto
  ultimately show ?thesis
    using True f frame_word_base(2) [OF True] present_or [of "first_page_table s" 3]
    by (auto simp: aspace_def page_entry_def)
qed (simp add: aspace_def)

lemma paging_init_translate:
  assumes "first_page_table s AND 0xFFF = 0"
  shows "paging_get_physical va (paging_init s) = (if unat va < 0x400000 then va else 0)"
proof -
  have "4096 * (unat va div 4096) < 4294967296"
    using unat_u32_less [of va] by (rule le_less_trans [rotated]) simp
  then have "unat (word_of_nat (4096 * (unat va div 4096)) :: u32) = 4096 * (unat va div 4096)"
    by (rule unat_u32_of_nat)
  then have eq: "word_of_nat (4096 * (unat va div 4096)) = va AND - 4096"
    unfolding u32_eq_unat unat_page_base minus_mod_eq_mult_div by simp
  have "unat va div 4096 < 1024 \<longleftrightarrow> unat va < 0x400000" by (simp add: div_less_iff_less_mult)
  then show ?thesis
    using frame_word_base(1) [of "unat va div 4096"] page_of_less [of va] page_base_offset [of va] eq
    by (simp add: vm.translate_space paging_init_aspace [OF assms])
qed

section \<open>Properties\<close>

definition paging_example :: paging_state where
  "paging_example = \<lparr>bitmap = [0x0F], total_pages = 6, used_pages = 4, bitmap_size = 1,
     page_directory = [], page_tables = (\<lambda>_. []), first_page_table = 0x1000,
     page_directory_addr = 0x2000, cr0 = 0x11, cr3 = 0\<rparr>"

lemma paging_example_frames: "used_frames paging_example = {0, 1, 2, 3}" "free_frames paging_example = {4, 5}"
proof -
  have "[0..<6] = [0, 1, 2, 3, 4, 5::nat]" by code_simp
  then show "used_frames paging_example = {0, 1, 2, 3}" "free_frames paging_example = {4, 5}"
    by (simp_all add: frames_code paging_example_def page_used_def)
qed

lemma paging_example_pmm: "pmm_inv paging_example"
proof -
  have "pmm_shape paging_example" by (simp add: pmm_shape_def paging_example_def)
  moreover have "unat (used_pages paging_example) = 4" by (simp add: paging_example_def)
  ultimately show ?thesis by (simp add: pmm_inv_def pmm_wf_def paging_example_frames)
qed

lemma paging_example_table: "first_page_table paging_example = 0x1000"
  by (simp add: paging_example_def)

lemma paging_example_inv: "paging_inv (paging_init paging_example)"
  "free_frames (paging_init paging_example) = {4, 5}"
  by (rule paging_init_inv [OF paging_example_pmm])
    (simp_all add: paging_example_table paging_example_frames paging_init_fields)





text \<open>C36: after \<open>paging_init\<close> the first 4 MB are mapped to themselves and nothing else is mapped,
  \<^verbatim>\<open>cr3\<close> holds the directory's address and paging is enabled; if the static first table lies in a
  taken frame the invariant of the component holds.\<close>

theorem paging_init_correct:
  assumes "pmm_inv s" and "first_page_table s AND 0xFFF = 0"
    and "unat (first_page_table s) div 4096 \<notin> free_frames s"
  shows "paging_inv (paging_init s) \<and> cr3 (paging_init s) = page_directory_addr s \<and>
    bit (cr0 (paging_init s)) 31 \<and>
    (\<forall>va. paging_get_physical va (paging_init s) = (if unat va < 0x400000 then va else 0))"
proof -
  have "(0x80000000 :: u32) = push_bit 31 1" by simp
  then have "bit (cr0 (paging_init s)) 31"
    by (simp only: paging_init_def paging_enable_def Let_def paging_state.simps bit_or_iff) (simp add: bit_simps)
  then show ?thesis
    using paging_init_inv [OF assms] paging_init_translate [OF assms(2)]
    by (simp add: paging_init_def Let_def paging_enable_def)
qed

theorem paging_init_correct_witness:
  "paging_inv (paging_init paging_example) \<and> paging_get_physical 0x3FFFFF (paging_init paging_example) = 0x3FFFFF"
  using paging_init_correct [OF paging_example_pmm] by (simp add: paging_example_table paging_example_frames)

text \<open>A machine whose first 4 MB are all taken.\<close>

definition paging_low_full :: paging_state where
  "paging_low_full = paging_example\<lparr>bitmap := replicate 32 0xFFFFFFFF @ [0], total_pages := 1056,
     used_pages := 1024, bitmap_size := 33\<rparr>"

lemma paging_low_full_frames:
  "used_frames paging_low_full = {..<1024}" "free_frames paging_low_full = {1024..<1056}"
proof -
  have ones: "(0xFFFFFFFF :: u32) = - 1" by simp
  have "page_used paging_low_full p \<longleftrightarrow> p < 1024" if "p < 1056" for p
  proof (cases "p < 1024")
    case True
    then have "p div 32 < 32" by (simp add: less_mult_imp_div_less)
    then show ?thesis using True
      unfolding page_used_def paging_low_full_def ones by (simp add: nth_append)
  next
    case False
    then have "p div 32 = 32" using that by linarith
    then show ?thesis using False
      unfolding page_used_def paging_low_full_def by (simp add: nth_append)
  qed
  then show "used_frames paging_low_full = {..<1024}" "free_frames paging_low_full = {1024..<1056}"
    by (auto simp: used_frames_def free_frames_def paging_low_full_def)
qed

lemma paging_low_full_pmm: "pmm_inv paging_low_full"
proof -
  have "pmm_shape paging_low_full" by (simp add: pmm_shape_def paging_low_full_def)
  moreover have "unat (used_pages paging_low_full) = 1024" by (simp add: paging_low_full_def)
  ultimately show ?thesis by (simp add: pmm_inv_def pmm_wf_def paging_low_full_frames)
qed

lemma map_page_directory:
  assumes inv: "paging_inv s" and absent: "page_directory s ! pd_index va AND 1 = 0"
    and "free_frames s \<noteq> {}"
  shows "unat (page_directory (paging_map_page va pa fl s) ! pd_index va AND - 4096) =
    4096 * Min (free_frames s)"
  using inv
proof (cases rule: create_page_table_cases)
  case full
  then show ?thesis using \<open>free_frames s \<noteq> {}\<close> by simp
next
  case (table p s0)
  have "0 < p" using pmm.frames_bound [of s p] table inv by (simp add: paging_inv_def)
  then have "(word_of_nat (4096 * p) :: u32) \<noteq> 0" using table(4) by (auto simp: u32_eq_unat)
  then show ?thesis
    using table absent table_entry_bits(1) [OF table(4)] inv pd_index_less [of va]
    by (simp add: paging_map_page_def paging_inv_def tables_wf_def)
qed

text \<open>Page tables are written through their physical address, which is only right while that
  address is identity-mapped. Once the frames below 4 MB are used up, mapping a page outside
  them creates a table that the new address space does not map at all.\<close>

theorem paging_table_unreachable:
  assumes "pmm_inv s" and "first_page_table s AND 0xFFF = 0"
    and "unat (first_page_table s) div 4096 \<notin> free_frames s"
    and "free_frames s \<noteq> {}" and "\<forall>p \<in> free_frames s. 1024 \<le> p"
    and "0x400000 \<le> unat va" and "unat va div 4096 \<noteq> Min (free_frames s)"
  shows "\<exists>table. unat table = 4096 * Min (free_frames s) \<and>
    page_directory (paging_map_page va pa fl (paging_init s)) ! pd_index va AND NOT 0xFFF = table \<and>
    paging_get_physical table (paging_map_page va pa fl (paging_init s)) = 0"
proof -
  let ?s = "paging_init s"
  have inv: "paging_inv ?s" by (rule paging_init_inv [OF assms(1,2,3)])
  note f = paging_init_fields [OF assms(2)]
  have "pd_index va \<noteq> 0" using assms(6) unfolding pd_index_page by linarith
  then have absent: "page_directory ?s ! pd_index va AND 1 = 0" using f(2) [OF pd_index_less] by simp
  have m: "Min (free_frames s) \<in> free_frames s" using assms(4) by simp
  define t where "t = page_directory (paging_map_page va pa fl ?s) ! pd_index va AND - 4096"
  have t: "unat t = 4096 * Min (free_frames s)"
    using map_page_directory [OF inv absent, of pa fl] assms(4) f(5) by (simp add: t_def)
  have "aspace (paging_map_page va pa fl ?s) (Min (free_frames s)) = None"
    using map_page_new(2) [OF inv absent, of pa fl] assms f(5) m
    by (auto simp: paging_init_aspace [OF assms(2)] simp del: Min_in)
  then have "paging_get_physical t (paging_map_page va pa fl ?s) = 0" using t by (simp add: vm.translate_space)
  then show ?thesis using t t_def by auto
qed

theorem paging_table_unreachable_witness:
  "\<exists>table. unat table = 4096 * Min (free_frames paging_low_full) \<and>
    page_directory (paging_map_page 0x800000 0 3 (paging_init paging_low_full)) ! pd_index 0x800000
      AND NOT 0xFFF = table \<and>
    paging_get_physical table (paging_map_page 0x800000 0 3 (paging_init paging_low_full)) = 0"
proof (rule paging_table_unreachable [OF paging_low_full_pmm])
  show "unat (0x800000 :: u32) div 4096 \<noteq> Min (free_frames paging_low_full)"
    using Min_in [of "free_frames paging_low_full"] by (auto simp: paging_low_full_frames)
qed (simp_all add: paging_low_full_frames, simp_all add: paging_low_full_def paging_example_def)

end
