(* ===== verification/Memory.thy ===== *)
theory Memory
  imports Prelude
begin

text \<open>
  Byte-addressed memory, and the string library of \<^verbatim>\<open>src/kernel/lib/string.c\<close> with the two assembly
  routines of \<^verbatim>\<open>src/kernel/lib/string_asm.asm\<close> it calls. A memory is a function from 32-bit
  addresses to bytes, address arithmetic wraps as it does on the machine. A loop that only stops
  at a terminator is a partial function: without one in memory it has the value \<^term>\<open>None\<close>.
  A C \<^verbatim>\<open>char\<close> is signed on the target, so comparisons of \<^verbatim>\<open>char\<close> values use \<^verbatim>\<open>sint\<close>.
  The functions that return their first argument return it beside the new memory.
\<close>

section \<open>Words in memory\<close>

type_synonym mem = "u32 \<Rightarrow> u8"

definition ld32 :: "mem \<Rightarrow> u32 \<Rightarrow> u32" where
  "ld32 m a = ucast (m a) OR push_bit 8 (ucast (m (a + 1))) OR push_bit 16 (ucast (m (a + 2))) OR
     push_bit 24 (ucast (m (a + 3)))"

definition st32 :: "u32 \<Rightarrow> u32 \<Rightarrow> mem \<Rightarrow> mem" where
  "st32 a v m = m(a := ucast v, a + 1 := ucast (drop_bit 8 v), a + 2 := ucast (drop_bit 16 v),
     a + 3 := ucast (drop_bit 24 v))"

section \<open>Assembly routines\<close>

text \<open>The string instructions, forward, with the repeat count already read.\<close>

fun rep_movsb :: "nat \<Rightarrow> u32 \<Rightarrow> u32 \<Rightarrow> mem \<Rightarrow> mem" where
  "rep_movsb 0 edi esi m = m"
| "rep_movsb (Suc n) edi esi m = rep_movsb n (edi + 1) (esi + 1) (m(edi := m esi))"

fun rep_movsd :: "nat \<Rightarrow> u32 \<Rightarrow> u32 \<Rightarrow> mem \<Rightarrow> mem" where
  "rep_movsd 0 edi esi m = m"
| "rep_movsd (Suc n) edi esi m = rep_movsd n (edi + 4) (esi + 4) (st32 edi (ld32 m esi) m)"

fun rep_stosb :: "nat \<Rightarrow> u32 \<Rightarrow> u32 \<Rightarrow> mem \<Rightarrow> mem" where
  "rep_stosb 0 eax edi m = m"
| "rep_stosb (Suc n) eax edi m = rep_stosb n eax (edi + 1) (m(edi := ucast eax))"

fun rep_stosd :: "nat \<Rightarrow> u32 \<Rightarrow> u32 \<Rightarrow> mem \<Rightarrow> mem" where
  "rep_stosd 0 eax edi m = m"
| "rep_stosd (Suc n) eax edi m = rep_stosd n eax (edi + 4) (st32 edi eax m)"

text \<open>The code from label \<^verbatim>\<open>.aligned\<close> to \<^verbatim>\<open>.done\<close> of each routine.\<close>

definition memcpy_aligned :: "u32 \<Rightarrow> u32 \<Rightarrow> u32 \<Rightarrow> mem \<Rightarrow> mem" where
  "memcpy_aligned ecx edi esi m =
     (let q = drop_bit 2 ecx; m1 = rep_movsd (unat q) edi esi m; r = ecx AND 3
      in if r = 0 then m1 else rep_movsb (unat r) (edi + 4 * q) (esi + 4 * q) m1)"

definition memcpy_asm :: "u32 \<Rightarrow> u32 \<Rightarrow> u32 \<Rightarrow> mem \<Rightarrow> u32 \<times> mem" where
  "memcpy_asm dest src n m =
     (dest,
      if n = 0 then m
      else if n < 4 then rep_movsb (unat n) dest src m
      else let eax = dest AND 3
           in if eax = 0 then memcpy_aligned n dest src m
              else let edx = 4 - eax
                   in if n < edx then rep_movsb (unat n) dest src m
                      else let ecx = n - edx
                           in memcpy_aligned edx (dest + ecx) (src + ecx) (rep_movsb (unat ecx) dest src m))"

definition memset_aligned :: "u32 \<Rightarrow> u32 \<Rightarrow> u32 \<Rightarrow> mem \<Rightarrow> mem" where
  "memset_aligned eax ecx edi m =
     (let q = drop_bit 2 ecx; m1 = rep_stosd (unat q) eax edi m; r = ecx AND 3
      in if r = 0 then m1 else rep_stosb (unat r) eax (edi + 4 * q) m1)"

text \<open>\<^verbatim>\<open>mov ah, al; mov edx, eax; shl eax, 16; or eax, edx\<close>\<close>

definition memset_pattern :: "u32 \<Rightarrow> u32" where
  "memset_pattern c =
     (let eax = (c AND NOT 0xFF00) OR push_bit 8 (c AND 0xFF) in push_bit 16 eax OR eax)"

definition memset_asm :: "u32 \<Rightarrow> u32 \<Rightarrow> u32 \<Rightarrow> mem \<Rightarrow> u32 \<times> mem" where
  "memset_asm s c n m =
     (s,
      if n = 0 then m
      else let eax = memset_pattern c
           in if n < 4 then rep_stosb (unat n) eax s m
              else if s AND 3 = 0 then memset_aligned eax n s m
              else let edx = 4 - (s AND 3)
                   in if n < edx then rep_stosb (unat n) eax s m
                      else let ecx = n - edx
                           in memset_aligned eax edx (s + ecx) (rep_stosb (unat ecx) eax s m))"

section \<open>The string library\<close>

partial_function (option) strlen_loop :: "mem \<Rightarrow> u32 \<Rightarrow> u32 \<Rightarrow> u32 option" where
  "strlen_loop m str len = (if m (str + len) \<noteq> 0 then strlen_loop m str (len + 1) else Some len)"

definition strlen :: "mem \<Rightarrow> u32 \<Rightarrow> u32 option" where
  "strlen m str = strlen_loop m str 0"

definition memcpy :: "u32 \<Rightarrow> u32 \<Rightarrow> u32 \<Rightarrow> mem \<Rightarrow> u32 \<times> mem" where
  "memcpy dest src n m = memcpy_asm dest src n m"

definition memset :: "u32 \<Rightarrow> u32 \<Rightarrow> u32 \<Rightarrow> mem \<Rightarrow> u32 \<times> mem" where
  "memset s c n m = memset_asm s c n m"

text \<open>The two loops of \<open>memmove\<close>: upwards from index 0, and downwards from index \<open>n\<close>.\<close>

definition move_byte :: "u32 \<Rightarrow> u32 \<Rightarrow> nat \<Rightarrow> mem \<Rightarrow> mem" where
  "move_byte d s i m = m(d + word_of_nat i := m (s + word_of_nat i))"

fun memmove_down :: "u32 \<Rightarrow> u32 \<Rightarrow> nat \<Rightarrow> mem \<Rightarrow> mem" where
  "memmove_down d s 0 m = m"
| "memmove_down d s (Suc i) m = memmove_down d s i (move_byte d s i m)"

definition memmove :: "u32 \<Rightarrow> u32 \<Rightarrow> u32 \<Rightarrow> mem \<Rightarrow> u32 \<times> mem" where
  "memmove dest src n m =
     (dest, if dest < src
            then fold (move_byte dest src) [0..<unat n] m
            else memmove_down dest src (unat n) m)"

definition char_lt :: "u8 \<Rightarrow> u8 \<Rightarrow> bool" where
  "char_lt c d \<longleftrightarrow> sint c < sint d"

definition memcmp :: "mem \<Rightarrow> u32 \<Rightarrow> u32 \<Rightarrow> u32 \<Rightarrow> int" where
  "memcmp m s1 s2 n =
     (case for_find (\<lambda>i. m (s1 + word_of_nat i) \<noteq> m (s2 + word_of_nat i)) 0 (unat n) of
        None \<Rightarrow> 0
      | Some i \<Rightarrow> if char_lt (m (s1 + word_of_nat i)) (m (s2 + word_of_nat i)) then - 1 else 1)"

partial_function (option) strcpy_loop :: "u32 \<Rightarrow> u32 \<Rightarrow> mem \<Rightarrow> mem option" where
  "strcpy_loop d src m =
     (if m src \<noteq> 0 then strcpy_loop (d + 1) (src + 1) (m(d := m src)) else Some (m(d := m src)))"

definition strcpy :: "u32 \<Rightarrow> u32 \<Rightarrow> mem \<Rightarrow> (u32 \<times> mem) option" where
  "strcpy dest src m = map_option (Pair dest) (strcpy_loop dest src m)"

text \<open>\<open>strncpy\<close>: copies while \<open>i < n\<close> and the source has characters, then pads with zeros.\<close>

fun strncpy_loop :: "nat \<Rightarrow> bool \<Rightarrow> u32 \<Rightarrow> u32 \<Rightarrow> mem \<Rightarrow> mem" where
  "strncpy_loop 0 padding d src m = m"
| "strncpy_loop (Suc k) padding d src m =
     (if \<not> padding \<and> m src \<noteq> 0
      then strncpy_loop k False (d + 1) (src + 1) (m(d := m src))
      else strncpy_loop k True (d + 1) (src + 1) (m(d := 0)))"

definition strncpy :: "u32 \<Rightarrow> u32 \<Rightarrow> u32 \<Rightarrow> mem \<Rightarrow> u32 \<times> mem" where
  "strncpy dest src n m = (dest, strncpy_loop (unat n) False dest src m)"

partial_function (option) strcmp :: "mem \<Rightarrow> u32 \<Rightarrow> u32 \<Rightarrow> int option" where
  "strcmp m s1 s2 =
     (if m s1 \<noteq> 0 \<and> m s1 = m s2 then strcmp m (s1 + 1) (s2 + 1) else Some (uint (m s1) - uint (m s2)))"

fun strncmp :: "mem \<Rightarrow> u32 \<Rightarrow> u32 \<Rightarrow> nat \<Rightarrow> int" where
  "strncmp m s1 s2 0 = 0"
| "strncmp m s1 s2 (Suc k) =
     (if m s1 \<noteq> m s2 then if char_lt (m s1) (m s2) then - 1 else 1
      else if m s1 = 0 then 0
      else strncmp m (s1 + 1) (s2 + 1) k)"

partial_function (option) skip_string :: "mem \<Rightarrow> u32 \<Rightarrow> u32 option" where
  "skip_string m d = (if m d \<noteq> 0 then skip_string m (d + 1) else Some d)"

definition strcat :: "u32 \<Rightarrow> u32 \<Rightarrow> mem \<Rightarrow> (u32 \<times> mem) option" where
  "strcat dest src m =
     Option.bind (skip_string m dest) (\<lambda>d. map_option (Pair dest) (strcpy_loop d src m))"

fun strncat_loop :: "nat \<Rightarrow> u32 \<Rightarrow> u32 \<Rightarrow> mem \<Rightarrow> mem" where
  "strncat_loop 0 d src m = m(d := 0)"
| "strncat_loop (Suc k) d src m =
     (if m src \<noteq> 0 then strncat_loop k (d + 1) (src + 1) (m(d := m src)) else m(d := 0))"

definition strncat :: "u32 \<Rightarrow> u32 \<Rightarrow> u32 \<Rightarrow> mem \<Rightarrow> (u32 \<times> mem) option" where
  "strncat dest src n m =
     map_option (\<lambda>d. (dest, strncat_loop (unat n) d src m)) (skip_string m dest)"

text \<open>Position of a character; 0 is \<^verbatim>\<open>NULL\<close>. The argument \<open>c\<close> is an \<^verbatim>\<open>int\<close>, cut to a \<^verbatim>\<open>char\<close> in the loop
  and compared as an \<^verbatim>\<open>int\<close> with the terminator after it.\<close>

partial_function (option) strchr :: "mem \<Rightarrow> u32 \<Rightarrow> u32 \<Rightarrow> u32 option" where
  "strchr m s c =
     (if m s \<noteq> 0 then if m s = ucast c then Some s else strchr m (s + 1) c
      else if c = 0 then Some s else Some 0)"

partial_function (option) strrchr_loop :: "mem \<Rightarrow> u32 \<Rightarrow> u32 \<Rightarrow> u32 \<Rightarrow> u32 option" where
  "strrchr_loop m found s c =
     (if m s \<noteq> 0 then strrchr_loop m (if m s = ucast c then s else found) (s + 1) c
      else if c = 0 then Some s else Some found)"

definition strrchr :: "mem \<Rightarrow> u32 \<Rightarrow> u32 \<Rightarrow> u32 option" where
  "strrchr m s c = strrchr_loop m 0 s c"

partial_function (option) strspn_loop :: "mem \<Rightarrow> u32 \<Rightarrow> u32 \<Rightarrow> u32 \<Rightarrow> u32 option" where
  "strspn_loop m count s accept =
     (if m s \<noteq> 0
      then Option.bind (strchr m accept (scast (m s)))
             (\<lambda>r. if r \<noteq> 0 then strspn_loop m (count + 1) (s + 1) accept else Some count)
      else Some count)"

definition strspn :: "mem \<Rightarrow> u32 \<Rightarrow> u32 \<Rightarrow> u32 option" where
  "strspn m s accept = strspn_loop m 0 s accept"

section \<open>Reference operations on memory\<close>

text \<open>Copying and filling \<open>n\<close> bytes at once. The offset of an address in a block is the
  wrapped difference to its start.\<close>

definition copy_bytes :: "u32 \<Rightarrow> u32 \<Rightarrow> nat \<Rightarrow> mem \<Rightarrow> mem" where
  "copy_bytes d s n m = (\<lambda>a. if unat (a - d) < n then m (s + (a - d)) else m a)"

definition fill_bytes :: "u32 \<Rightarrow> u8 \<Rightarrow> nat \<Rightarrow> mem \<Rightarrow> mem" where
  "fill_bytes d v n m = (\<lambda>a. if unat (a - d) < n then v else m a)"

lemma unat_diff_offset:
  fixes x :: u32
  assumes "k \<le> 4294967296" and "n + k \<le> 4294967296"
  shows "unat (x - word_of_nat k) < n \<longleftrightarrow> k \<le> unat x \<and> unat x < k + n"
proof (cases "k = 4294967296")
  case True
  then have "n = 0" using assms by simp
  then show ?thesis by simp
next
  case False
  then have k: "unat (word_of_nat k :: u32) = k" using assms by (intro unat_u32_of_nat) simp
  then have "unat (x - word_of_nat k) = (if k \<le> unat x then unat x - k else 4294967296 + unat x - k)"
    by (auto simp: unat_sub_if_size word_size)
  then show ?thesis using assms unat_u32_less [of x] by auto
qed

lemma unat_u32_le: "unat (x :: u32) \<le> 4294967296"
  using unat_u32_less [of x] by (rule less_imp_le)

lemma copy_bytes_0 [simp]: "copy_bytes d s 0 m = m"
  by (simp add: copy_bytes_def)

lemma copy_bytes_append:
  assumes "k + n \<le> 4294967296" and "d = s \<or> k + n \<le> unat (d - s)"
  shows "copy_bytes (d + word_of_nat k) (s + word_of_nat k) n (copy_bytes d s k m) = copy_bytes d s (k + n) m"
proof
  fix a
  have off: "unat (a - (d + word_of_nat k)) < n \<longleftrightarrow> k \<le> unat (a - d) \<and> unat (a - d) < k + n"
    using unat_diff_offset [of k n "a - d"] assms(1) by (simp add: diff_diff_eq add.commute)
  have adr: "s + word_of_nat k + (a - (d + word_of_nat k)) = s + (a - d)" by simp
  show "copy_bytes (d + word_of_nat k) (s + word_of_nat k) n (copy_bytes d s k m) a =
      copy_bytes d s (k + n) m a"
  proof (cases "k \<le> unat (a - d) \<and> unat (a - d) < k + n")
    case True
    have "\<not> unat (s + (a - d) - d) < k"
    proof (cases "d = s")
      case False
      then have "k + n \<le> unat (d - s)" using assms(2) by simp
      then have "unat (a - d) < unat (d - s)" using True by simp
      have "s + (a - d) - d = (a - d) - (d - s)" by simp
      have "unat ((a - d) - (d - s)) = 4294967296 + unat (a - d) - unat (d - s)"
        using \<open>unat (a - d) < unat (d - s)\<close> by (subst unat_sub_if_size) (simp add: word_size)
      then show ?thesis
        unfolding \<open>s + (a - d) - d = (a - d) - (d - s)\<close>
        using True unat_u32_less [of "d - s"] by linarith
    qed (use True in simp)
    then show ?thesis using True off adr unfolding copy_bytes_def by simp
  next
    case False
    then show ?thesis using off unfolding copy_bytes_def by auto
  qed
qed

lemma copy_bytes_1: "copy_bytes d s 1 m = m(d := m s)"
  by (auto simp: copy_bytes_def fun_eq_iff unat_eq_zero)

lemma fill_bytes_0 [simp]: "fill_bytes d v 0 m = m"
  by (simp add: fill_bytes_def)

lemma fill_bytes_append:
  assumes "k + n \<le> 4294967296"
  shows "fill_bytes (d + word_of_nat k) v n (fill_bytes d v k m) = fill_bytes d v (k + n) m"
proof
  fix a
  have "unat (a - (d + word_of_nat k)) < n \<longleftrightarrow> k \<le> unat (a - d) \<and> unat (a - d) < k + n"
    using unat_diff_offset [of k n "a - d"] assms(1) by (simp add: diff_diff_eq add.commute)
  then show "fill_bytes (d + word_of_nat k) v n (fill_bytes d v k m) a = fill_bytes d v (k + n) m a"
    unfolding fill_bytes_def by auto
qed

lemma fill_bytes_1: "fill_bytes d v 1 m = m(d := v)"
  by (auto simp: fill_bytes_def fun_eq_iff unat_eq_zero)

section \<open>Words as bytes\<close>

lemma word4_distinct [simp]:
  "a + 1 \<noteq> (a :: u32)" "a + 2 \<noteq> a" "a + 3 \<noteq> a" "a + 2 \<noteq> a + 1" "a + 3 \<noteq> a + 1" "a + 3 \<noteq> a + 2"
  by simp_all

lemma unat_less_4: "unat (x :: u32) < 4 \<longleftrightarrow> x = 0 \<or> x = 1 \<or> x = 2 \<or> x = 3"
  by (auto simp: u32_eq_unat)

lemma ld32_st32 [simp]: "ld32 (st32 a v m) a = v"
proof (rule bit_word_eqI)
  fix n assume "n < LENGTH(32)"
  then have "n < 32" by simp
  then consider "n < 8" | "8 \<le> n" "n < 16" | "16 \<le> n" "n < 24" | "24 \<le> n" "n < 32" by linarith
  then show "bit (ld32 (st32 a v m) a) n = bit v n"
    by cases (auto simp: ld32_def st32_def bit_simps)
qed

lemma st32_other: "4 \<le> unat (b - a) \<Longrightarrow> st32 a v m b = m b"
proof -
  assume "4 \<le> unat (b - a)"
  then have "b - a \<noteq> 0" "b - a \<noteq> 1" "b - a \<noteq> 2" "b - a \<noteq> 3" by (auto simp: u32_eq_unat)
  then have "b \<noteq> a" "b \<noteq> a + 1" "b \<noteq> a + 2" "b \<noteq> a + 3" by auto
  then show ?thesis by (simp add: st32_def)
qed

lemma bit_u8_high: "8 \<le> k \<Longrightarrow> \<not> bit (b :: u8) k"
  using bit_imp_le_length [of b k] by auto

lemma byte_of_ld32:
  "ucast (ld32 m a) = m a" "ucast (drop_bit 8 (ld32 m a)) = m (a + 1)"
  "ucast (drop_bit 16 (ld32 m a)) = m (a + 2)" "ucast (drop_bit 24 (ld32 m a)) = m (a + 3)"
  by (auto simp: ld32_def bit_simps bit_u8_high intro!: bit_word_eqI)

lemma copy_bytes_4: "copy_bytes d s 4 m = st32 d (ld32 m s) m"
proof
  fix a
  have "unat (a - d) < 4 \<longleftrightarrow> a = d \<or> a = d + 1 \<or> a = d + 2 \<or> a = d + 3"
    unfolding unat_less_4 by (auto simp: diff_eq_eq add.commute)
  then show "copy_bytes d s 4 m a = st32 d (ld32 m s) m a"
    by (auto simp: copy_bytes_def st32_def byte_of_ld32)
qed

lemma fill_bytes_4:
  assumes "ucast w = v" "ucast (drop_bit 8 w) = v" "ucast (drop_bit 16 w) = v" "ucast (drop_bit 24 w) = v"
  shows "fill_bytes d v 4 m = st32 d w m"
proof
  fix a
  have "unat (a - d) < 4 \<longleftrightarrow> a = d \<or> a = d + 1 \<or> a = d + 2 \<or> a = d + 3"
    unfolding unat_less_4 by (auto simp: diff_eq_eq add.commute)
  then show "fill_bytes d v 4 m a = st32 d w m a"
    using assms by (auto simp: fill_bytes_def st32_def)
qed

section \<open>The assembly routines implement the reference operations\<close>

lemma rep_movsb_copy:
  assumes "n \<le> 4294967296" and "d = s \<or> n \<le> unat (d - s)"
  shows "rep_movsb n d s m = copy_bytes d s n m"
  using assms
proof (induction n arbitrary: d s m)
  case (Suc n)
  then have "rep_movsb (Suc n) d s m = copy_bytes (d + 1) (s + 1) n (copy_bytes d s 1 m)"
    unfolding copy_bytes_1 rep_movsb.simps by (intro Suc.IH) auto
  then show ?case using copy_bytes_append [of 1 n d s m] Suc.prems by simp
qed simp

lemma rep_movsd_copy:
  assumes "4 * n \<le> 4294967296" and "d = s \<or> 4 * n \<le> unat (d - s)"
  shows "rep_movsd n d s m = copy_bytes d s (4 * n) m"
  using assms
proof (induction n arbitrary: d s m)
  case (Suc n)
  then have "rep_movsd (Suc n) d s m = copy_bytes (d + 4) (s + 4) (4 * n) (copy_bytes d s 4 m)"
    unfolding copy_bytes_4 rep_movsd.simps by (intro Suc.IH) auto
  then show ?case using copy_bytes_append [of 4 "4 * n" d s m] Suc.prems by simp
qed simp

lemma word_quarter:
  fixes x :: u32
  shows "unat (drop_bit 2 x) = unat x div 4" "unat (x AND 3) = unat x mod 4"
    "4 * drop_bit 2 x = word_of_nat (4 * (unat x div 4))"
proof -
  have "(3 :: u32) = mask 2" by (simp add: mask_eq_exp_minus_1)
  then have "x AND 3 = take_bit 2 x" by (simp only: take_bit_eq_mask)
  then show "unat (x AND 3) = unat x mod 4" by (simp only: unsigned_take_bit_eq) (simp add: take_bit_eq_mod)
  show q: "unat (drop_bit 2 x) = unat x div 4" by (simp add: unat_drop_bit_eq drop_bit_eq_div unat_div)
  have "word_of_nat (4 * (unat x div 4)) = 4 * (word_of_nat (unat (drop_bit 2 x)) :: u32)"
    unfolding q by simp
  then show "4 * drop_bit 2 x = word_of_nat (4 * (unat x div 4))" by (simp add: u32_of_nat_unat)
qed

lemma quarter_split: "4 * (n div 4) + n mod 4 = (n :: nat)"
  by simp

lemma memcpy_aligned_copy:
  assumes "d = s \<or> unat n \<le> unat (d - s)"
  shows "memcpy_aligned n d s m = copy_bytes d s (unat n) m"
proof -
  let ?q = "4 * (unat n div 4)" and ?r = "unat n mod 4"
  have le: "?q \<le> unat n" "?q + ?r = unat n" by simp_all
  have lt: "unat n < 4294967296" by simp
  have q: "rep_movsd (unat n div 4) d s m = copy_bytes d s ?q m"
    by (rule rep_movsd_copy) (use assms le lt in linarith)+
  have r: "rep_movsb ?r (d + word_of_nat ?q) (s + word_of_nat ?q) (copy_bytes d s ?q m) =
      copy_bytes (d + word_of_nat ?q) (s + word_of_nat ?q) ?r (copy_bytes d s ?q m)"
    by (rule rep_movsb_copy) (use assms le lt in auto)
  have "memcpy_aligned n d s m =
      copy_bytes (d + word_of_nat ?q) (s + word_of_nat ?q) ?r (copy_bytes d s ?q m)"
    unfolding memcpy_aligned_def Let_def word_quarter q r
    using word_quarter(2) [of n] by (auto simp: unat_eq_0)
  then show ?thesis using copy_bytes_append [of ?q ?r d s m] assms lt le by simp
qed

lemma memcpy_copy:
  assumes "dest = src \<or> unat n \<le> unat (dest - src)"
  shows "memcpy dest src n m = (dest, copy_bytes dest src (unat n) m)"
proof -
  let ?e = "4 - (dest AND 3)"
  have n: "unat n < 4294967296" by simp
  have small: "rep_movsb (unat n) dest src m = copy_bytes dest src (unat n) m"
    by (rule rep_movsb_copy) (use assms n in linarith)+
  have al: "memcpy_aligned n dest src m = copy_bytes dest src (unat n) m"
    by (rule memcpy_aligned_copy) (use assms in simp)
  have un: "memcpy_aligned ?e (dest + (n - ?e)) (src + (n - ?e)) (rep_movsb (unat (n - ?e)) dest src m) =
      copy_bytes dest src (unat n) m" if "?e \<le> n"
  proof -
    have k: "unat (n - ?e) + unat ?e = unat n" using that by (simp add: unat_sub word_le_nat_alt)
    have "rep_movsb (unat (n - ?e)) dest src m = copy_bytes dest src (unat (n - ?e)) m"
      by (rule rep_movsb_copy) (use assms k n in linarith)+
    moreover have "memcpy_aligned ?e (dest + (n - ?e)) (src + (n - ?e)) M =
        copy_bytes (dest + word_of_nat (unat (n - ?e))) (src + word_of_nat (unat (n - ?e))) (unat ?e) M" for M
      using assms k by (subst memcpy_aligned_copy) (auto simp: u32_of_nat_unat)
    ultimately show ?thesis
      using copy_bytes_append [of "unat (n - ?e)" "unat ?e" dest src m] assms k n by simp
  qed
  show ?thesis
    unfolding memcpy_def memcpy_asm_def Let_def
    using small al un by (auto simp: not_less)
qed

lemma rep_stosb_fill:
  "n \<le> 4294967296 \<Longrightarrow> rep_stosb n c d m = fill_bytes d (ucast c) n m"
proof (induction n arbitrary: d m)
  case (Suc n)
  then have "rep_stosb (Suc n) c d m = fill_bytes (d + 1) (ucast c) n (fill_bytes d (ucast c) 1 m)"
    unfolding fill_bytes_1 rep_stosb.simps by (intro Suc.IH) auto
  then show ?case using fill_bytes_append [of 1 n d "ucast c" m] Suc.prems by simp
qed simp

lemma rep_stosd_fill:
  assumes "4 * n \<le> 4294967296" and "ucast c = v" "ucast (drop_bit 8 c) = v" "ucast (drop_bit 16 c) = v"
    "ucast (drop_bit 24 c) = v"
  shows "rep_stosd n c d m = fill_bytes d v (4 * n) m"
  using assms(1)
proof (induction n arbitrary: d m)
  case (Suc n)
  then have "rep_stosd (Suc n) c d m = fill_bytes (d + 4) v (4 * n) (fill_bytes d v 4 m)"
    unfolding fill_bytes_4 [OF assms(2-5)] rep_stosd.simps by (intro Suc.IH) auto
  then show ?case using fill_bytes_append [of 4 "4 * n" d v m] Suc.prems by simp
qed simp

lemma memset_aligned_fill:
  assumes "ucast c = v" "ucast (drop_bit 8 c) = v" "ucast (drop_bit 16 c) = v" "ucast (drop_bit 24 c) = v"
  shows "memset_aligned c n d m = fill_bytes d v (unat n) m"
proof -
  let ?q = "4 * (unat n div 4)" and ?r = "unat n mod 4"
  have le: "?q + ?r = unat n" by simp
  have lt: "unat n < 4294967296" by simp
  have q: "rep_stosd (unat n div 4) c d m = fill_bytes d v ?q m"
    by (rule rep_stosd_fill [OF _ assms]) (use le lt in linarith)
  have r: "rep_stosb ?r c (d + word_of_nat ?q) M = fill_bytes (d + word_of_nat ?q) v ?r M" for M
    using rep_stosb_fill [of ?r c "d + word_of_nat ?q" M] assms(1) by simp
  have "memset_aligned c n d m = fill_bytes (d + word_of_nat ?q) v ?r (fill_bytes d v ?q m)"
    unfolding memset_aligned_def Let_def word_quarter q r
    using word_quarter(2) [of n] by (auto simp: unat_eq_0)
  then show ?thesis using fill_bytes_append [of ?q ?r d v m] lt le by simp
qed

text \<open>The word that the dword fill stores: the low byte in the lower half, and in the upper half
  the low byte mixed with the upper bytes of the argument.\<close>

lemma memset_pattern_bytes:
  "ucast (memset_pattern c) = (ucast c :: u8)"
  "ucast (drop_bit 8 (memset_pattern c)) = (ucast c :: u8)"
  "ucast (drop_bit 16 (memset_pattern c)) = (ucast c OR ucast (drop_bit 16 c) :: u8)"
  "ucast (drop_bit 24 (memset_pattern c)) = (ucast c OR ucast (drop_bit 24 c) :: u8)"
proof -
  have ff: "(0xFF :: u32) = mask 8" "(0xFF00 :: u32) = push_bit 8 (mask 8)"
    by (simp_all add: mask_eq_exp_minus_1 push_bit_eq_mult)
  show "ucast (memset_pattern c) = (ucast c :: u8)"
    "ucast (drop_bit 8 (memset_pattern c)) = (ucast c :: u8)"
    "ucast (drop_bit 16 (memset_pattern c)) = (ucast c OR ucast (drop_bit 16 c) :: u8)"
    "ucast (drop_bit 24 (memset_pattern c)) = (ucast c OR ucast (drop_bit 24 c) :: u8)"
    unfolding memset_pattern_def Let_def ff
    by (rule bit_word_eqI; auto simp: bit_simps)+
qed

lemma memset_fill:
  assumes "ucast c OR ucast (drop_bit 16 c) = (ucast c :: u8)"
    and "ucast c OR ucast (drop_bit 24 c) = (ucast c :: u8)"
  shows "memset s c n m = (s, fill_bytes s (ucast c) (unat n) m)"
proof -
  let ?e = "4 - (s AND 3)" and ?p = "memset_pattern c"
  have n: "unat n < 4294967296" by simp
  note p = memset_pattern_bytes [of c, unfolded assms]
  have b: "rep_stosb (unat k) ?p s m = fill_bytes s (ucast c) (unat k) m" for k :: u32
    using rep_stosb_fill [of "unat k" ?p s m] p(1) unat_u32_le [of k] by simp
  have un: "memset_aligned ?p ?e (s + (n - ?e)) (rep_stosb (unat (n - ?e)) ?p s m) =
      fill_bytes s (ucast c) (unat n) m" if "?e \<le> n"
  proof -
    have k: "unat (n - ?e) + unat ?e = unat n" using that by (simp add: unat_sub word_le_nat_alt)
    have "memset_aligned ?p ?e (s + (n - ?e)) M = fill_bytes (s + word_of_nat (unat (n - ?e))) (ucast c) (unat ?e) M" for M
      unfolding memset_aligned_fill [OF p] by (simp add: u32_of_nat_unat)
    then show ?thesis
      using fill_bytes_append [of "unat (n - ?e)" "unat ?e" s "ucast c" m] k n by (simp add: b)
  qed
  show ?thesis
    unfolding memset_def memset_asm_def Let_def
    using un memset_aligned_fill [OF p, of n s m] by (auto simp: not_less b)
qed

section \<open>memmove\<close>

lemma memmove_up_copy:
  assumes "n \<le> 4294967296" and "d = s \<or> n \<le> unat (d - s)"
  shows "fold (move_byte d s) [0..<n] m = copy_bytes d s n m"
  using assms
proof (induction n)
  case (Suc n)
  then have "fold (move_byte d s) [0..<n] m = copy_bytes d s n m"
    by (intro Suc.IH) auto
  moreover have "move_byte d s n M = copy_bytes (d + word_of_nat n) (s + word_of_nat n) 1 M" for M
    unfolding move_byte_def copy_bytes_1 ..
  ultimately show ?case
    using copy_bytes_append [of n 1 d s m] Suc.prems by simp
qed simp

lemma memmove_down_copy:
  assumes "n \<le> 4294967296" and "d = s \<or> n \<le> unat (s - d)"
  shows "memmove_down d s n m = copy_bytes d s n m"
  using assms
proof (induction n arbitrary: m)
  case (Suc n)
  let ?n = "word_of_nat n :: u32"
  have n: "unat ?n = n" using Suc.prems by (intro unat_u32_of_nat) simp
  have "memmove_down d s (Suc n) m = copy_bytes d s n (m(d + ?n := m (s + ?n)))"
    using Suc by (auto simp: move_byte_def)
  also have "\<dots> = copy_bytes d s (Suc n) m"
  proof
    fix a
    consider "a = d + ?n" | "a \<noteq> d + ?n" "unat (a - d) < n" | "a \<noteq> d + ?n" "n < unat (a - d)"
      using n by (metis add_diff_cancel_left' diff_add_cancel add.commute linorder_neqE_nat u32_eq_unat)
    then show "copy_bytes d s n (m(d + ?n := m (s + ?n))) a = copy_bytes d s (Suc n) m a"
    proof cases
      case 1
      then show ?thesis using n by (simp add: copy_bytes_def)
    next
      case 2
      have "s + (a - d) \<noteq> d + ?n"
      proof
        assume "s + (a - d) = d + ?n"
        then have e: "s - d = ?n - (a - d)" by (simp add: algebra_simps)
        have "unat (?n - (a - d)) \<le> n" using n 2 by (subst unat_sub) (auto simp: word_le_nat_alt)
        then have "unat (s - d) \<le> n" unfolding e .
        then have "d = s" using Suc.prems by auto
        then show False using \<open>s + (a - d) = d + ?n\<close> 2 by simp
      qed
      then show ?thesis using 2 by (simp add: copy_bytes_def)
    next
      case 3
      then show ?thesis by (simp add: copy_bytes_def)
    qed
  qed
  finally show ?case .
qed simp

lemma memmove_copy:
  assumes "unat dest + unat n \<le> 4294967296" and "unat src + unat n \<le> 4294967296"
  shows "memmove dest src n m = (dest, copy_bytes dest src (unat n) m)"
proof (cases "dest < src")
  case True
  then have "unat (dest - src) = 4294967296 + unat dest - unat src"
    by (subst unat_sub_if_size) (simp add: word_size word_less_nat_alt)
  then have "unat n \<le> unat (dest - src)" using assms by simp
  then show ?thesis using True memmove_up_copy [of "unat n" dest src m] by (simp add: memmove_def unat_u32_le)
next
  case False
  have "dest = src \<or> unat n \<le> unat (src - dest)"
  proof (cases "dest = src")
    case neq: False
    then have "unat (src - dest) = 4294967296 + unat src - unat dest"
      using False by (subst unat_sub_if_size) (auto simp: word_size word_less_nat_alt u32_eq_unat)
    then show ?thesis using assms by linarith
  qed simp
  then show ?thesis using False memmove_down_copy [of "unat n" dest src m] by (simp add: memmove_def unat_u32_le)
qed

section \<open>Strings\<close>

text \<open>A terminated string in memory.\<close>

fun cstr :: "mem \<Rightarrow> u32 \<Rightarrow> u8 list \<Rightarrow> bool" where
  "cstr m p [] \<longleftrightarrow> m p = 0"
| "cstr m p (c # cs) \<longleftrightarrow> m p = c \<and> c \<noteq> 0 \<and> cstr m (p + 1) cs"

lemma cstr_nth:
  "cstr m p s \<longleftrightarrow> (\<forall>i < length s. m (p + word_of_nat i) = s ! i \<and> s ! i \<noteq> 0) \<and>
     m (p + word_of_nat (length s)) = 0"
proof (induction s arbitrary: p)
  case (Cons c cs)
  show ?case
    unfolding cstr.simps Cons.IH by (auto simp: less_Suc_eq_0_disj add.assoc)
qed simp

lemma cstr_cong:
  assumes "cstr m p s" and "\<And>i. i \<le> length s \<Longrightarrow> m' (p + word_of_nat i) = m (p + word_of_nat i)"
  shows "cstr m' p s"
  using assms by (simp add: cstr_nth less_imp_le)

lemma strlen_loop_cstr:
  "cstr m (p + l) s \<Longrightarrow> strlen_loop m p l = Some (l + word_of_nat (length s))"
proof (induction s arbitrary: l)
  case Nil
  then show ?case by (simp add: strlen_loop.simps [of m p l])
next
  case (Cons c cs)
  then have "strlen_loop m p (l + 1) = Some (l + 1 + word_of_nat (length cs))"
    by (intro Cons.IH) (simp add: add.assoc)
  then show ?case using Cons.prems by (subst strlen_loop.simps) simp
qed

lemma skip_string_cstr: "cstr m p s \<Longrightarrow> skip_string m p = Some (p + word_of_nat (length s))"
proof (induction s arbitrary: p)
  case Nil
  then show ?case by (simp add: skip_string.simps [of m p])
next
  case (Cons c cs)
  then have "skip_string m (p + 1) = Some (p + 1 + word_of_nat (length cs))" by (intro Cons.IH) simp
  then show ?case using Cons.prems by (subst skip_string.simps) simp
qed

lemma cstr_tail_upd:
  assumes "cstr m s (c # cs)" and "d = s \<and> v = c \<or> length cs + 1 < unat (d - s)"
  shows "cstr (m(d := v)) (s + 1) cs"
proof (cases "d = s")
  case True
  then have "m(d := v) = m" using assms by auto
  then show ?thesis using assms(1) by (simp only: cstr.simps)
next
  case False
  have "s + 1 + word_of_nat i \<noteq> d" if i: "i \<le> length cs" for i
  proof
    assume "s + 1 + word_of_nat i = d"
    then have "d - s = word_of_nat (Suc i)" by (auto simp: algebra_simps)
    then have "unat (d - s) \<le> Suc i" by (metis unat_of_nat mod_less_eq_dividend)
    then show False using assms(2) False i by simp
  qed
  moreover have "cstr m (s + 1) cs" using assms by simp
  ultimately show ?thesis by (intro cstr_cong [of m "s + 1" cs "m(d := v)"]) auto
qed

lemma strcpy_loop_cstr:
  assumes "cstr m s t" and "d = s \<or> length t < unat (d - s)"
  shows "strcpy_loop d s m = Some (copy_bytes d s (length t + 1) m)"
  using assms
proof (induction t arbitrary: d s m)
  case Nil
  then show ?case
    using copy_bytes_1 [of d s m] by (subst strcpy_loop.simps) simp
next
  case (Cons c cs)
  let ?m = "m(d := m s)"
  have len: "length (c # cs) < 4294967296 \<or> d = s"
    using Cons.prems(2) unat_u32_less [of "d - s"] by linarith
  have "cstr ?m (s + 1) cs" using cstr_tail_upd [of m s c cs d "m s"] Cons.prems by auto
  then have "strcpy_loop (d + 1) (s + 1) ?m = Some (copy_bytes (d + 1) (s + 1) (length cs + 1) ?m)"
    by (rule Cons.IH) (use Cons.prems(2) in auto)
  moreover have "copy_bytes (d + 1) (s + 1) (length cs + 1) ?m = copy_bytes d s (length (c # cs) + 1) m"
  proof (cases "d = s")
    case True
    have "copy_bytes s s n M = M" for s n M by (auto simp: copy_bytes_def)
    then show ?thesis using True by simp
  next
    case False
    then show ?thesis
      using copy_bytes_append [of 1 "length cs + 1" d s m] Cons.prems(2) unat_u32_less [of "d - s"]
      unfolding copy_bytes_1 [symmetric] by simp
  qed
  ultimately show ?case using Cons.prems(1) by (subst strcpy_loop.simps) simp
qed

lemma copy_bytes_at:
  "i < n \<Longrightarrow> i < 4294967296 \<Longrightarrow> copy_bytes d s n m (d + word_of_nat i) = m (s + word_of_nat i)"
  using unat_u32_of_nat [of i] by (simp add: copy_bytes_def)

lemma cstr_copy:
  "cstr m s t \<Longrightarrow> length t < n \<Longrightarrow> length t < 4294967296 \<Longrightarrow> cstr (copy_bytes d s n m) d t"
  by (simp add: cstr_nth copy_bytes_at)

text \<open>The value of \<open>strcmp\<close> on two strings.\<close>

fun byte_cmp :: "u8 list \<Rightarrow> u8 list \<Rightarrow> int" where
  "byte_cmp [] [] = 0"
| "byte_cmp (c # cs) [] = uint c"
| "byte_cmp [] (d # ds) = - uint d"
| "byte_cmp (c # cs) (d # ds) = (if c = d then byte_cmp cs ds else uint c - uint d)"

lemma strcmp_cstr: "cstr m p s \<Longrightarrow> cstr m q t \<Longrightarrow> strcmp m p q = Some (byte_cmp s t)"
proof (induction s t arbitrary: p q rule: byte_cmp.induct)
  case (4 c cs d ds)
  then show ?case by (subst strcmp.simps) auto
qed (subst strcmp.simps, auto)+

lemma byte_cmp_sign:
  assumes "0 \<notin> set s" and "0 \<notin> set t"
  shows "byte_cmp s t = 0 \<longleftrightarrow> s = t" and "byte_cmp s t < 0 \<longleftrightarrow> (s, t) \<in> lexord {(x, y). x < y}"
  using assms
proof (induction s t rule: byte_cmp.induct)
  case (2 c cs)
  { case 1 then show ?case by (auto simp: uint_0_iff) next
    case 2 then show ?case by (auto simp: not_less) }
next
  case (3 d ds)
  { case 1 then show ?case by (auto simp: uint_0_iff) next
    case 2 then show ?case using uint_0_iff [of d] uint_ge_0 [of d] by (auto simp: less_le) }
next
  case (4 c cs d ds)
  { case 1 then show ?case using 4 by (auto dest: word_uint_eqI) next
    case 2 then show ?case using 4 by (auto simp: word_less_def) }
qed auto

lemma cstr_nonzero: "cstr m p s \<Longrightarrow> 0 \<notin> set s"
  by (induction s arbitrary: p) auto

lemma ucast_u8_u32 [simp]: "ucast (ucast (c :: u8) :: u32) = c" "(ucast c :: u32) = 0 \<longleftrightarrow> c = 0"
proof -
  show "ucast (ucast c :: u32) = c" by (rule bit_word_eqI) (simp add: bit_simps)
  then show "(ucast c :: u32) = 0 \<longleftrightarrow> c = 0" by (metis ucast_0)
qed

lemma strchr_found:
  "cstr m p (xs @ c # ys) \<Longrightarrow> c \<notin> set xs \<Longrightarrow> strchr m p (ucast c) = Some (p + word_of_nat (length xs))"
proof (induction xs arbitrary: p)
  case (Cons x xs)
  then have "strchr m (p + 1) (ucast c) = Some (p + 1 + word_of_nat (length xs))" by (intro Cons.IH) auto
  then show ?case using Cons.prems by (subst strchr.simps) auto
qed (subst strchr.simps, simp)

lemma strchr_missing:
  "cstr m p s \<Longrightarrow> c \<notin> set s \<Longrightarrow> c \<noteq> 0 \<Longrightarrow> strchr m p (ucast c) = Some 0"
proof (induction s arbitrary: p)
  case Nil
  then show ?case by (subst strchr.simps) simp
next
  case (Cons x xs)
  then have "strchr m (p + 1) (ucast c) = Some 0" by (intro Cons.IH) auto
  then show ?case using Cons.prems by (subst strchr.simps) auto
qed

lemma strrchr_loop_missing:
  "cstr m p s \<Longrightarrow> c \<notin> set s \<Longrightarrow> c \<noteq> 0 \<Longrightarrow> strrchr_loop m f p (ucast c) = Some f"
proof (induction s arbitrary: p)
  case (Cons x xs)
  then have "strrchr_loop m f (p + 1) (ucast c) = Some f" by (intro Cons.IH) auto
  then show ?case using Cons.prems by (subst strrchr_loop.simps) auto
qed (subst strrchr_loop.simps, simp)

lemma strrchr_loop_found:
  "cstr m p (xs @ c # ys) \<Longrightarrow> c \<notin> set ys \<Longrightarrow>
     strrchr_loop m f p (ucast c) = Some (p + word_of_nat (length xs))"
proof (induction xs arbitrary: p f)
  case Nil
  then have "strrchr_loop m p (p + 1) (ucast c) = Some p" by (intro strrchr_loop_missing) auto
  then show ?case using Nil by (subst strrchr_loop.simps) simp
next
  case (Cons x xs)
  then have "strrchr_loop m f' (p + 1) (ucast c) = Some (p + 1 + word_of_nat (length xs))" for f'
    by (intro Cons.IH) auto
  then show ?case using Cons.prems by (subst strrchr_loop.simps) simp
qed

text \<open>\<open>strncpy\<close> writes exactly \<open>n\<close> bytes: the string cut at \<open>n\<close>, then zeros.\<close>

definition pad_bytes :: "u32 \<Rightarrow> u8 list \<Rightarrow> nat \<Rightarrow> mem \<Rightarrow> mem" where
  "pad_bytes d s n m =
     (\<lambda>a. if unat (a - d) < n then if unat (a - d) < length s then s ! unat (a - d) else 0 else m a)"

lemma offset_Suc:
  "n < 4294967296 \<Longrightarrow> unat ((a :: u32) - (d + 1)) < n \<longleftrightarrow> 0 < unat (a - d) \<and> unat (a - d) < Suc n"
  using unat_diff_offset [of 1 n "a - d"] by (auto simp: diff_diff_eq)

lemma offset_pred: "a \<noteq> d \<Longrightarrow> unat ((a :: u32) - d) = Suc (unat (a - (d + 1)))"
proof -
  assume "a \<noteq> d"
  then have "0 < unat (a - d)" by (simp add: unat_gt_0)
  then show ?thesis using unat_u32_dec [of "a - d"] by (simp add: diff_diff_eq)
qed

lemma pad_bytes_Cons:
  "Suc n \<le> 4294967296 \<Longrightarrow> pad_bytes (d + 1) s n (m(d := c)) = pad_bytes d (c # s) (Suc n) m"
proof
  fix a
  assume "Suc n \<le> 4294967296"
  then show "pad_bytes (d + 1) s n (m(d := c)) a = pad_bytes d (c # s) (Suc n) m a"
    using offset_Suc [of n a d] offset_pred [of a d] unat_gt_0 [of "a - d"]
    by (cases "a = d") (auto simp: pad_bytes_def)
qed

lemma strncpy_pad: "k \<le> 4294967296 \<Longrightarrow> strncpy_loop k True d s m = pad_bytes d [] k m"
proof (induction k arbitrary: d s m)
  case 0
  then show ?case by (simp add: pad_bytes_def)
next
  case (Suc k)
  have "pad_bytes d [0] (Suc k) m = pad_bytes d [] (Suc k) m" by (auto simp: pad_bytes_def fun_eq_iff)
  then show ?case using Suc pad_bytes_Cons [of k d "[]" m 0] by simp
qed

lemma strncpy_loop_cstr:
  assumes "cstr m s t" and "k \<le> 4294967296" and "length t < unat (d - s)"
  shows "strncpy_loop k False d s m = pad_bytes d t k m"
  using assms
proof (induction k arbitrary: d s t m)
  case 0
  then show ?case by (simp add: pad_bytes_def)
next
  case (Suc k)
  show ?case
  proof (cases t)
    case Nil
    have "pad_bytes d [0] (Suc k) m = pad_bytes d [] (Suc k) m" by (auto simp: pad_bytes_def fun_eq_iff)
    then show ?thesis
      using Nil Suc.prems strncpy_pad [of k "d + 1" "s + 1" "m(d := 0)"] pad_bytes_Cons [of k d "[]" m 0] by simp
  next
    case (Cons c cs)
    let ?m = "m(d := c)"
    have "cstr ?m (s + 1) cs" using cstr_tail_upd [of m s c cs d c] Suc.prems Cons by simp
    then have "strncpy_loop k False (d + 1) (s + 1) ?m = pad_bytes (d + 1) cs k ?m"
      by (rule Suc.IH) (use Suc.prems Cons in auto)
    then show ?thesis using Cons Suc.prems pad_bytes_Cons [of k d cs m c] by simp
  qed
qed

section \<open>The interface of the copying routines\<close>

text \<open>What the rest of the kernel relies on when it copies between two blocks that do not
  overlap.\<close>

definition apart :: "u32 \<Rightarrow> u32 \<Rightarrow> u32 \<Rightarrow> bool" where
  "apart d s n \<longleftrightarrow> unat d + unat n \<le> 4294967296 \<and> unat s + unat n \<le> 4294967296 \<and>
     (unat s + unat n \<le> unat d \<or> unat d + unat n \<le> unat s)"

lemma apart_offset: "apart d s n \<Longrightarrow> d = s \<or> unat n \<le> unat (d - s)"
proof (cases "s \<le> d")
  case True
  assume "apart d s n"
  then show ?thesis using True by (auto simp: apart_def unat_sub word_le_nat_alt u32_eq_unat)
next
  case False
  then have "unat (d - s) = 4294967296 + unat d - unat s"
    by (subst unat_sub_if_size) (simp add: word_size word_le_nat_alt)
  moreover assume "apart d s n"
  ultimately show ?thesis using False by (auto simp: apart_def word_le_nat_alt)
qed

locale byte_copier =
  fixes copy :: "u32 \<Rightarrow> u32 \<Rightarrow> u32 \<Rightarrow> mem \<Rightarrow> u32 \<times> mem"
  assumes copy_eq: "apart d s n \<Longrightarrow> copy d s n m = (d, copy_bytes d s (unat n) m)"
begin

lemma copy_inside:
  "apart d s n \<Longrightarrow> i < unat n \<Longrightarrow> snd (copy d s n m) (d + word_of_nat i) = m (s + word_of_nat i)"
  using copy_bytes_at [of i "unat n" d s m] less_trans [OF _ unat_u32_less, of i n] by (simp add: copy_eq)

lemma copy_outside:
  assumes "apart d s n" and "unat a < unat d \<or> unat d + unat n \<le> unat a"
  shows "snd (copy d s n m) a = m a"
proof -
  have "unat (a - d) = (if unat d \<le> unat a then unat a - unat d else unat a + 4294967296 - unat d)"
    by (subst unat_sub_if_size) (simp add: word_size)
  then have "unat n \<le> unat (a - d)" using assms by (auto simp: apart_def)
  then show ?thesis using copy_eq [OF assms(1), of m] by (simp add: copy_bytes_def)
qed

lemma copy_string:
  "apart d s n \<Longrightarrow> cstr m s t \<Longrightarrow> length t < unat n \<Longrightarrow> cstr (snd (copy d s n m)) d t"
  using cstr_copy [of m s t "unat n" d] less_trans [OF _ unat_u32_less, of "length t" n] by (simp add: copy_eq)

end

interpretation cpy: byte_copier memcpy
  by unfold_locales (rule memcpy_copy [OF apart_offset])

interpretation mov: byte_copier memmove
  by unfold_locales (rule memmove_copy, simp_all add: apart_def)

section \<open>Properties\<close>

text \<open>C37: \<open>memcpy\<close>, whose assembly takes one of four paths by length and alignment, copies exactly
  the \<open>n\<close> bytes and changes no other byte, for blocks that do not overlap (it also allows a
  destination below the source). The unaligned path is covered: it copies the bulk by bytes and
  only the last one to three bytes on the fast path.\<close>

theorem memcpy_correct:
  assumes "dest = src \<or> unat n \<le> unat (dest - src)"
  shows "fst (memcpy dest src n m) = dest \<and>
    snd (memcpy dest src n m) a = (if unat (a - dest) < unat n then m (src + (a - dest)) else m a)"
  by (simp add: memcpy_copy [OF assms] copy_bytes_def)

theorem memcpy_correct_witness:
  "snd (memcpy 0x1002 0x2000 7 (\<lambda>a. ucast a)) 0x1008 = 6 \<and> snd (memcpy 0x1002 0x2000 7 (\<lambda>a. ucast a)) 0x1009 = 9"
  using memcpy_correct [of "0x1002" "0x2000" 7 "\<lambda>a. ucast a" "0x1008"]
    memcpy_correct [of "0x1002" "0x2000" 7 "\<lambda>a. ucast a" "0x1009"] by simp

text \<open>\<open>memset\<close> with a value that fits in 16 bits fills exactly \<open>n\<close> bytes with its low byte.\<close>

theorem memset_correct:
  assumes "unat c < 0x10000"
  shows "fst (memset s c n m) = s \<and>
    snd (memset s c n m) a = (if unat (a - s) < unat n then ucast c else m a)"
proof -
  have "drop_bit 16 c = 0" "drop_bit 24 c = 0"
    using assms by (simp_all add: u32_eq_unat unat_drop_bit_eq drop_bit_eq_div unat_div)
  then show ?thesis using memset_fill [of c s n m] by (simp add: fill_bytes_def)
qed

theorem memset_correct_witness:
  "snd (memset 0x1003 0x20 9 (\<lambda>_. 0)) 0x100B = 0x20 \<and> snd (memset 0x1003 0x20 9 (\<lambda>_. 0)) 0x100C = 0"
  using memset_correct [of "0x20" "0x1003" 9 "\<lambda>_. 0" "0x100B"]
    memset_correct [of "0x20" "0x1003" 9 "\<lambda>_. 0" "0x100C"] by simp

text \<open>Contrary to the comment that only the low byte of \<open>c\<close> matters, the upper two bytes reach
  memory on the four-byte path and only there: a fill of four aligned bytes with value
  \<^verbatim>\<open>0x01000000\<close> stores a 1, a fill of three bytes does not.\<close>

theorem memset_upper_bytes:
  "snd (memset 0 0x01000000 4 m) 3 = 1 \<and> snd (memset 0 0x01000000 3 m) 2 = 0"
proof
  have "memset_pattern 0x01000000 = 0x01000000" by (simp add: memset_pattern_def)
  moreover have "drop_bit 2 (4 :: u32) = 1" by (simp add: drop_bit_eq_div)
  ultimately show "snd (memset 0 0x01000000 4 m) 3 = 1"
    by (simp add: memset_def memset_asm_def memset_aligned_def Let_def st32_def drop_bit_eq_div)
next
  show "snd (memset 0 0x01000000 3 m) 2 = 0"
    using rep_stosb_fill [of 3 "memset_pattern 0x01000000" 0 m]
    by (simp add: memset_def memset_asm_def Let_def memset_pattern_bytes fill_bytes_def)
qed

text \<open>On non-overlapping blocks or not, \<open>memmove\<close> copies the original \<open>n\<close> bytes of the source,
  for blocks that do not wrap around the address space.\<close>

theorem memmove_correct:
  assumes "unat dest + unat n \<le> 2 ^ 32" and "unat src + unat n \<le> 2 ^ 32"
  shows "fst (memmove dest src n m) = dest \<and>
    snd (memmove dest src n m) a = (if unat (a - dest) < unat n then m (src + (a - dest)) else m a)"
  using assms by (simp add: memmove_copy copy_bytes_def)

theorem memmove_correct_witness:
  "snd (memmove 0x1002 0x1000 8 (\<lambda>a. ucast a)) 0x1009 = 7 \<and> snd (memmove 0x1000 0x1002 8 (\<lambda>a. ucast a)) 0x1000 = 2"
  using memmove_correct [of "0x1002" 8 "0x1000" "\<lambda>a. ucast a" "0x1009"]
    memmove_correct [of "0x1000" 8 "0x1002" "\<lambda>a. ucast a" "0x1000"] by simp

text \<open>For a terminated source string \<open>t\<close> and a destination after its end, \<open>strlen\<close>, \<open>strcpy\<close>
  and \<open>strncpy\<close> return: the length; a copy of the string at the destination with no byte changed
  beyond its terminator; and exactly \<open>n\<close> bytes, the string cut at \<open>n\<close> and padded with zeros (so
  without terminator when \<open>n\<close> is at most its length).\<close>

theorem string_copy_correct:
  assumes "cstr m src t" and "length t < unat (dest - src)"
  shows "strlen m src = Some (word_of_nat (length t)) \<and>
    (\<exists>m'. strcpy dest src m = Some (dest, m') \<and> cstr m' dest t \<and>
       (\<forall>a. length t < unat (a - dest) \<longrightarrow> m' a = m a)) \<and>
    strncpy dest src n m = (dest, \<lambda>a. if unat (a - dest) < unat n
       then if unat (a - dest) < length t then t ! unat (a - dest) else 0 else m a)"
proof -
  have len: "length t < 4294967296" using assms(2) unat_u32_less [of "dest - src"] by linarith
  have "cstr (copy_bytes dest src (length t + 1) m) dest t" using cstr_copy [OF assms(1)] len by simp
  then show ?thesis
    using strlen_loop_cstr [of m src 0 t] strcpy_loop_cstr [OF assms(1), of dest] assms unat_u32_le [of n]
      strncpy_loop_cstr [OF assms(1) unat_u32_le assms(2), of n]
    by (simp add: strlen_def strcpy_def strncpy_def pad_bytes_def copy_bytes_def)
qed

definition string_example :: mem where
  "string_example = (\<lambda>_. 0)(0x100 := 97, 0x101 := 98, 0x200 := 97, 0x201 := 99)"

lemma string_example_cstr: "cstr string_example 0x100 [97, 98]" "cstr string_example 0x200 [97, 99]"
  by (simp_all add: string_example_def)

theorem string_copy_correct_witness:
  "cstr string_example 0x100 [97, 98] \<and> strlen string_example 0x100 = Some 2 \<and>
   snd (strncpy 0x300 0x100 5 string_example) 0x301 = 98"
  using string_copy_correct [OF string_example_cstr(1), of "0x300" 5] string_example_cstr(1) by simp

text \<open>\<open>strcmp\<close> on terminated strings always returns; the result is 0 exactly for equal strings
  and negative exactly when the first is lexicographically smaller by unsigned byte.\<close>

theorem strcmp_correct:
  assumes "cstr m p s" and "cstr m q t"
  shows "\<exists>r. strcmp m p q = Some r \<and> (r = 0 \<longleftrightarrow> s = t) \<and> (r < 0 \<longleftrightarrow> (s, t) \<in> lexord {(x, y). x < y})"
  using strcmp_cstr [OF assms] byte_cmp_sign [OF cstr_nonzero cstr_nonzero, OF assms] by simp

theorem strcmp_correct_witness:
  "\<exists>r. strcmp string_example 0x100 0x200 = Some r \<and> (r = 0 \<longleftrightarrow> [97, 98 :: u8] = [97, 99]) \<and>
    (r < 0 \<longleftrightarrow> ([97, 98 :: u8], [97, 99]) \<in> lexord {(x, y). x < y})"
  by (rule strcmp_correct [OF string_example_cstr])

text \<open>\<open>strcat\<close> appends: for terminated strings \<open>s\<close> at \<open>dest\<close> and \<open>t\<close> at \<open>src\<close>, with the written
  bytes beginning after the end of \<open>t\<close> and not reaching around to \<open>dest\<close>, the string at \<open>dest\<close> becomes
  \<open>s @ t\<close>. \<open>strchr\<close> and \<open>strrchr\<close> find the first and the last occurrence.\<close>

theorem strcat_strchr_correct:
  assumes "cstr m dest s" and "cstr m src t" and "length s + length t + 1 \<le> 2 ^ 32"
    and "length t < unat (dest + word_of_nat (length s) - src)"
  shows "(\<exists>m'. strcat dest src m = Some (dest, m') \<and> cstr m' dest (s @ t)) \<and>
    (s = xs @ c # ys \<longrightarrow>
       (c \<notin> set xs \<longrightarrow> strchr m dest (ucast c) = Some (dest + word_of_nat (length xs))) \<and>
       (c \<notin> set ys \<longrightarrow> strrchr m dest (ucast c) = Some (dest + word_of_nat (length xs))))"
proof -
  let ?d = "dest + word_of_nat (length s)"
  let ?m = "copy_bytes ?d src (length t + 1) m"
  have st: "length s < 4294967296" "length s + (length t + 1) \<le> 4294967296" using assms(3) by simp_all
  have keep: "?m (dest + word_of_nat i) = m (dest + word_of_nat i)" if "i < length s" for i
  proof -
    have "dest + word_of_nat i - ?d = word_of_nat i - word_of_nat (length s)" by simp
    moreover have "\<not> unat (word_of_nat i - word_of_nat (length s) :: u32) < length t + 1"
      using unat_diff_offset [of "length s" "length t + 1" "word_of_nat i"] unat_u32_of_nat [of i] that st
      by (simp add: add.commute)
    ultimately show ?thesis unfolding copy_bytes_def by simp
  qed
  have new: "?m (?d + word_of_nat j) = m (src + word_of_nat j)" if "j \<le> length t" for j
    using copy_bytes_at [of j "length t + 1" ?d src m] that st by simp
  have "cstr ?m dest (s @ t)"
    unfolding cstr_nth
  proof (intro conjI allI impI)
    fix i assume i: "i < length (s @ t)"
    consider "i < length s" | j where "i = length s + j" "j < length t"
      using i by (metis add_diff_inverse_nat length_append nat_add_left_cancel_less)
    then show "?m (dest + word_of_nat i) = (s @ t) ! i" "(s @ t) ! i \<noteq> 0"
      using keep [of i] new assms(1,2) by (cases; simp add: cstr_nth nth_append add.assoc)+
  next
    show "?m (dest + word_of_nat (length (s @ t))) = 0"
      using new [of "length t"] assms(2) by (simp add: cstr_nth add.assoc)
  qed
  then show ?thesis
    using skip_string_cstr [OF assms(1)] strcpy_loop_cstr [OF assms(2), of ?d] assms(1,4)
      strchr_found [of m dest xs c ys] strrchr_loop_found [of m dest xs c ys]
    by (auto simp: strcat_def strrchr_def)
qed

theorem strcat_strchr_correct_witness:
  "(\<exists>m'. strcat 0x200 0x100 string_example = Some (0x200, m') \<and> cstr m' 0x200 [97, 99, 97, 98]) \<and>
   strchr string_example 0x200 99 = Some 0x201"
  using strcat_strchr_correct [OF string_example_cstr(2,1), of "[97]" 99 "[]"] by simp

end
