(* ===== verification/Heap.thy ===== *)
theory Heap
  imports Paging Memory
begin

text \<open>
  The kernel heap, \<^verbatim>\<open>src/kernel/memory/heap.c\<close>: a doubly linked list of blocks, each a header of 16
  bytes followed by its payload, in the virtual addresses from 4 MB up. The headers live in the
  same byte memory as the payloads, so that the separation of the two is something to prove:
  the field \<open>vmem\<close> is the memory as the kernel sees it through its page tables. Dereferencing a
  null pointer reads address 0, which the kernel has mapped. The loops that follow \<open>next\<close> are
  partial functions, \<^term>\<open>None\<close> when the chain of headers is cyclic.
\<close>

section \<open>State and operations\<close>

abbreviation (input) HEAP_START :: u32 where "HEAP_START \<equiv> 0x400000"
abbreviation (input) HEAP_INITIAL_SIZE :: u32 where "HEAP_INITIAL_SIZE \<equiv> 0x100000"
abbreviation (input) HEAP_MAX_SIZE :: u32 where "HEAP_MAX_SIZE \<equiv> 0x4000000"
abbreviation (input) sizeof_heap_block :: u32 where "sizeof_heap_block \<equiv> 16"

record heap_block =
  hb_size :: u32
  hb_free :: u32
  hb_next :: u32
  hb_prev :: u32

record heap_state = paging_state +
  vmem :: mem
  heap_start :: u32
  heap_size :: u32
  heap_used :: u32

text \<open>Reading the header at an address, and assigning its fields.\<close>

definition hdr :: "mem \<Rightarrow> u32 \<Rightarrow> heap_block" where
  "hdr m a = \<lparr>hb_size = ld32 m a, hb_free = ld32 m (a + 4), hb_next = ld32 m (a + 8), hb_prev = ld32 m (a + 12)\<rparr>"

definition set_size :: "u32 \<Rightarrow> u32 \<Rightarrow> mem \<Rightarrow> mem" where "set_size a v = st32 a v"
definition set_free :: "u32 \<Rightarrow> u32 \<Rightarrow> mem \<Rightarrow> mem" where "set_free a v = st32 (a + 4) v"
definition set_next :: "u32 \<Rightarrow> u32 \<Rightarrow> mem \<Rightarrow> mem" where "set_next a v = st32 (a + 8) v"
definition set_prev :: "u32 \<Rightarrow> u32 \<Rightarrow> mem \<Rightarrow> mem" where "set_prev a v = st32 (a + 12) v"

partial_function (option) find_free_loop :: "mem \<Rightarrow> u32 \<Rightarrow> u32 \<Rightarrow> u32 option" where
  "find_free_loop m sz current =
     (if current = 0 then Some 0
      else if hb_free (hdr m current) \<noteq> 0 \<and> sz \<le> hb_size (hdr m current) then Some current
      else find_free_loop m sz (hb_next (hdr m current)))"

definition find_free_block :: "u32 \<Rightarrow> 'a heap_state_scheme \<Rightarrow> u32 option" where
  "find_free_block sz s = find_free_loop (vmem s) sz (heap_start s)"

definition split_block :: "u32 \<Rightarrow> u32 \<Rightarrow> mem \<Rightarrow> mem" where
  "split_block block sz m =
     (if sizeof_heap_block + 4 \<le> hb_size (hdr m block) - sz
      then let new_block = block + sizeof_heap_block + sz;
               m = set_size new_block (hb_size (hdr m block) - sz - sizeof_heap_block) m;
               m = set_free new_block 1 m;
               m = set_next new_block (hb_next (hdr m block)) m;
               m = set_prev new_block block m;
               m = (if hb_next (hdr m block) \<noteq> 0 then set_prev (hb_next (hdr m block)) new_block m else m);
               m = set_next block new_block m
           in set_size block sz m
      else m)"

text \<open>\<open>merge_blocks\<close>: first with the next block, then with the previous one.\<close>

definition merge_next :: "u32 \<Rightarrow> mem \<Rightarrow> mem" where
  "merge_next block m =
     (if hb_next (hdr m block) \<noteq> 0 \<and> hb_free (hdr m (hb_next (hdr m block))) \<noteq> 0
      then let m = set_size block (hb_size (hdr m block) + (sizeof_heap_block +
                     hb_size (hdr m (hb_next (hdr m block))))) m;
               m = set_next block (hb_next (hdr m (hb_next (hdr m block)))) m
           in if hb_next (hdr m block) \<noteq> 0 then set_prev (hb_next (hdr m block)) block m else m
      else m)"

definition merge_prev :: "u32 \<Rightarrow> mem \<Rightarrow> mem" where
  "merge_prev block m =
     (if hb_prev (hdr m block) \<noteq> 0 \<and> hb_free (hdr m (hb_prev (hdr m block))) \<noteq> 0
      then let m = set_size (hb_prev (hdr m block)) (hb_size (hdr m (hb_prev (hdr m block))) +
                     (sizeof_heap_block + hb_size (hdr m block))) m;
               m = set_next (hb_prev (hdr m block)) (hb_next (hdr m block)) m
           in if hb_next (hdr m block) \<noteq> 0
              then set_prev (hb_next (hdr m block)) (hb_prev (hdr m block)) m else m
      else m)"

definition merge_blocks :: "u32 \<Rightarrow> mem \<Rightarrow> mem" where
  "merge_blocks block m = merge_prev block (merge_next block m)"

text \<open>The page loop of \<open>expand_heap\<close> and \<open>heap_init\<close>: \<open>n\<close> more pages from index \<open>i\<close> on.\<close>

fun heap_map_pages :: "u32 \<Rightarrow> nat \<Rightarrow> nat \<Rightarrow> 'a paging_state_scheme \<Rightarrow> bool \<times> 'a paging_state_scheme" where
  "heap_map_pages base i 0 s = (True, s)"
| "heap_map_pages base i (Suc n) s =
     (let (page, s1) = pmm_alloc_page s
      in if page = 0 then (False, s1)
         else heap_map_pages base (Suc i) n
                (paging_map_page (base + word_of_nat i * PAGE_SIZE) page (PAGE_PRESENT OR PAGE_WRITABLE) s1))"

definition expand_heap :: "u32 \<Rightarrow> 'a heap_state_scheme \<Rightarrow> bool \<times> 'a heap_state_scheme" where
  "expand_heap sz s =
     (if HEAP_MAX_SIZE < heap_size s + sz then (False, s)
      else let pages_needed = (sz + PAGE_SIZE - 1) div PAGE_SIZE;
               (ok, s1) = heap_map_pages (HEAP_START + heap_size s) 0 (unat pages_needed) s
           in if ok then (True, s1\<lparr>heap_size := heap_size s1 + pages_needed * PAGE_SIZE\<rparr>) else (False, s1))"

definition heap_init :: "'a heap_state_scheme \<Rightarrow> 'a heap_state_scheme" where
  "heap_init s =
     (let pages_needed = (HEAP_INITIAL_SIZE + PAGE_SIZE - 1) div PAGE_SIZE;
          (ok, s1) = heap_map_pages HEAP_START 0 (unat pages_needed) s
      in if \<not> ok then s1
         else let m = set_size HEAP_START (HEAP_INITIAL_SIZE - sizeof_heap_block) (vmem s1);
                  m = set_free HEAP_START 1 m;
                  m = set_next HEAP_START 0 m;
                  m = set_prev HEAP_START 0 m
              in s1\<lparr>heap_size := HEAP_INITIAL_SIZE, heap_start := HEAP_START, vmem := m, heap_used := 0\<rparr>)"

partial_function (option) last_block :: "mem \<Rightarrow> u32 \<Rightarrow> u32 option" where
  "last_block m block =
     (if hb_next (hdr m block) \<noteq> 0 then last_block m (hb_next (hdr m block)) else Some block)"

text \<open>The end of \<open>kmalloc\<close>, once it has a block.\<close>

definition kmalloc_take :: "u32 \<Rightarrow> u32 \<Rightarrow> 'a heap_state_scheme \<Rightarrow> u32 \<times> 'a heap_state_scheme" where
  "kmalloc_take block sz s =
     (block + sizeof_heap_block,
      s\<lparr>vmem := set_free block 0 (split_block block sz (vmem s)), heap_used := heap_used s + sz\<rparr>)"

text \<open>The block at the end of the expanded heap: the last block enlarged, or a new one after it.\<close>

definition kmalloc_grow :: "u32 \<Rightarrow> 'a heap_state_scheme \<Rightarrow> (u32 \<times> 'a heap_state_scheme) option" where
  "kmalloc_grow expand_size s =
     map_option (\<lambda>block.
       let m = vmem s
       in if hb_free (hdr m block) \<noteq> 0
          then (block, s\<lparr>vmem := set_size block (hb_size (hdr m block) + expand_size) m\<rparr>)
          else let new_block = block + sizeof_heap_block + hb_size (hdr m block);
                   m = set_size new_block (expand_size - sizeof_heap_block) m;
                   m = set_free new_block 1 m;
                   m = set_next new_block 0 m;
                   m = set_prev new_block block m;
                   m = set_next block new_block m
               in (new_block, s\<lparr>vmem := m\<rparr>))
       (last_block (vmem s) (heap_start s))"

definition kmalloc :: "u32 \<Rightarrow> 'a heap_state_scheme \<Rightarrow> (u32 \<times> 'a heap_state_scheme) option" where
  "kmalloc n s =
     (if n = 0 then Some (0, s)
      else let sz = (n + 3) AND NOT 3
           in Option.bind (find_free_block sz s) (\<lambda>block.
                if block \<noteq> 0 then Some (kmalloc_take block sz s)
                else let expand_size = sz + sizeof_heap_block;
                         (ok, s1) = expand_heap expand_size s
                     in if \<not> ok then Some (0, s1)
                        else map_option (\<lambda>(block, s2). kmalloc_take block sz s2) (kmalloc_grow expand_size s1)))"

definition kfree :: "u32 \<Rightarrow> 'a heap_state_scheme \<Rightarrow> 'a heap_state_scheme" where
  "kfree ptr s =
     (if ptr = 0 then s
      else let block = ptr - sizeof_heap_block
           in if hb_free (hdr (vmem s) block) \<noteq> 0 then s
              else let m = set_free block 1 (vmem s)
                   in s\<lparr>heap_used := heap_used s - hb_size (hdr m block), vmem := merge_blocks block m\<rparr>)"

definition krealloc :: "u32 \<Rightarrow> u32 \<Rightarrow> 'a heap_state_scheme \<Rightarrow> (u32 \<times> 'a heap_state_scheme) option" where
  "krealloc ptr sz s =
     (if ptr = 0 then kmalloc sz s
      else if sz = 0 then Some (0, kfree ptr s)
      else let block = ptr - sizeof_heap_block
           in if sz \<le> hb_size (hdr (vmem s) block) then Some (ptr, s)
              else Option.bind (kmalloc sz s) (\<lambda>(new_ptr, s1).
                     if new_ptr = 0 then Some (0, s1)
                     else let s2 = s1\<lparr>vmem := snd (memcpy new_ptr ptr (hb_size (hdr (vmem s1) block)) (vmem s1))\<rparr>
                          in Some (new_ptr, kfree ptr s2)))"

definition ksize :: "u32 \<Rightarrow> 'a heap_state_scheme \<Rightarrow> u32" where
  "ksize ptr s = (if ptr = 0 then 0 else hb_size (hdr (vmem s) (ptr - sizeof_heap_block)))"

section \<open>Headers in memory\<close>

definition hsep :: "u32 \<Rightarrow> u32 \<Rightarrow> bool" where
  "hsep a b \<longleftrightarrow> 16 \<le> unat (a - b) \<and> 16 \<le> unat (b - a)"

lemma unat_u32_neg: "0 < unat x \<Longrightarrow> unat (- (x :: u32)) = 4294967296 - unat x"
  using unat_sub_if_size [of 0 x] by (simp add: word_size)

lemma hsep_offset:
  assumes "hsep a b" and "i \<le> 12" and "j \<le> 12"
  shows "4 \<le> unat (a + word_of_nat i - (b + word_of_nat j))"
proof -
  have x: "16 \<le> unat (a - b)" "unat (a - b) \<le> 4294967280"
    using assms(1) unat_u32_neg [of "a - b"] by (auto simp: hsep_def)
  have i: "unat (word_of_nat i :: u32) = i" "unat (word_of_nat j :: u32) = j"
    using assms(2,3) by (auto intro: unat_u32_of_nat)
  have "unat (a - b + word_of_nat i) = unat (a - b) + i"
    using x assms(2) i by (subst unat_u32_add) auto
  then have u: "unat (a - b + word_of_nat i - word_of_nat j) = unat (a - b) + i - j"
    using x assms(3) i by (subst unat_sub) (auto simp: word_le_nat_alt)
  have eq: "a + word_of_nat i - (b + word_of_nat j) = a - b + word_of_nat i - word_of_nat j" by simp
  show ?thesis unfolding eq u using x assms(3) by simp
qed

lemma ld32_st32_other:
  assumes "4 \<le> unat (a - b)" and "4 \<le> unat (b - a)"
  shows "ld32 (st32 b v m) a = ld32 m a"
proof -
  have x: "unat (a - b) \<le> 4294967292"
    using assms unat_u32_neg [of "a - b"] by simp
  have "st32 b v m (a + word_of_nat i) = m (a + word_of_nat i)" if "i < 4" for i
  proof -
    have "unat (word_of_nat i :: u32) = i" using that by (auto intro: unat_u32_of_nat)
    then have "unat (a - b + word_of_nat i) = unat (a - b) + i"
      using x that by (subst unat_u32_add) auto
    then show ?thesis using assms(1) by (intro st32_other) (simp add: algebra_simps)
  qed
  from this [of 0] this [of 1] this [of 2] this [of 3] show ?thesis by (simp add: ld32_def)
qed

lemma hsep_sym: "hsep a b \<longleftrightarrow> hsep b a"
  by (auto simp: hsep_def)

lemma ld32_field:
  assumes "hsep a b" and "i \<le> 12" and "j \<le> 12"
  shows "ld32 (st32 (b + word_of_nat j) v m) (a + word_of_nat i) = ld32 m (a + word_of_nat i)"
  using hsep_offset [of a b i j] hsep_offset [of b a j i] assms hsep_sym [of a b]
  by (intro ld32_st32_other) auto

lemma hdr_other [simp]:
  assumes "hsep a b"
  shows "hdr (set_size b v m) a = hdr m a" "hdr (set_free b v m) a = hdr m a"
    "hdr (set_next b v m) a = hdr m a" "hdr (set_prev b v m) a = hdr m a"
proof -
  have e: "ld32 (st32 (b + word_of_nat j) v m) a = ld32 m a"
    "ld32 (st32 (b + word_of_nat j) v m) (a + 4) = ld32 m (a + 4)"
    "ld32 (st32 (b + word_of_nat j) v m) (a + 8) = ld32 m (a + 8)"
    "ld32 (st32 (b + word_of_nat j) v m) (a + 12) = ld32 m (a + 12)" if "j \<le> 12" for j
    using ld32_field [OF assms, of 0 j v m] ld32_field [OF assms, of 4 j v m] ld32_field [OF assms, of 8 j v m]
      ld32_field [OF assms, of 12 j v m] that by simp_all
  from e [of 0] e [of 4] e [of 8] e [of 12]
  show "hdr (set_size b v m) a = hdr m a" "hdr (set_free b v m) a = hdr m a"
    "hdr (set_next b v m) a = hdr m a" "hdr (set_prev b v m) a = hdr m a"
    by (simp_all add: hdr_def set_size_def set_free_def set_next_def set_prev_def)
qed

lemma hdr_same [simp]:
  "hdr (set_size a v m) a = (hdr m a)\<lparr>hb_size := v\<rparr>" "hdr (set_free a v m) a = (hdr m a)\<lparr>hb_free := v\<rparr>"
  "hdr (set_next a v m) a = (hdr m a)\<lparr>hb_next := v\<rparr>" "hdr (set_prev a v m) a = (hdr m a)\<lparr>hb_prev := v\<rparr>"
  by (simp_all add: hdr_def set_size_def set_free_def set_next_def set_prev_def ld32_st32_other)

text \<open>A field assignment changes no byte outside the 16 bytes of its header.\<close>

lemma set_outside:
  assumes "16 \<le> unat (x - a)"
  shows "set_size a v m x = m x" "set_free a v m x = m x" "set_next a v m x = m x" "set_prev a v m x = m x"
proof -
  have "4 \<le> unat (x - (a + word_of_nat i))" if "i \<le> 12" for i
  proof -
    have "unat (word_of_nat i :: u32) = i" using that by (auto intro: unat_u32_of_nat)
    then have "unat (x - a - word_of_nat i) = unat (x - a) - i"
      using assms that by (subst unat_sub) (auto simp: word_le_nat_alt)
    then show ?thesis using assms that by (simp add: diff_diff_eq)
  qed
  from this [of 0] this [of 4] this [of 8] this [of 12]
  show "set_size a v m x = m x" "set_free a v m x = m x" "set_next a v m x = m x" "set_prev a v m x = m x"
    by (simp_all add: set_size_def set_free_def set_next_def set_prev_def st32_other)
qed

section \<open>The layout of the heap\<close>

text \<open>The abstract heap: the blocks in address order, each with its payload size and whether it is
  free. Blocks are adjacent, so the addresses follow from the start of the heap.\<close>

type_synonym blocks = "(nat \<times> bool) list"

fun tot :: "blocks \<Rightarrow> nat" where
  "tot [] = 0"
| "tot ((n, f) # bs) = 16 + n + tot bs"

fun last_addr :: "nat \<Rightarrow> nat \<Rightarrow> blocks \<Rightarrow> nat" where
  "last_addr p a [] = p"
| "last_addr p a ((n, f) # bs) = last_addr a (a + 16 + n) bs"

definition flag :: "bool \<Rightarrow> u32" where
  "flag f = (if f then 1 else 0)"

text \<open>\<open>rep m e p a bs\<close>: the headers of \<open>bs\<close> lie in \<open>m\<close> from address \<open>a\<close> on, linked both ways;
  \<open>p\<close> is the predecessor of the first, and \<open>e\<close> tells whether blocks follow the last.\<close>

fun rep :: "mem \<Rightarrow> bool \<Rightarrow> nat \<Rightarrow> nat \<Rightarrow> blocks \<Rightarrow> bool" where
  "rep m e p a [] \<longleftrightarrow> True"
| "rep m e p a ((n, f) # bs) \<longleftrightarrow>
     hdr m (word_of_nat a) = \<lparr>hb_size = word_of_nat n, hb_free = flag f,
       hb_next = (if bs = [] \<and> \<not> e then 0 else word_of_nat (a + 16 + n)), hb_prev = word_of_nat p\<rparr> \<and>
     rep m e a (a + 16 + n) bs"

lemma tot_append [simp]: "tot (xs @ ys) = tot xs + tot ys"
  by (induction xs rule: tot.induct) auto

lemma tot_nonempty: "bs \<noteq> [] \<Longrightarrow> 16 \<le> tot bs"
  by (cases bs) auto

lemma last_addr_append [simp]: "last_addr p a (xs @ ys) = last_addr (last_addr p a xs) (a + tot xs) ys"
  by (induction p a xs rule: last_addr.induct) (auto simp: add.assoc)

lemma rep_append:
  "rep m e p a (xs @ ys) \<longleftrightarrow>
     rep m (e \<or> ys \<noteq> []) p a xs \<and> rep m e (last_addr p a xs) (a + tot xs) ys"
  by (induction m e p a xs rule: rep.induct) (auto simp: add.assoc)

lemma rep_focus:
  "rep m e p a (xs @ (n, f) # ys) \<longleftrightarrow> rep m True p a xs \<and>
     hdr m (word_of_nat (a + tot xs)) = \<lparr>hb_size = word_of_nat n, hb_free = flag f,
       hb_next = (if ys = [] \<and> \<not> e then 0 else word_of_nat (a + tot xs + 16 + n)),
       hb_prev = word_of_nat (last_addr p a xs)\<rparr> \<and>
     rep m e (a + tot xs) (a + tot xs + 16 + n) ys"
  by (simp add: rep_append)

lemma hsep_nat:
  assumes "a + 16 \<le> h" and "h + 16 \<le> 4294967296"
  shows "hsep (word_of_nat a) (word_of_nat h)" "hsep (word_of_nat h) (word_of_nat a)"
proof -
  have u: "unat (word_of_nat a :: u32) = a" "unat (word_of_nat h :: u32) = h"
    using assms by (auto intro: unat_u32_of_nat)
  then have d: "unat (word_of_nat h - word_of_nat a :: u32) = h - a"
    using assms by (subst unat_sub) (auto simp: word_le_nat_alt)
  have "unat (word_of_nat a - word_of_nat h :: u32) = 4294967296 - (h - a)"
    using unat_u32_neg [of "word_of_nat h - word_of_nat a"] d assms by simp
  then show "hsep (word_of_nat a) (word_of_nat h)" "hsep (word_of_nat h) (word_of_nat a)"
    using d assms by (auto simp: hsep_def)
qed

text \<open>The representation only depends on the headers.\<close>

fun header_addrs :: "nat \<Rightarrow> blocks \<Rightarrow> nat set" where
  "header_addrs a [] = {}"
| "header_addrs a ((n, f) # bs) = insert a (header_addrs (a + 16 + n) bs)"

lemma header_addrs_append [simp]:
  "header_addrs a (xs @ ys) = header_addrs a xs \<union> header_addrs (a + tot xs) ys"
  by (induction a xs rule: header_addrs.induct) (auto simp: add.assoc)

lemma header_addrs_range: "h \<in> header_addrs a bs \<Longrightarrow> a \<le> h \<and> h + 16 \<le> a + tot bs"
  by (induction a bs rule: header_addrs.induct) auto

lemma rep_cong:
  assumes "rep m e p a bs" and "\<And>h. h \<in> header_addrs a bs \<Longrightarrow> hdr m' (word_of_nat h) = hdr m (word_of_nat h)"
  shows "rep m' e p a bs"
  using assms by (induction m e p a bs rule: rep.induct) auto

lemma rep_set_other:
  assumes "rep m e p a bs" and "a + tot bs \<le> h \<or> h + 16 \<le> a"
    and "a + tot bs \<le> 4294967296" and "h + 16 \<le> 4294967296"
  shows "rep (set_size (word_of_nat h) v m) e p a bs" "rep (set_free (word_of_nat h) v m) e p a bs"
    "rep (set_next (word_of_nat h) v m) e p a bs" "rep (set_prev (word_of_nat h) v m) e p a bs"
proof -
  have "hsep (word_of_nat c) (word_of_nat h)" if "c \<in> header_addrs a bs" for c
    using header_addrs_range [OF that] assms(2-4) hsep_nat [of c h] hsep_nat [of h c] by auto
  then show "rep (set_size (word_of_nat h) v m) e p a bs" "rep (set_free (word_of_nat h) v m) e p a bs"
    "rep (set_next (word_of_nat h) v m) e p a bs" "rep (set_prev (word_of_nat h) v m) e p a bs"
    by (auto intro: rep_cong [OF assms(1)])
qed

lemma rep_set_prev_head:
  assumes "rep m e p a bs" and "bs \<noteq> []" and "a + tot bs \<le> 4294967296"
  shows "rep (set_prev (word_of_nat a) (word_of_nat q) m) e q a bs"
proof (cases bs)
  case (Cons b bs')
  obtain n f where b: "b = (n, f)" by fastforce
  have "rep (set_prev (word_of_nat a) (word_of_nat q) m) e a (a + 16 + n) bs'"
    using assms Cons b by (intro rep_set_other) auto
  then show ?thesis using assms Cons b by simp
qed (use assms in simp)

text \<open>Two memories that differ at most in the headers at the addresses \<open>H\<close>.\<close>

definition same_outside :: "nat set \<Rightarrow> mem \<Rightarrow> mem \<Rightarrow> bool" where
  "same_outside H m m' \<longleftrightarrow>
     (\<forall>x < 4294967296. (\<forall>h \<in> H. x < h \<or> h + 16 \<le> x) \<longrightarrow> m' (word_of_nat x) = m (word_of_nat x))"

lemma same_outside_refl [simp]: "same_outside H m m"
  by (simp add: same_outside_def)

lemma same_outside_trans: "same_outside H m m' \<Longrightarrow> same_outside H m' m'' \<Longrightarrow> same_outside H m m''"
  by (simp add: same_outside_def)

lemma same_outside_mono: "same_outside H m m' \<Longrightarrow> H \<subseteq> H' \<Longrightarrow> same_outside H' m m'"
  unfolding same_outside_def by blast

lemma header_offset:
  assumes "x < h \<or> h + 16 \<le> x" and "x < 4294967296" and "h + 16 \<le> 4294967296"
  shows "16 \<le> unat (word_of_nat x - word_of_nat h :: u32)"
proof -
  have u: "unat (word_of_nat x :: u32) = x" "unat (word_of_nat h :: u32) = h"
    using assms by (auto intro: unat_u32_of_nat)
  then have "unat (word_of_nat x - word_of_nat h :: u32) = (if h \<le> x then x - h else x + 4294967296 - h)"
    using unat_sub_if_size [of "word_of_nat x :: u32" "word_of_nat h"] by (simp add: word_size)
  then show ?thesis using assms by auto
qed

lemma same_outside_set:
  assumes "same_outside H m m'" and "h \<in> H" and "h + 16 \<le> 4294967296"
  shows "same_outside H m (set_size (word_of_nat h) v m')" "same_outside H m (set_free (word_of_nat h) v m')"
    "same_outside H m (set_next (word_of_nat h) v m')" "same_outside H m (set_prev (word_of_nat h) v m')"
  using assms header_offset [of _ h] unfolding same_outside_def by (auto simp: set_outside)

section \<open>Splitting and joining blocks\<close>

lemma u32_nat_sub: "k \<le> n \<Longrightarrow> word_of_nat n - word_of_nat k = (word_of_nat (n - k) :: u32)"
  by (simp add: of_nat_diff)

lemma u32_nat_le: "n < 4294967296 \<Longrightarrow> k < 4294967296 \<Longrightarrow> (word_of_nat k :: u32) \<le> word_of_nat n \<longleftrightarrow> k \<le> n"
  by (simp add: word_le_nat_alt unat_u32_of_nat)

lemma u32_nat_eq_0: "n < 4294967296 \<Longrightarrow> (word_of_nat n :: u32) = 0 \<longleftrightarrow> n = 0"
  by (simp add: u32_eq_unat unat_u32_of_nat)

lemma flag_nonzero [simp]: "flag f = 0 \<longleftrightarrow> \<not> f"
  by (simp add: flag_def)

lemma split_block_rep:
  assumes rep: "rep m e p a (xs @ (n, f) # ys)" and lim: "a + tot (xs @ (n, f) # ys) < 4294967296"
    and k: "k + 20 \<le> n" and e: "ys \<noteq> [] \<or> \<not> e" and a: "0 < a"
  shows "rep (split_block (word_of_nat (a + tot xs)) (word_of_nat k) m) e p a
      (xs @ (k, f) # (n - k - 16, True) # ys)" (is ?rep)
    and "same_outside (header_addrs a (xs @ (k, f) # (n - k - 16, True) # ys)) m
      (split_block (word_of_nat (a + tot xs)) (word_of_nat k) m)"
proof -
  define A N X where "A = a + tot xs" and "N = A + 16 + k" and "X = A + 16 + n"
  let ?A = "word_of_nat A :: u32" and ?N = "word_of_nat N :: u32" and ?X = "word_of_nat X :: u32"
  let ?nx = "if ys = [] then 0 else ?X" and ?H = "header_addrs a (xs @ (k, f) # (n - k - 16, True) # ys)"
  define m1 where "m1 = set_prev ?N ?A (set_next ?N ?nx (set_free ?N 1 (set_size ?N (word_of_nat (n - k - 16)) m)))"
  define m2 where "m2 = (if ys = [] then m1 else set_prev ?X ?N m1)"
  define m3 where "m3 = set_size ?A (word_of_nat k) (set_next ?A ?N m2)"
  have hA: "hdr m ?A = \<lparr>hb_size = word_of_nat n, hb_free = flag f, hb_next = ?nx,
      hb_prev = word_of_nat (last_addr p a xs)\<rparr>" and rx: "rep m True p a xs" and ry: "rep m e A X ys"
    using rep e unfolding rep_focus A_def X_def by auto
  have bound: "X + tot ys < 4294967296" using lim by (simp add: A_def X_def)
  have bX: "X + 16 < 4294967296" if "ys \<noteq> []" using tot_nonempty [OF that] bound by simp
  then have sep: "hsep ?A ?N" "hsep ?N ?A" "hsep ?A ?X" "hsep ?X ?A" "hsep ?N ?X" "hsep ?X ?N" if "ys \<noteq> []"
    using that k hsep_nat [of A N] hsep_nat [of A X] hsep_nat [of N X] by (auto simp: N_def X_def)
  have sAN: "hsep ?A ?N" "hsep ?N ?A" using bound k hsep_nat [of A N] by (auto simp: N_def X_def)
  have nx: "?nx = 0 \<longleftrightarrow> ys = []" using bound by (simp add: u32_nat_eq_0 X_def del: of_nat_add)
  have cond: "16 + 4 \<le> hb_size (hdr m ?A) - word_of_nat k"
  proof -
    have "n - k < 4294967296" "20 \<le> n - k" using k bound by (simp_all add: X_def)
    then show ?thesis using u32_nat_le [of "n - k" 20] k by (simp add: hA)
  qed
  have new: "?A + 16 + word_of_nat k = ?N" by (simp add: N_def)
  have sz: "hb_size (hdr m ?A) - word_of_nat k - 16 = word_of_nat (n - k - 16)"
    using k by (simp add: hA)
  have sp: "split_block ?A (word_of_nat k) m = m3"
    unfolding split_block_def Let_def new sz m3_def m2_def m1_def
    using cond sAN hA nx by simp
  have hA3: "hdr m3 ?A = \<lparr>hb_size = word_of_nat k, hb_free = flag f, hb_next = ?N,
      hb_prev = word_of_nat (last_addr p a xs)\<rparr>"
    using sAN sep hA by (simp add: m3_def m2_def m1_def)
  have hN3: "hdr m3 ?N = \<lparr>hb_size = word_of_nat (n - k - 16), hb_free = 1, hb_next = ?nx, hb_prev = ?A\<rparr>"
    using sAN sep by (simp add: m3_def m2_def m1_def)
  have rx3: "rep m3 True p a xs"
    using rx bound bX k unfolding m3_def m2_def m1_def
    by (auto intro!: rep_set_other simp: A_def N_def X_def simp del: of_nat_add)
  have ry3: "rep m3 e N X ys"
  proof (cases "ys = []")
    case False
    have "rep m1 e A X ys"
      using ry bound k unfolding m1_def by (auto intro!: rep_set_other simp: N_def X_def simp del: of_nat_add)
    then have "rep m2 e N X ys" using False rep_set_prev_head [of m1 e A X ys N] bound by (simp add: m2_def)
    then show ?thesis
      using bound unfolding m3_def by (auto intro!: rep_set_other simp: X_def simp del: of_nat_add)
  qed simp
  have X: "N + 16 + (n - k - 16) = X" using k by (simp add: N_def X_def)
  have nx: "(if ys = [] \<and> \<not> e then 0 else word_of_nat X) = ?nx" using e by auto
  have fl: "flag True = 1" by (simp add: flag_def)
  show ?rep
    unfolding rep_focus rep.simps A_def [symmetric] N_def [symmetric] X nx fl sp
    using hA3 hN3 rx3 ry3 by simp
  have "A \<in> ?H" "N \<in> ?H" by (simp_all add: A_def N_def)
  moreover have "X \<in> ?H" if "ys \<noteq> []" using that X by (cases ys) (auto simp: A_def N_def add.assoc)
  ultimately show "same_outside ?H m (split_block (word_of_nat (a + tot xs)) (word_of_nat k) m)"
    using bound bX k unfolding A_def [symmetric] sp m3_def m2_def m1_def
    by (auto intro!: same_outside_set simp: N_def X_def simp del: of_nat_add)
qed

text \<open>Joining a block with its right neighbour: the step that \<open>merge_blocks\<close> makes up to twice.\<close>

definition join_block :: "u32 \<Rightarrow> u32 \<Rightarrow> mem \<Rightarrow> mem" where
  "join_block left right m =
     (let m = set_size left (hb_size (hdr m left) + sizeof_heap_block + hb_size (hdr m right)) m;
          m = set_next left (hb_next (hdr m right)) m
      in if hb_next (hdr m right) \<noteq> 0 then set_prev (hb_next (hdr m right)) left m else m)"

lemma join_block_rep:
  assumes rep: "rep m e p a (xs @ (n1, f1) # (n2, f2) # ys)" and e: "ys \<noteq> [] \<or> \<not> e"
    and lim: "a + tot (xs @ (n1, f1) # (n2, f2) # ys) < 4294967296"
  shows "rep (join_block (word_of_nat (a + tot xs)) (word_of_nat (a + tot xs + 16 + n1)) m) e p a
    (xs @ (n1 + 16 + n2, f1) # ys)" (is ?rep)
    and "same_outside (header_addrs a (xs @ (n1 + 16 + n2, f1) # ys)) m
      (join_block (word_of_nat (a + tot xs)) (word_of_nat (a + tot xs + 16 + n1)) m)"
proof -
  define A N X where "A = a + tot xs" and "N = A + 16 + n1" and "X = N + 16 + n2"
  let ?A = "word_of_nat A :: u32" and ?N = "word_of_nat N :: u32" and ?X = "word_of_nat X :: u32"
  let ?nx = "if ys = [] then 0 else ?X"
  define m1 where "m1 = set_next ?A ?nx (set_size ?A (word_of_nat (n1 + 16 + n2)) m)"
  define m2 where "m2 = (if ys = [] then m1 else set_prev ?X ?A m1)"
  have hA: "hdr m ?A = \<lparr>hb_size = word_of_nat n1, hb_free = flag f1, hb_next = ?N,
      hb_prev = word_of_nat (last_addr p a xs)\<rparr>"
    and hN: "hdr m ?N = \<lparr>hb_size = word_of_nat n2, hb_free = flag f2, hb_next = ?nx, hb_prev = ?A\<rparr>"
    and rx: "rep m True p a xs" and ry: "rep m e N X ys"
    using rep e unfolding rep_focus rep.simps A_def N_def X_def by auto
  have bound: "X + tot ys < 4294967296" using lim by (simp add: A_def N_def X_def)
  have bX: "X + 16 < 4294967296" if "ys \<noteq> []" using tot_nonempty [OF that] bound by simp
  then have sep: "hsep ?A ?X" "hsep ?X ?A" if "ys \<noteq> []"
    using that hsep_nat [of A X] by (auto simp: N_def X_def)
  have sAN: "hsep ?A ?N" "hsep ?N ?A" using bound hsep_nat [of A N] by (auto simp: N_def X_def)
  have nx: "?nx = 0 \<longleftrightarrow> ys = []" using bound by (simp add: u32_nat_eq_0 X_def del: of_nat_add)
  have jn: "join_block ?A ?N m = m2"
    unfolding join_block_def Let_def m2_def m1_def using sAN hA hN nx by simp
  have hA2: "hdr m2 ?A = \<lparr>hb_size = word_of_nat (n1 + 16 + n2), hb_free = flag f1, hb_next = ?nx,
      hb_prev = word_of_nat (last_addr p a xs)\<rparr>"
    using sep hA by (simp add: m2_def m1_def)
  have rx2: "rep m2 True p a xs"
    using rx bound bX unfolding m2_def m1_def
    by (auto intro!: rep_set_other simp: A_def N_def X_def simp del: of_nat_add)
  have ry2: "rep m2 e A X ys"
  proof (cases "ys = []")
    case False
    have "rep m1 e N X ys"
      using ry bound unfolding m1_def by (auto intro!: rep_set_other simp: N_def X_def simp del: of_nat_add)
    then show ?thesis using False rep_set_prev_head [of m1 e N X ys A] bound by (simp add: m2_def)
  qed simp
  have X: "A + 16 + (n1 + 16 + n2) = X" by (simp add: N_def X_def)
  have nx: "(if ys = [] \<and> \<not> e then 0 else word_of_nat X) = ?nx" using e by auto
  show ?rep
    unfolding rep_focus rep.simps A_def [symmetric] N_def [symmetric] X nx jn
    using hA2 rx2 ry2 by simp
  let ?H = "header_addrs a (xs @ (n1 + 16 + n2, f1) # ys)"
  have "A \<in> ?H" by (simp add: A_def)
  moreover have "X \<in> ?H" if "ys \<noteq> []" using that X by (cases ys) (auto simp: A_def N_def add.assoc)
  ultimately show "same_outside ?H m (join_block (word_of_nat (a + tot xs)) (word_of_nat (a + tot xs + 16 + n1)) m)"
    using bound bX unfolding A_def [symmetric] N_def [symmetric] jn m2_def m1_def
    by (auto intro!: same_outside_set simp: N_def X_def simp del: of_nat_add)
qed

lemma merge_next_join:
  assumes "hsep A (hb_next (hdr m A))"
  shows "merge_next A m = (if hb_next (hdr m A) \<noteq> 0 \<and> hb_free (hdr m (hb_next (hdr m A))) \<noteq> 0
    then join_block A (hb_next (hdr m A)) m else m)"
proof -
  have "hsep (hb_next (hdr m A)) A" using assms hsep_sym by blast
  then show ?thesis using assms unfolding merge_next_def join_block_def Let_def by (simp add: add.assoc)
qed

lemma merge_prev_join:
  assumes "hsep A (hb_prev (hdr m A))"
  shows "merge_prev A m = (if hb_prev (hdr m A) \<noteq> 0 \<and> hb_free (hdr m (hb_prev (hdr m A))) \<noteq> 0
    then join_block (hb_prev (hdr m A)) A m else m)"
  using assms unfolding merge_prev_def join_block_def Let_def by (simp add: add.assoc)

definition join_next :: "nat \<Rightarrow> blocks \<Rightarrow> blocks" where
  "join_next n ys = (case ys of (k, True) # ys' \<Rightarrow> (n + 16 + k, True) # ys' | _ \<Rightarrow> (n, True) # ys)"

definition join_prev :: "blocks \<Rightarrow> blocks \<Rightarrow> blocks" where
  "join_prev xs bs =
     (if xs \<noteq> [] \<and> snd (last xs) then butlast xs @ (fst (last xs) + 16 + fst (hd bs), True) # tl bs else xs @ bs)"

lemma merge_blocks_rep:
  assumes rep: "rep m False 0 a (xs @ (n, True) # ys)" and lim: "a + tot (xs @ (n, True) # ys) < 4294967296"
    and a: "0 < a"
  shows "rep (merge_blocks (word_of_nat (a + tot xs)) m) False 0 a (join_prev xs (join_next n ys)) \<and>
    same_outside (header_addrs a (xs @ (n, True) # ys)) m (merge_blocks (word_of_nat (a + tot xs)) m) \<and>
    hb_free (hdr (merge_blocks (word_of_nat (a + tot xs)) m) (word_of_nat (a + tot xs))) \<noteq> 0"
proof -
  let ?H = "header_addrs a (xs @ (n, True) # ys)"
  define A where "A = a + tot xs"
  let ?A = "word_of_nat A :: u32"
  define m1 where "m1 = merge_next ?A m"
  have nxt: "hb_next (hdr m ?A) = (if ys = [] then 0 else word_of_nat (A + 16 + n))"
    using rep by (simp add: rep_focus A_def)
  have nz: "(word_of_nat (A + 16 + n) :: u32) \<noteq> 0" if "ys \<noteq> []"
    using lim tot_nonempty [OF that] by (subst u32_nat_eq_0) (simp_all add: A_def)
  have fr: "hb_free (hdr m (word_of_nat (A + 16 + n))) = flag (snd (hd ys))" if "ys \<noteq> []"
    using rep that by (cases ys; cases "hd ys") (auto simp: rep_focus A_def)
  have m1: "m1 = (if ys \<noteq> [] \<and> snd (hd ys) then join_block ?A (word_of_nat (A + 16 + n)) m else m)"
  proof (cases "ys = []")
    case True
    then show ?thesis using nxt by (simp add: m1_def merge_next_def)
  next
    case False
    then have "hsep ?A (hb_next (hdr m ?A))"
      using hsep_nat [of A "A + 16 + n"] lim tot_nonempty [of ys] unfolding nxt by (simp add: A_def)
    then show ?thesis unfolding m1_def using False fr nz nxt by (simp add: merge_next_join)
  qed
  obtain n' ys' where j: "join_next n ys = (n', True) # ys'" and r1: "rep m1 False 0 a (xs @ (n', True) # ys')"
    and tot1: "tot (join_next n ys) = tot ((n, True) # ys)" and o1: "same_outside ?H m m1"
    and sub1: "header_addrs a (xs @ (n', True) # ys') \<subseteq> ?H"
  proof (cases "ys \<noteq> [] \<and> snd (hd ys)")
    case True
    then obtain k ys' where ys: "ys = (k, True) # ys'" by (cases ys) auto
    have sub: "header_addrs a (xs @ (n + 16 + k, True) # ys') \<subseteq> ?H" by (auto simp: ys add.assoc)
    have "rep (join_block ?A (word_of_nat (A + 16 + n)) m) False 0 a (xs @ (n + 16 + k, True) # ys')"
        "same_outside ?H m (join_block ?A (word_of_nat (A + 16 + n)) m)"
      using join_block_rep [of m False 0 a xs n True k True ys'] rep lim same_outside_mono [OF _ sub]
      unfolding ys A_def by simp_all
    moreover have "m1 = join_block ?A (word_of_nat (A + 16 + n)) m"
      unfolding m1 by (rule if_P [OF True])
    ultimately show ?thesis using that [of "n + 16 + k" ys'] sub by (simp add: join_next_def ys)
  next
    case False
    have "m1 = m" unfolding m1 by (rule if_not_P [OF False])
    moreover have "join_next n ys = (n, True) # ys"
      using False by (auto simp: join_next_def split: list.split bool.split)
    ultimately show ?thesis using that [of n ys] rep by simp
  qed
  have prv: "hb_prev (hdr m1 ?A) = word_of_nat (last_addr 0 a xs)" and fA: "hb_free (hdr m1 ?A) \<noteq> 0"
    using r1 by (simp_all add: rep_focus A_def)
  show ?thesis
  proof (cases "xs = []")
    case True
    then have "hb_prev (hdr m1 ?A) = 0" using prv by simp
    then have "merge_blocks ?A m = m1" by (simp add: merge_blocks_def merge_prev_def m1_def)
    then show ?thesis using True r1 j o1 fA by (simp add: join_prev_def A_def)
  next
    case False
    then obtain zs k f where xs: "xs = zs @ [(k, f)]" by (metis append_butlast_last_id prod.collapse)
    define P where "P = a + tot zs"
    let ?P = "word_of_nat P :: u32"
    have AP: "A = P + 16 + k" by (simp add: A_def P_def xs)
    have prv: "hb_prev (hdr m1 ?A) = ?P" using prv by (simp add: xs P_def)
    have pz: "?P \<noteq> 0" using lim a by (subst u32_nat_eq_0) (simp_all add: P_def xs)
    have pf: "hb_free (hdr m1 ?P) = flag f" using r1 by (simp add: xs rep_focus P_def)
    have sep2: "hsep ?A (hb_prev (hdr m1 ?A))"
      unfolding prv using hsep_nat [of P A] lim by (simp add: AP P_def xs)
    have mb: "merge_blocks ?A m = (if f then join_block ?P ?A m1 else m1)"
      using merge_prev_join [OF sep2] prv pz pf by (simp add: merge_blocks_def m1_def)
    show ?thesis
    proof (cases f)
      case True
      have "a + tot (zs @ (k, True) # (n', True) # ys') < 4294967296" using lim tot1 j by (simp add: xs)
      then have "rep (join_block ?P ?A m1) False 0 a (zs @ (k + 16 + n', True) # ys')"
          "same_outside (header_addrs a (zs @ (k + 16 + n', True) # ys')) m1 (join_block ?P ?A m1)"
        using join_block_rep [of m1 False 0 a zs k True n' True ys'] r1 True unfolding AP P_def xs by simp_all
      moreover have "header_addrs a (zs @ (k + 16 + n', True) # ys') \<subseteq> ?H"
        by (rule order_trans [OF _ sub1]) (auto simp: xs add.assoc)
      moreover have "hb_free (hdr (join_block ?P ?A m1) ?A) \<noteq> 0"
      proof -
        have nx: "hb_next (hdr m1 ?A) = (if ys' = [] then 0 else word_of_nat (A + 16 + n'))"
          using r1 by (simp add: rep_focus A_def)
        have "tot ((n', True) # ys') = tot ((n, True) # ys)" using tot1 j by simp
        then have "hsep ?A (hb_next (hdr m1 ?A))" if "ys' \<noteq> []"
          using hsep_nat [of A "A + 16 + n'"] lim tot_nonempty [OF that] that unfolding nx by (simp add: A_def)
        then have "hdr (join_block ?P ?A m1) ?A = hdr m1 ?A"
          using sep2 prv nx unfolding join_block_def Let_def by (cases "ys' = []") auto
        then show ?thesis using fA by simp
      qed
      ultimately show ?thesis
        using mb True j same_outside_trans [OF o1] same_outside_mono by (simp add: join_prev_def xs A_def [unfolded xs])
    next
      case False
      then show ?thesis using mb r1 j o1 fA by (simp add: join_prev_def xs A_def [unfolded xs])
    qed
  qed
qed

section \<open>Searching\<close>

fun first_fit :: "nat \<Rightarrow> nat \<Rightarrow> blocks \<Rightarrow> nat option" where
  "first_fit k a [] = None"
| "first_fit k a ((n, f) # bs) = (if f \<and> k \<le> n then Some a else first_fit k (a + 16 + n) bs)"

lemma first_fit_SomeD:
  "first_fit k a bs = Some c \<Longrightarrow> \<exists>xs n ys. bs = xs @ (n, True) # ys \<and> c = a + tot xs \<and> k \<le> n \<and> first_fit k a xs = None"
proof (induction k a bs rule: first_fit.induct)
  case (2 k a n f bs)
  show ?case
  proof (cases "f \<and> k \<le> n")
    case True
    then show ?thesis using 2 by (intro exI [of _ "[]"]) auto
  next
    case False
    then obtain xs n' ys where "bs = xs @ (n', True) # ys" "c = a + 16 + n + tot xs" "k \<le> n'"
        "first_fit k (a + 16 + n) xs = None" using 2 by auto
    then show ?thesis using False by (intro exI [of _ "(n, f) # xs"]) auto
  qed
qed simp

lemma find_free_loop_rep:
  assumes "rep m False p a bs" and "a + tot bs < 4294967296" and "0 < a" and "k < 4294967296"
  shows "find_free_loop m (word_of_nat k) (if bs = [] then 0 else word_of_nat a) =
    Some (case first_fit k a bs of None \<Rightarrow> 0 | Some c \<Rightarrow> word_of_nat c)"
  using assms
proof (induction bs arbitrary: p a)
  case Nil
  then show ?case by (simp add: find_free_loop.simps)
next
  case (Cons b bs)
  obtain n f where b: "b = (n, f)" by fastforce
  have nz: "(word_of_nat a :: u32) \<noteq> 0" using Cons.prems by (subst u32_nat_eq_0) auto
  have le: "(word_of_nat k :: u32) \<le> word_of_nat n \<longleftrightarrow> k \<le> n"
    using Cons.prems b by (intro u32_nat_le) auto
  have IH: "find_free_loop m (word_of_nat k) (if bs = [] then 0 else word_of_nat (a + 16 + n)) =
      Some (case first_fit k (a + 16 + n) bs of None \<Rightarrow> 0 | Some c \<Rightarrow> word_of_nat c)"
    using Cons.prems b by (intro Cons.IH) auto
  have h: "hb_free (hdr m (word_of_nat a)) = flag f" "hb_size (hdr m (word_of_nat a)) = word_of_nat n"
      "hb_next (hdr m (word_of_nat a)) = (if bs = [] then 0 else word_of_nat (a + 16 + n))"
    using Cons.prems b by auto
  show ?case
    using nz le IH by (subst find_free_loop.simps) (simp add: b h)
qed

lemma last_block_rep:
  assumes "rep m False p a bs" and "a + tot bs < 4294967296" and "bs \<noteq> []"
  shows "last_block m (word_of_nat a) = Some (word_of_nat (last_addr p a bs))"
  using assms
proof (induction bs arbitrary: p a)
  case (Cons b bs)
  obtain n f where b: "b = (n, f)" by fastforce
  have h: "hb_next (hdr m (word_of_nat a)) = (if bs = [] then 0 else word_of_nat (a + 16 + n))"
    using Cons.prems b by auto
  show ?case
  proof (cases "bs = []")
    case False
    then have "(word_of_nat (a + 16 + n) :: u32) \<noteq> 0" using Cons.prems b by (subst u32_nat_eq_0) auto
    moreover have "last_block m (word_of_nat (a + 16 + n)) = Some (word_of_nat (last_addr a (a + 16 + n) bs))"
      using Cons.prems b False by (intro Cons.IH) auto
    ultimately show ?thesis using False by (subst last_block.simps) (simp add: b h)
  qed (subst last_block.simps, simp add: h b)
qed simp

section \<open>The abstract allocator\<close>

text \<open>First fit on the abstract heap: the chosen block is split if at least 20 bytes remain.\<close>

definition take_block :: "nat \<Rightarrow> nat \<Rightarrow> blocks" where
  "take_block k n = (if k + 20 \<le> n then [(k, False), (n - k - 16, True)] else [(n, False)])"

fun amalloc :: "nat \<Rightarrow> nat \<Rightarrow> blocks \<Rightarrow> (nat \<times> blocks) option" where
  "amalloc k a [] = None"
| "amalloc k a ((n, f) # bs) =
     (if f \<and> k \<le> n then Some (a + 16, take_block k n @ bs)
      else map_option (\<lambda>(q, bs'). (q, (n, f) # bs')) (amalloc k (a + 16 + n) bs))"

definition agrow :: "nat \<Rightarrow> blocks \<Rightarrow> blocks" where
  "agrow k bs = (if snd (last bs) then butlast bs @ [(fst (last bs) + k + 16, True)] else bs @ [(k, True)])"

fun mark_free :: "nat \<Rightarrow> nat \<Rightarrow> blocks \<Rightarrow> blocks" where
  "mark_free c a [] = []"
| "mark_free c a ((n, f) # bs) = (if a = c then (n, True) # bs else (n, f) # mark_free c (a + 16 + n) bs)"

fun coalesce :: "blocks \<Rightarrow> blocks" where
  "coalesce ((m, f) # (n, g) # bs) =
     (if f \<and> g then coalesce ((m + 16 + n, True) # bs) else (m, f) # coalesce ((n, g) # bs))"
| "coalesce bs = bs"

text \<open>No two neighbours are both free.\<close>

fun packed :: "blocks \<Rightarrow> bool" where
  "packed (b # c # bs) \<longleftrightarrow> \<not> (snd b \<and> snd c) \<and> packed (c # bs)"
| "packed bs \<longleftrightarrow> True"

text \<open>The allocations in use: address and size of each payload.\<close>

fun live :: "nat \<Rightarrow> blocks \<Rightarrow> (nat \<times> nat) set" where
  "live a [] = {}"
| "live a ((n, f) # bs) = (if f then {} else {(a + 16, n)}) \<union> live (a + 16 + n) bs"

lemma amalloc_fit:
  "first_fit k a xs = None \<Longrightarrow> k \<le> n \<Longrightarrow>
     amalloc k a (xs @ (n, True) # ys) = Some (a + tot xs + 16, xs @ take_block k n @ ys)"
  by (induction k a xs rule: first_fit.induct) (auto simp: add.assoc split: if_splits)

lemma amalloc_none: "first_fit k a bs = None \<Longrightarrow> amalloc k a bs = None"
  by (induction k a bs rule: first_fit.induct) (auto split: if_splits)

lemma live_append: "live a (xs @ ys) = live a xs \<union> live (a + tot xs) ys"
  by (induction a xs rule: live.induct) (auto simp: add.assoc)

lemma live_range: "(q, n) \<in> live a bs \<Longrightarrow> a + 16 \<le> q \<and> q + n \<le> a + tot bs"
  by (induction a bs rule: live.induct) (auto split: if_splits)

text \<open>Payloads in use are disjoint from each other and from every header.\<close>

lemma live_disjoint:
  "(q, n) \<in> live a bs \<Longrightarrow> (q', n') \<in> live a bs \<Longrightarrow> (q, n) = (q', n') \<or> q + n + 16 \<le> q' \<or> q' + n' + 16 \<le> q"
proof (induction a bs rule: live.induct)
  case (2 a n f bs)
  then show ?case using live_range [of _ _ "a + 16 + n" bs] by (fastforce split: if_splits)
qed simp

lemma live_unique: "(q, n) \<in> live a bs \<Longrightarrow> (q, n') \<in> live a bs \<Longrightarrow> n = n'"
  using live_disjoint [of q n a bs q n'] by auto

lemma live_headers:
  "(q, n) \<in> live a bs \<Longrightarrow> h \<in> header_addrs a bs \<Longrightarrow> h + 16 \<le> q \<or> q + n \<le> h"
proof (induction a bs rule: live.induct)
  case (2 a n f bs)
  then show ?case
    using live_range [of q _ "a + 16 + n" bs] header_addrs_range [of h "a + 16 + n" bs]
    by (fastforce split: if_splits)
qed simp

lemma live_exD: "(q, n) \<in> live a bs \<Longrightarrow> \<exists>xs ys. bs = xs @ (n, False) # ys \<and> q = a + tot xs + 16"
proof (induction a bs rule: live.induct)
  case (2 a k f bs)
  show ?case
  proof (cases "(q, n) = (a + 16, k) \<and> \<not> f")
    case True
    then have "(k, f) # bs = [] @ (n, False) # bs \<and> q = a + tot [] + 16" by simp
    then show ?thesis by blast
  next
    case False
    then obtain xs ys where "bs = xs @ (n, False) # ys" "q = a + 16 + k + tot xs + 16"
      using 2 by (auto split: if_splits)
    then have "(k, f) # bs = ((k, f) # xs) @ (n, False) # ys \<and> q = a + tot ((k, f) # xs) + 16" by simp
    then show ?thesis by blast
  qed
qed simp

lemma mark_free_at: "mark_free (a + tot xs) a (xs @ (n, f) # ys) = xs @ (n, True) # ys"
proof (induction xs arbitrary: a)
  case (Cons x xs)
  then show ?case by (cases x) (simp add: add.assoc [symmetric])
qed simp

lemma live_mark_free:
  "(q, n) \<in> live a bs \<Longrightarrow> live a (mark_free (q - 16) a bs) = live a bs - {(q, n)}"
proof -
  assume l: "(q, n) \<in> live a bs"
  then obtain xs ys where b: "bs = xs @ (n, False) # ys" "q = a + tot xs + 16" using live_exD by blast
  then have "(q, n) \<notin> live a xs" "(q, n) \<notin> live (a + tot xs + 16 + n) ys"
    using live_range [of q n a xs] live_range [of q n "a + tot xs + 16 + n" ys] by auto
  then show ?thesis using b by (auto simp: live_append mark_free_at)
qed

lemma coalesce_live: "live a (coalesce bs) = live a bs"
  by (induction bs arbitrary: a rule: coalesce.induct) (auto simp: add.assoc)

lemma coalesce_tot: "tot (coalesce bs) = tot bs"
  by (induction bs rule: coalesce.induct) auto

lemma coalesce_hd: "coalesce bs = [] \<longleftrightarrow> bs = []" "bs \<noteq> [] \<Longrightarrow> snd (hd (coalesce bs)) = snd (hd bs)"
  by (induction bs rule: coalesce.induct) auto

lemma packed_Cons: "packed (b # bs) \<longleftrightarrow> packed bs \<and> (bs \<noteq> [] \<longrightarrow> \<not> (snd b \<and> snd (hd bs)))"
  by (cases bs) auto

lemma coalesce_is_packed: "packed (coalesce bs)"
  by (induction bs rule: coalesce.induct) (auto simp: packed_Cons coalesce_hd)

lemma coalesce_packed: "packed bs \<Longrightarrow> coalesce bs = bs"
  by (induction bs rule: coalesce.induct) auto

lemma coalesce_append: "xs \<noteq> [] \<Longrightarrow> packed xs \<Longrightarrow> \<not> snd (last xs) \<Longrightarrow> coalesce (xs @ ys) = xs @ coalesce ys"
proof (induction xs)
  case (Cons x xs)
  obtain n f where x: "x = (n, f)" by fastforce
  show ?case
  proof (cases xs)
    case Nil
    then show ?thesis using Cons.prems x by (cases ys) auto
  next
    case (Cons y zs)
    obtain k g where "y = (k, g)" by fastforce
    then show ?thesis using Cons Cons.IH Cons.prems x by auto
  qed
qed simp

lemma packed_append:
  "packed (xs @ ys) \<longleftrightarrow> packed xs \<and> packed ys \<and> (xs \<noteq> [] \<and> ys \<noteq> [] \<longrightarrow> \<not> (snd (last xs) \<and> snd (hd ys)))"
  by (induction xs) (auto simp: packed_Cons)

lemma coalesce_join_next: "packed ys \<Longrightarrow> coalesce ((n, True) # ys) = join_next n ys"
proof (cases ys)
  case (Cons y zs)
  assume p: "packed ys"
  obtain k g where y: "y = (k, g)" by fastforce
  have "packed ((n + 16 + k, True) # zs)" if g using p Cons y that by (simp add: packed_Cons)
  then show ?thesis using p Cons y by (cases g) (simp_all add: join_next_def coalesce_packed)
qed (simp add: join_next_def)

lemma coalesce_free:
  assumes "packed (xs @ (n, False) # ys)"
  shows "coalesce (xs @ (n, True) # ys) = join_prev xs (join_next n ys)"
proof -
  have ys: "packed ys" and xs: "packed xs" using assms by (auto simp: packed_append packed_Cons)
  consider "xs = []" | "xs \<noteq> []" "\<not> snd (last xs)" | zs k where "xs = zs @ [(k, True)]"
    by (metis append_butlast_last_id prod.collapse)
  then show ?thesis
  proof cases
    case 3
    have zs: "zs = [] \<or> packed zs \<and> \<not> snd (last zs)" using xs 3 by (auto simp: packed_append)
    have "coalesce (zs @ (k, True) # (n, True) # ys) = zs @ coalesce ((k, True) # (n, True) # ys)"
      using zs coalesce_append [of zs] by (cases "zs = []") auto
    also have "coalesce ((k, True) # (n, True) # ys) = join_next (k + 16 + n) ys"
      using coalesce_join_next [OF ys] by simp
    finally show ?thesis
      using 3 by (auto simp: join_prev_def join_next_def split: list.split bool.split)
  qed (auto simp: join_prev_def coalesce_join_next [OF ys] coalesce_append [OF _ xs])
qed

section \<open>Single updates of the layout\<close>

lemma rep_set_free:
  assumes "rep m e p a (xs @ (n, f) # ys)" and "a + tot (xs @ (n, f) # ys) < 4294967296"
  shows "rep (set_free (word_of_nat (a + tot xs)) (flag g) m) e p a (xs @ (n, g) # ys)"
    and "same_outside (header_addrs a (xs @ (n, g) # ys)) m (set_free (word_of_nat (a + tot xs)) (flag g) m)"
proof -
  have "rep (set_free (word_of_nat (a + tot xs)) (flag g) m) True p a xs"
    "rep (set_free (word_of_nat (a + tot xs)) (flag g) m) e (a + tot xs) (a + tot xs + 16 + n) ys"
    using assms unfolding rep_focus by (auto intro!: rep_set_other simp del: of_nat_add)
  then show "rep (set_free (word_of_nat (a + tot xs)) (flag g) m) e p a (xs @ (n, g) # ys)"
    using assms unfolding rep_focus by (simp del: of_nat_add)
  show "same_outside (header_addrs a (xs @ (n, g) # ys)) m (set_free (word_of_nat (a + tot xs)) (flag g) m)"
    using assms(2) by (intro same_outside_set) auto
qed

lemma rep_set_size_last:
  assumes "rep m False p a (xs @ [(n, f)])" and "a + tot (xs @ [(n, f)]) < 4294967296"
  shows "rep (set_size (word_of_nat (a + tot xs)) (word_of_nat k) m) False p a (xs @ [(k, f)])"
    and "same_outside (header_addrs a (xs @ [(k, f)])) m (set_size (word_of_nat (a + tot xs)) (word_of_nat k) m)"
proof -
  have "rep (set_size (word_of_nat (a + tot xs)) (word_of_nat k) m) True p a xs"
    using assms unfolding rep_focus by (auto intro!: rep_set_other simp del: of_nat_add)
  then show "rep (set_size (word_of_nat (a + tot xs)) (word_of_nat k) m) False p a (xs @ [(k, f)])"
    using assms unfolding rep_focus by (simp del: of_nat_add)
  show "same_outside (header_addrs a (xs @ [(k, f)])) m (set_size (word_of_nat (a + tot xs)) (word_of_nat k) m)"
    using assms(2) by (intro same_outside_set) auto
qed

text \<open>Appending a block after the last one, as \<open>kmalloc\<close> does when the last one is in use.\<close>

lemma rep_add_block:
  assumes rep: "rep m False p a (xs @ [(n, f)])" and lim: "a + tot (xs @ [(n, f)]) + 16 + k < 4294967296"
  defines "A \<equiv> word_of_nat (a + tot xs)" and "N \<equiv> word_of_nat (a + tot xs + 16 + n)"
  defines "m' \<equiv> set_next A N (set_prev N A (set_next N 0 (set_free N 1 (set_size N (word_of_nat k) m))))"
  shows "rep m' False p a (xs @ [(n, f), (k, True)])"
    and "same_outside (header_addrs a (xs @ [(n, f), (k, True)])) m m'"
proof -
  have sep: "hsep A N" "hsep N A" using hsep_nat [of "a + tot xs" "a + tot xs + 16 + n"] lim by (auto simp: A_def N_def)
  have "rep m True p a xs" "hdr m A = \<lparr>hb_size = word_of_nat n, hb_free = flag f, hb_next = 0,
      hb_prev = word_of_nat (last_addr p a xs)\<rparr>" using rep by (simp_all add: rep_focus A_def)
  then have "rep m' True p a xs" "hdr m' A = \<lparr>hb_size = word_of_nat n, hb_free = flag f, hb_next = N,
      hb_prev = word_of_nat (last_addr p a xs)\<rparr>"
    using lim sep unfolding m'_def A_def N_def by (auto intro!: rep_set_other simp del: of_nat_add)
  moreover have "hdr m' N = \<lparr>hb_size = word_of_nat k, hb_free = 1, hb_next = 0, hb_prev = A\<rparr>"
    using sep unfolding m'_def by simp
  ultimately show "rep m' False p a (xs @ [(n, f), (k, True)])"
    unfolding rep_focus rep.simps by (simp add: A_def N_def flag_def)
  show "same_outside (header_addrs a (xs @ [(n, f), (k, True)])) m m'"
    unfolding m'_def A_def N_def using lim by (auto intro!: same_outside_set simp del: of_nat_add)
qed

section \<open>Pages for the heap\<close>

lemma paging_inv_alloc [inv_intros]:
  assumes "paging_inv s"
  shows "paging_inv (snd (pmm_alloc_page s))"
proof -
  have p: "pmm_inv s" and t: "tables_wf s" using assms by (auto simp: paging_inv_def)
  have "pmm_inv (snd (pmm_alloc_page s))" "free_frames (snd (pmm_alloc_page s)) \<subseteq> free_frames s"
    using pmm.alloc_inv [OF p] pmm.alloc_subset [OF p] by auto
  then show ?thesis using t by (auto simp: paging_inv_def tables_wf_def)
qed

lemma aspace_alloc [simp]: "aspace (snd (pmm_alloc_page s)) = aspace s"
  by (simp add: aspace_def page_entry_def fun_eq_iff)

lemma paging_map_page_more [simp]:
  "paging_state.more (paging_map_page va pa fl s) = paging_state.more s"
proof -
  have "paging_state.more (snd (paging_create_page_table s)) = paging_state.more s"
    by (simp add: paging_create_page_table_def Let_def split_beta)
  then show ?thesis by (simp add: paging_map_page_def Let_def split_beta)
qed

lemma heap_map_pages_frame:
  "paging_inv s \<Longrightarrow> paging_inv (snd (heap_map_pages base i n s)) \<and>
     paging_state.more (snd (heap_map_pages base i n s)) = paging_state.more s"
proof (induction base i n s rule: heap_map_pages.induct)
  case (2 base i n s)
  obtain page s1 where a: "pmm_alloc_page s = (page, s1)" by fastforce
  then have s1: "paging_inv s1" "paging_state.more s1 = paging_state.more s"
    using paging_inv_alloc [OF 2(2)] pmm_alloc_page_paging(4) [of s] by simp_all
  show ?case
  proof (cases "page = 0")
    case False
    then show ?thesis using 2(1) [OF a [symmetric] refl False] a s1 vm.map_inv [OF s1(1)] by simp
  qed (use a s1 in simp)
qed simp

lemma heap_fields_more:
  assumes "paging_state.more s' = paging_state.more s"
  shows "vmem s' = vmem s" "heap_start s' = heap_start s" "heap_size s' = heap_size s" "heap_used s' = heap_used s"
    "heap_state.more s' = heap_state.more s"
  using assms by (cases s; cases s'; simp)+

lemma heap_map_pages_fields:
  assumes "paging_inv s"
  shows "vmem (snd (heap_map_pages base i n s)) = vmem s"
    "heap_start (snd (heap_map_pages base i n s)) = heap_start s"
    "heap_size (snd (heap_map_pages base i n s)) = heap_size s"
    "heap_used (snd (heap_map_pages base i n s)) = heap_used s"
    "heap_state.more (snd (heap_map_pages base i n s)) = heap_state.more s"
  using heap_fields_more [of "snd (heap_map_pages base i n s)" s] heap_map_pages_frame [OF assms] by auto

lemma paging_inv_heap_fields [simp]:
  "paging_inv (s\<lparr>vmem := m\<rparr>) = paging_inv s" "paging_inv (s\<lparr>heap_size := n\<rparr>) = paging_inv s"
  "paging_inv (s\<lparr>heap_used := n\<rparr>) = paging_inv s" "paging_inv (s\<lparr>heap_start := n\<rparr>) = paging_inv s"
  by (simp_all add: paging_inv_def pmm_inv_def pmm_wf_def pmm_shape_def used_frames_def page_used_def
      tables_wf_def free_frames_def)

text \<open>The heap in use: the blocks lie in memory as the abstract layout says, inside the pages that
  the heap has claimed.\<close>

definition heap_rel :: "'a heap_state_scheme \<Rightarrow> blocks \<Rightarrow> bool" where
  "heap_rel s bs \<longleftrightarrow> paging_inv s \<and> heap_start s = HEAP_START \<and> bs \<noteq> [] \<and>
     rep (vmem s) False 0 0x400000 bs \<and> packed bs \<and> (\<forall>b \<in> set bs. 4 dvd fst b) \<and>
     tot bs \<le> unat (heap_size s) \<and> unat (heap_size s) \<le> 0x4000000 \<and> 4096 dvd unat (heap_size s)"

lemma heap_rel_limit: "heap_rel s bs \<Longrightarrow> 0x400000 + tot bs < 4294967296"
  by (simp add: heap_rel_def)

lemma expand_heap_cases:
  assumes "paging_inv s" and "unat (heap_size s) \<le> 0x4000000" and "4096 dvd unat (heap_size s)"
    and "0 < k" and "k \<le> 0xF0000010"
  obtains (no) s' where "expand_heap (word_of_nat k) s = (False, s')" "paging_inv s'" "vmem s' = vmem s"
      "heap_start s' = heap_start s" "heap_size s' = heap_size s" "heap_state.more s' = heap_state.more s"
  | (yes) s' where "expand_heap (word_of_nat k) s = (True, s')" "paging_inv s'" "vmem s' = vmem s"
      "heap_start s' = heap_start s" "unat (heap_size s') = unat (heap_size s) + 4096 * ((k + 4095) div 4096)"
      "unat (heap_size s') \<le> 0x4000000" "heap_state.more s' = heap_state.more s"
proof -
  let ?k = "word_of_nat k :: u32"
  have k: "unat ?k = k" using assms(5) by (intro unat_u32_of_nat) simp
  have sum: "unat (heap_size s + ?k) = unat (heap_size s) + k" using assms(2,5) k by (subst unat_u32_add) auto
  show ?thesis
  proof (cases "0x4000000 < unat (heap_size s) + k")
    case True
    then have "0x4000000 < heap_size s + ?k" using sum by (simp add: word_less_nat_alt)
    then show ?thesis using no [of s] assms(1) by (simp add: expand_heap_def)
  next
    case False
    define pn where "pn = (?k + 4096 - 1) div 4096"
    have e: "?k + 4096 - 1 = ?k + 4095" by simp
    have u: "unat (?k + 4095) = k + 4095" using False k by (subst unat_u32_add) auto
    have pn: "unat pn = (k + 4095) div 4096" unfolding pn_def e unat_div u by simp
    obtain ok s1 where m: "heap_map_pages (0x400000 + heap_size s) 0 (unat pn) s = (ok, s1)" by (rule prod.exhaust)
    note f = heap_map_pages_frame [OF assms(1), of "0x400000 + heap_size s" 0 "unat pn"]
      heap_map_pages_fields [OF assms(1), of "0x400000 + heap_size s" 0 "unat pn"]
    have lim: "unat (heap_size s) + 4096 * unat pn \<le> 0x4000000"
    proof -
      obtain h where h: "unat (heap_size s) = 4096 * h" using assms(3) by (elim dvdE)
      have "(k + 4095) div 4096 \<le> (4096 * (16384 - h) + 4095) div 4096"
        using False h by (intro div_le_mono) simp
      then have "(k + 4095) div 4096 \<le> 16384 - h" by simp
      then show ?thesis using h assms(2) unfolding pn by linarith
    qed
    have mul: "unat (pn * 4096) = 4096 * unat pn" using lim by (subst unat_u32_mult) auto
    have hs: "unat (heap_size s1 + pn * 4096) = unat (heap_size s) + 4096 * unat pn"
      using f m lim mul by (subst unat_u32_add) auto
    have nlt: "\<not> 0x4000000 < heap_size s + ?k" using False sum by (simp add: word_less_nat_alt)
    have ex: "expand_heap ?k s = (if ok then (True, s1\<lparr>heap_size := heap_size s1 + pn * 4096\<rparr>) else (False, s1))"
      unfolding expand_heap_def Let_def pn_def [symmetric] m using nlt by simp
    show ?thesis
    proof (cases ok)
      case True
      show ?thesis
        by (rule yes [of "s1\<lparr>heap_size := heap_size s1 + pn * 4096\<rparr>"])
          (use True ex m f hs lim pn in simp_all)
    next
      case False
      show ?thesis by (rule no [of s1]) (use False ex m f in simp_all)
    qed
  qed
qed

section \<open>Refinement of the operations\<close>

definition align4 :: "nat \<Rightarrow> nat" where
  "align4 n = 4 * ((n + 3) div 4)"

lemma align4_bounds: "n \<le> align4 n" "align4 n < n + 4" "4 dvd align4 n"
  unfolding align4_def by linarith+ (rule dvd_triv_left)

lemma align4_word:
  fixes n :: u32
  assumes "unat n \<le> 0xF0000000"
  shows "(n + 3) AND NOT 3 = word_of_nat (align4 (unat n))"
proof -
  have split: "x AND NOT 3 = x - (x AND 3)" for x :: u32
  proof -
    have "x = (x AND 3) OR (x AND NOT 3)" by (simp add: bit_eq_iff bit_simps) blast
    moreover have "(x AND 3) OR (x AND NOT 3) = (x AND 3) + (x AND NOT 3)"
      by (rule disjunctive_add_eq_or [symmetric]) (auto simp: bit_eq_iff bit_simps)
    ultimately show ?thesis by (metis add_diff_cancel_left')
  qed
  have s: "unat (n + 3) = unat n + 3" using assms by (subst unat_u32_add) auto
  have "unat ((n + 3) - ((n + 3) AND 3)) = unat (n + 3) - unat ((n + 3) AND 3)"
    by (rule unat_sub) (simp add: word_le_nat_alt word_quarter)
  then have "unat ((n + 3) AND NOT 3) = align4 (unat n)"
    unfolding split word_quarter s align4_def by (simp add: minus_mod_eq_mult_div)
  then show ?thesis by (metis u32_of_nat_unat)
qed

lemma heap_rel_dvd_tot: "\<forall>b \<in> set bs. 4 dvd fst b \<Longrightarrow> 4 dvd tot bs"
  by (induction bs rule: tot.induct) auto

lemma live_aligned: "(q, n) \<in> live a bs \<Longrightarrow> \<forall>b \<in> set bs. 4 dvd fst b \<Longrightarrow> 4 dvd a \<Longrightarrow> 4 dvd q \<and> 4 dvd n"
  by (induction a bs rule: live.induct) (auto split: if_splits)

lemma coalesce_dvd: "\<forall>b \<in> set bs. 4 dvd fst b \<Longrightarrow> \<forall>b \<in> set (coalesce bs). 4 dvd fst b"
  by (induction bs rule: coalesce.induct) auto

text \<open>\<open>kfree\<close> of an allocation in use marks its block and coalesces.\<close>

lemma kfree_refines:
  assumes rel: "heap_rel s bs" and p: "(unat ptr, n) \<in> live 0x400000 bs"
  shows "heap_rel (kfree ptr s) (coalesce (mark_free (unat ptr - 16) 0x400000 bs)) \<and>
    same_outside (header_addrs 0x400000 bs) (vmem s) (vmem (kfree ptr s)) \<and>
    heap_state.more (kfree ptr s) = heap_state.more s \<and> heap_size (kfree ptr s) = heap_size s \<and>
    kfree ptr (kfree ptr s) = kfree ptr s"
proof -
  obtain xs ys where bs: "bs = xs @ (n, False) # ys" and ptr: "unat ptr = 0x400000 + tot xs + 16"
    using live_exD [OF p] by blast
  let ?A = "word_of_nat (0x400000 + tot xs) :: u32"
  have lim: "0x400000 + tot bs < 4294967296" by (rule heap_rel_limit [OF rel])
  have rep: "rep (vmem s) False 0 0x400000 bs" using rel by (simp add: heap_rel_def)
  have nz: "ptr \<noteq> 0" using ptr by auto
  have blk: "ptr - 16 = ?A"
    using ptr by (metis add_diff_cancel_right' of_nat_add of_nat_numeral u32_of_nat_unat)
  have f: "hb_free (hdr (vmem s) ?A) = 0" using rep unfolding bs rep_focus by (simp add: flag_def del: of_nat_add)
  define m where "m = set_free ?A 1 (vmem s)"
  have one: "1 = flag True" by (simp add: flag_def)
  have m: "rep m False 0 0x400000 (xs @ (n, True) # ys)"
    "same_outside (header_addrs 0x400000 (xs @ (n, True) # ys)) (vmem s) m"
    using rep_set_free [OF rep [unfolded bs] lim [unfolded bs], of True] unfolding m_def one by simp_all
  have lim2: "0x400000 + tot (xs @ (n, True) # ys) < 4294967296" using lim bs by simp
  have mg: "rep (merge_blocks ?A m) False 0 0x400000 (join_prev xs (join_next n ys))"
    "same_outside (header_addrs 0x400000 (xs @ (n, True) # ys)) m (merge_blocks ?A m)"
    "hb_free (hdr (merge_blocks ?A m) ?A) \<noteq> 0"
    using merge_blocks_rep [OF m(1) lim2] by simp_all
  have k: "kfree ptr s = s\<lparr>heap_used := heap_used s - hb_size (hdr m ?A), vmem := merge_blocks ?A m\<rparr>"
    using nz f unfolding kfree_def Let_def blk m_def by (simp del: of_nat_add)
  have H: "header_addrs 0x400000 (xs @ (n, True) # ys) = header_addrs 0x400000 bs" by (simp add: bs)
  have mark: "mark_free (unat ptr - 16) 0x400000 bs = xs @ (n, True) # ys"
    unfolding bs using mark_free_at [of "0x400000" xs n False ys] ptr by simp
  have "packed bs" and dv: "\<forall>b \<in> set bs. 4 dvd fst b" using rel by (auto simp: heap_rel_def)
  then have co: "coalesce (xs @ (n, True) # ys) = join_prev xs (join_next n ys)" using coalesce_free by (simp add: bs)
  have "\<forall>b \<in> set (coalesce (xs @ (n, True) # ys)). 4 dvd fst b"
    by (rule coalesce_dvd) (use dv bs in auto)
  moreover have "tot (coalesce (xs @ (n, True) # ys)) = tot bs" "coalesce (xs @ (n, True) # ys) \<noteq> []"
    by (simp_all add: coalesce_tot bs coalesce_hd)
  moreover have "kfree ptr (kfree ptr s) = kfree ptr s"
    unfolding kfree_def [of ptr "kfree ptr s"] Let_def blk using mg(3) k nz by simp
  ultimately show ?thesis
    using rel mg m(2) same_outside_trans [OF m(2) mg(2)] coalesce_is_packed [of "xs @ (n, True) # ys"]
    unfolding k mark H heap_rel_def co by simp
qed

lemma kmalloc_take_refines:
  assumes rep: "rep (vmem s) False 0 a (xs @ (n, True) # ys)" and k: "k \<le> n" and a: "0 < a"
    and lim: "a + tot (xs @ (n, True) # ys) < 4294967296"
  shows "\<exists>m u. kmalloc_take (word_of_nat (a + tot xs)) (word_of_nat k) s =
      (word_of_nat (a + tot xs + 16), s\<lparr>vmem := m, heap_used := u\<rparr>) \<and>
    rep m False 0 a (xs @ take_block k n @ ys) \<and>
    same_outside (header_addrs a (xs @ take_block k n @ ys)) (vmem s) m"
proof -
  let ?A = "word_of_nat (a + tot xs) :: u32"
  define m1 where "m1 = split_block ?A (word_of_nat k) (vmem s)"
  have z: "0 = flag False" by (simp add: flag_def)
  have "rep (set_free ?A 0 m1) False 0 a (xs @ take_block k n @ ys) \<and>
    same_outside (header_addrs a (xs @ take_block k n @ ys)) (vmem s) (set_free ?A 0 m1)"
  proof (cases "k + 20 \<le> n")
    case True
    note r = split_block_rep [OF rep lim True _ a]
    have l: "a + tot (xs @ (k, True) # (n - k - 16, True) # ys) < 4294967296" using lim True by simp
    show ?thesis
      using r rep_set_free [OF r(1) l, of False] True same_outside_trans [OF r(2)]
      unfolding m1_def z take_block_def by simp
  next
    case False
    have "hb_size (hdr (vmem s) ?A) - word_of_nat k = word_of_nat (n - k)"
      using rep k unfolding rep_focus by (simp del: of_nat_add)
    moreover have "\<not> (word_of_nat 20 :: u32) \<le> word_of_nat (n - k)"
      using False k by (subst u32_nat_le) simp_all
    ultimately have "m1 = vmem s" unfolding m1_def split_block_def by simp
    then show ?thesis
      using rep_set_free [OF rep lim, of False] False unfolding z take_block_def by simp
  qed
  then show ?thesis unfolding kmalloc_take_def m1_def by auto
qed

lemma take_block_props:
  assumes "k \<le> n"
  shows "tot (take_block k n) = 16 + n" "take_block k n \<noteq> []" "\<not> snd (hd (take_block k n))"
    "packed (take_block k n)" "4 dvd k \<Longrightarrow> 4 dvd n \<Longrightarrow> \<forall>b \<in> set (take_block k n). 4 dvd fst b"
  using assms by (auto simp: take_block_def)

lemma packed_take:
  assumes "packed (xs @ (n, True) # ys)" and "k \<le> n"
  shows "packed (xs @ take_block k n @ ys)"
  using assms take_block_props(2-4) [OF assms(2)] by (auto simp: packed_append packed_Cons)

lemma heap_rel_take:
  assumes "heap_rel s (xs @ (n, True) # ys)" and "k \<le> n" and "4 dvd k"
  shows "\<exists>p s'. kmalloc_take (word_of_nat (0x400000 + tot xs)) (word_of_nat k) s = (p, s') \<and>
    unat p = 0x400000 + tot xs + 16 \<and> heap_rel s' (xs @ take_block k n @ ys) \<and>
    heap_state.more s' = heap_state.more s \<and>
    same_outside (header_addrs 0x400000 (xs @ take_block k n @ ys)) (vmem s) (vmem s')"
proof -
  have lim: "0x400000 + tot (xs @ (n, True) # ys) < 4294967296" by (rule heap_rel_limit [OF assms(1)])
  have rep: "rep (vmem s) False 0 0x400000 (xs @ (n, True) # ys)" using assms(1) by (simp add: heap_rel_def)
  obtain m u where t: "kmalloc_take (word_of_nat (0x400000 + tot xs)) (word_of_nat k) s =
      (word_of_nat (0x400000 + tot xs + 16), s\<lparr>vmem := m, heap_used := u\<rparr>)"
    and r: "rep m False 0 0x400000 (xs @ take_block k n @ ys)"
    and o: "same_outside (header_addrs 0x400000 (xs @ take_block k n @ ys)) (vmem s) m"
    using kmalloc_take_refines [OF rep assms(2) _ lim] by auto
  have "unat (word_of_nat (0x400000 + tot xs + 16) :: u32) = 0x400000 + tot xs + 16"
    by (rule unat_u32_of_nat) (use lim in simp)
  moreover have "heap_rel (s\<lparr>vmem := m, heap_used := u\<rparr>) (xs @ take_block k n @ ys)"
    using assms r packed_take [of xs n ys k] take_block_props [OF assms(2)] unfolding heap_rel_def by auto
  ultimately show ?thesis using t o by (auto simp del: of_nat_add)
qed

lemma first_fit_prefix: "first_fit k a (xs @ ys) = None \<Longrightarrow> first_fit k a xs = None"
  by (induction k a xs rule: first_fit.induct) (auto split: if_splits)

lemma amalloc_agrow:
  assumes "first_fit k a bs = None" and "bs \<noteq> []"
  shows "\<exists>xs n. agrow k bs = xs @ [(n, True)] \<and> k \<le> n \<and>
    amalloc k a (agrow k bs) = Some (a + tot xs + 16, xs @ take_block k n)"
proof (cases "snd (last bs)")
  case True
  have "first_fit k a (butlast bs) = None"
    using assms first_fit_prefix [of k a "butlast bs" "[last bs]"] by simp
  then show ?thesis
    using True amalloc_fit [of k a "butlast bs" "fst (last bs) + k + 16" "[]"] by (auto simp: agrow_def)
next
  case False
  then show ?thesis using amalloc_fit [OF assms(1), of k "[]"] by (auto simp: agrow_def)
qed

lemma heap_rel_grow:
  assumes rel: "heap_rel s bs" and room: "tot bs + k + 16 \<le> unat (heap_size s)" and k: "4 dvd k"
    and nofit: "first_fit k 0x400000 bs = None"
  shows "\<exists>xs n s'. agrow k bs = xs @ [(n, True)] \<and> k \<le> n \<and>
    kmalloc_grow (word_of_nat (k + 16)) s = Some (word_of_nat (0x400000 + tot xs), s') \<and>
    heap_rel s' (agrow k bs) \<and> heap_state.more s' = heap_state.more s \<and>
    same_outside (header_addrs 0x400000 (agrow k bs)) (vmem s) (vmem s')"
proof -
  have bs: "bs \<noteq> []" and rep: "rep (vmem s) False 0 0x400000 bs" and hs: "heap_start s = word_of_nat 0x400000"
    and sz: "unat (heap_size s) \<le> 0x4000000"
    using rel by (auto simp: heap_rel_def)
  obtain zs n0 f where z: "bs = zs @ [(n0, f)]" using bs by (metis append_butlast_last_id prod.collapse)
  let ?A = "word_of_nat (0x400000 + tot zs) :: u32"
  have lim: "0x400000 + tot bs < 4294967296" by (rule heap_rel_limit [OF rel])
  have h: "hdr (vmem s) ?A = \<lparr>hb_size = word_of_nat n0, hb_free = flag f, hb_next = 0,
      hb_prev = word_of_nat (last_addr 0 0x400000 zs)\<rparr>"
    using rep unfolding z rep_focus by simp
  have last: "last_block (vmem s) (heap_start s) = Some ?A"
    unfolding hs using last_block_rep [OF rep lim bs] by (simp add: z)
  show ?thesis
  proof (cases f)
    case True
    define m where "m = set_size ?A (word_of_nat (n0 + k + 16)) (vmem s)"
    note r = rep_set_size_last [OF rep [unfolded z] lim [unfolded z], of "n0 + k + 16", folded m_def]
    have g: "agrow k bs = zs @ [(n0 + k + 16, True)]" using True by (simp add: agrow_def z)
    have "word_of_nat n0 + word_of_nat (k + 16) = (word_of_nat (n0 + k + 16) :: u32)" by (simp add: add.assoc)
    then have "kmalloc_grow (word_of_nat (k + 16)) s = Some (?A, s\<lparr>vmem := m\<rparr>)"
      unfolding kmalloc_grow_def last m_def using True by (simp add: h flag_def del: of_nat_add)
    moreover have "heap_rel (s\<lparr>vmem := m\<rparr>) (agrow k bs)"
      using rel r room k True unfolding g heap_rel_def by (auto simp: z packed_append)
    ultimately show ?thesis
      using r(2) True unfolding g by (intro exI [of _ zs] exI [of _ "n0 + k + 16"] exI [of _ "s\<lparr>vmem := m\<rparr>"]) auto
  next
    case False
    let ?N = "word_of_nat (0x400000 + tot zs + 16 + n0) :: u32"
    define m where "m = set_next ?A ?N (set_prev ?N ?A (set_next ?N 0 (set_free ?N 1 (set_size ?N (word_of_nat k) (vmem s)))))"
    have l: "0x400000 + tot (zs @ [(n0, f)]) + 16 + k < 4294967296" using room sz by (simp add: z)
    note r = rep_add_block [OF rep [unfolded z] l, folded m_def]
    have g: "agrow k bs = bs @ [(k, True)]" using False by (simp add: agrow_def z)
    have N: "?A + 16 + word_of_nat n0 = ?N" by (simp add: add.assoc)
    have "word_of_nat (k + 16) - 16 = (word_of_nat k :: u32)" by simp
    then have "kmalloc_grow (word_of_nat (k + 16)) s = Some (?N, s\<lparr>vmem := m\<rparr>)"
      unfolding kmalloc_grow_def last m_def using False N by (simp add: h flag_def Let_def del: of_nat_add)
    moreover have "heap_rel (s\<lparr>vmem := m\<rparr>) (agrow k bs)"
      using rel r room k False unfolding g heap_rel_def by (auto simp: z packed_append)
    ultimately show ?thesis
      using r(2) False unfolding g by (intro exI [of _ bs] exI [of _ k] exI [of _ "s\<lparr>vmem := m\<rparr>"]) (auto simp: z add.assoc)
  qed
qed

text \<open>What an allocation of \<open>k\<close> bytes does to the abstract heap, with the memory outside headers
  unchanged.\<close>

definition allocated :: "nat \<Rightarrow> blocks \<Rightarrow> 'a heap_state_scheme \<Rightarrow> u32 \<Rightarrow> 'a heap_state_scheme \<Rightarrow> bool" where
  "allocated k bs s p s' \<longleftrightarrow>
     (\<exists>bs'. amalloc k 0x400000 bs = Some (unat p, bs') \<and> heap_rel s' bs' \<and>
        same_outside (header_addrs 0x400000 bs') (vmem s) (vmem s'))"

lemma heap_rel_extend:
  "heap_rel s bs \<Longrightarrow> paging_inv s' \<Longrightarrow> vmem s' = vmem s \<Longrightarrow> heap_start s' = heap_start s \<Longrightarrow>
     unat (heap_size s) \<le> unat (heap_size s') \<Longrightarrow> unat (heap_size s') \<le> 0x4000000 \<Longrightarrow>
     4096 dvd unat (heap_size s') \<Longrightarrow> heap_rel s' bs"
  by (simp add: heap_rel_def)

lemma kmalloc_refines:
  assumes rel: "heap_rel s bs" and n: "n \<noteq> 0" "unat n \<le> 0xF0000000"
  defines "k \<equiv> align4 (unat n)"
  shows "\<exists>p s'. kmalloc n s = Some (p, s') \<and> heap_state.more s' = heap_state.more s \<and>
    (if first_fit k 0x400000 bs \<noteq> None then allocated k bs s p s'
     else p = 0 \<and> heap_rel s' bs \<and> vmem s' = vmem s \<or> allocated k (agrow k bs) s p s')"
proof -
  have k: "k < 0xF0000004" "4 dvd k" "0 < k"
    using align4_bounds [of "unat n"] n unat_gt_0 [of n] by (auto simp: k_def)
  have sz: "(n + 3) AND NOT 3 = word_of_nat k" unfolding k_def by (rule align4_word [OF n(2)])
  have lim: "0x400000 + tot bs < 4294967296" by (rule heap_rel_limit [OF rel])
  have hs: "heap_start s = word_of_nat 0x400000" "bs \<noteq> []" using rel by (auto simp: heap_rel_def)
  have find: "find_free_block (word_of_nat k) s =
      Some (case first_fit k 0x400000 bs of None \<Rightarrow> 0 | Some c \<Rightarrow> word_of_nat c)"
    using find_free_loop_rep [of "vmem s" 0 "0x400000" bs k] rel k lim hs
    by (simp add: find_free_block_def heap_rel_def)
  show ?thesis
  proof (cases "first_fit k 0x400000 bs")
    case (Some c)
    then obtain xs m ys where b: "bs = xs @ (m, True) # ys" "c = 0x400000 + tot xs" "k \<le> m"
        "first_fit k 0x400000 xs = None" using first_fit_SomeD by blast
    have "(word_of_nat c :: u32) \<noteq> 0" using lim by (subst u32_nat_eq_0) (simp_all add: b)
    then have "kmalloc n s = Some (kmalloc_take (word_of_nat c) (word_of_nat k) s)"
      using n find Some unfolding kmalloc_def Let_def sz by simp
    then show ?thesis
      using heap_rel_take [OF rel [unfolded b(1)] b(3) k(2)] Some amalloc_fit [OF b(4,3), of ys]
      unfolding allocated_def b(2) b(1) [symmetric] by (auto simp del: of_nat_add)
  next
    case None
    have e: "word_of_nat k + 16 = (word_of_nat (k + 16) :: u32)" by simp
    have pre: "paging_inv s" "unat (heap_size s) \<le> 0x4000000" "4096 dvd unat (heap_size s)"
        "0 < k + 16" "k + 16 \<le> 0xF0000010" using rel k by (auto simp: heap_rel_def elim!: dvdE)
    show ?thesis
    proof (cases rule: expand_heap_cases [OF pre])
      case (1 s1)
      then have "kmalloc n s = Some (0, s1)" using n find None unfolding kmalloc_def Let_def sz e by simp
      then show ?thesis using 1 heap_rel_extend [OF rel, of s1] None pre by (auto simp: heap_rel_def)
    next
      case (2 s1)
      have rel1: "heap_rel s1 bs"
        by (rule heap_rel_extend [OF rel]) (use 2 pre(3) in auto)
      have "k + 16 \<le> 4096 * ((k + 16 + 4095) div 4096)" by linarith
      then have room: "tot bs + k + 16 \<le> unat (heap_size s1)" using rel 2(5) by (simp add: heap_rel_def)
      obtain xs m s2 where g: "agrow k bs = xs @ [(m, True)]" "k \<le> m" "heap_rel s2 (agrow k bs)"
          "kmalloc_grow (word_of_nat (k + 16)) s1 = Some (word_of_nat (0x400000 + tot xs), s2)"
          "heap_state.more s2 = heap_state.more s1"
          "same_outside (header_addrs 0x400000 (agrow k bs)) (vmem s1) (vmem s2)"
        using heap_rel_grow [OF rel1 room k(2) None] by blast
      then have km: "kmalloc n s = Some (kmalloc_take (word_of_nat (0x400000 + tot xs)) (word_of_nat k) s2)"
        using n find None 2 unfolding kmalloc_def Let_def sz e by (simp del: of_nat_add)
      have a: "amalloc k 0x400000 (agrow k bs) = Some (0x400000 + tot xs + 16, xs @ take_block k m)"
        using amalloc_agrow [OF None hs(2)] g(1) by auto
      have sub: "header_addrs 0x400000 (agrow k bs) \<subseteq> header_addrs 0x400000 (xs @ take_block k m)"
        unfolding g(1) by (auto simp: take_block_def)
      have "\<exists>p s'. kmalloc_take (word_of_nat (0x400000 + tot xs)) (word_of_nat k) s2 = (p, s') \<and>
          unat p = 0x400000 + tot xs + 16 \<and> heap_rel s' (xs @ take_block k m) \<and>
          heap_state.more s' = heap_state.more s2 \<and>
          same_outside (header_addrs 0x400000 (xs @ take_block k m)) (vmem s2) (vmem s')"
        using heap_rel_take [of s2 xs m "[]" k] g k(2) by simp
      then obtain p s' where t: "kmalloc_take (word_of_nat (0x400000 + tot xs)) (word_of_nat k) s2 = (p, s')"
          "unat p = 0x400000 + tot xs + 16" "heap_rel s' (xs @ take_block k m)"
          "heap_state.more s' = heap_state.more s2"
          "same_outside (header_addrs 0x400000 (xs @ take_block k m)) (vmem s2) (vmem s')" by blast
      have "same_outside (header_addrs 0x400000 (xs @ take_block k m)) (vmem s) (vmem s')"
        using same_outside_trans [OF same_outside_mono [OF g(6) sub] t(5)] 2(3) by simp
      then have "allocated k (agrow k bs) s p s'" using a t by (auto simp: allocated_def)
      then show ?thesis using km t 2 g(5) None by simp
    qed
  qed
qed

lemma kmalloc_total:
  fixes s :: "'a heap_state_scheme"
  assumes rel: "heap_rel s bs"
  shows "\<exists>p s'. kmalloc n s = Some (p, s') \<and> heap_state.more s' = heap_state.more s"
proof -
  let ?k = "(n + 3) AND NOT 3"
  have lim: "0x400000 + tot bs < 4294967296" by (rule heap_rel_limit [OF rel])
  have h: "heap_start s = word_of_nat 0x400000" "bs \<noteq> []" "rep (vmem s) False 0 0x400000 bs" "paging_inv s" using rel by (auto simp: heap_rel_def)
  obtain block where f: "find_free_block ?k s = Some block"
    using find_free_loop_rep [of "vmem s" 0 "0x400000" bs "unat ?k"] h lim by (auto simp: find_free_block_def)
  obtain lb where l: "last_block (vmem s) (heap_start s) = Some lb" using last_block_rep [OF h(3) lim h(2)] h(1) by auto
  obtain ok s1 where e: "expand_heap (?k + sizeof_heap_block) s = (ok, s1)" by fastforce
  have "paging_state.more (snd (heap_map_pages b 0 m s)) = paging_state.more s" for b m using heap_map_pages_frame [OF h(4)] by blast
  then have "heap_state.more s1 = heap_state.more s \<and> vmem s1 = vmem s \<and> heap_start s1 = heap_start s"
    using e heap_fields_more [of "snd (heap_map_pages (HEAP_START + heap_size s) 0 (unat ((?k + sizeof_heap_block + PAGE_SIZE - 1) div PAGE_SIZE)) s)" s]
    by (auto simp: expand_heap_def Let_def split_beta split: if_splits)
  then show ?thesis using f l e by (cases "block = 0") (auto simp: kmalloc_def kmalloc_take_def kmalloc_grow_def Let_def)
qed

section \<open>Allocations in use\<close>

text \<open>The bytes of the given payloads are the same in both memories.\<close>

definition keeps :: "(nat \<times> nat) set \<Rightarrow> mem \<Rightarrow> mem \<Rightarrow> bool" where
  "keeps U m m' \<longleftrightarrow> (\<forall>(p, n) \<in> U. \<forall>i < n. m' (word_of_nat (p + i)) = m (word_of_nat (p + i)))"

lemma keeps_refl [simp]: "keeps U m m"
  by (simp add: keeps_def)

lemma keeps_trans: "keeps U m m' \<Longrightarrow> keeps V m' m'' \<Longrightarrow> U \<subseteq> V \<Longrightarrow> keeps U m m''"
  unfolding keeps_def by fastforce

lemma keeps_mono: "keeps U m m' \<Longrightarrow> V \<subseteq> U \<Longrightarrow> keeps V m m'"
  unfolding keeps_def by blast

lemma same_outside_keeps:
  assumes "same_outside (header_addrs a bs) m m'" and "U \<subseteq> live a bs" and "a + tot bs < 4294967296"
  shows "keeps U m m'"
  unfolding keeps_def
proof (clarify)
  fix p n i assume "(p, n) \<in> U" "i < n"
  then have l: "(p, n) \<in> live a bs" using assms(2) by auto
  have "p + i < 4294967296" using live_range [OF l] \<open>i < n\<close> assms(3) by simp
  moreover have "\<forall>h \<in> header_addrs a bs. p + i < h \<or> h + 16 \<le> p + i"
    using live_headers [OF l] \<open>i < n\<close> by force
  ultimately show "m' (word_of_nat (p + i)) = m (word_of_nat (p + i))"
    using assms(1) unfolding same_outside_def by blast
qed

lemma live_take:
  assumes "k \<le> n"
  shows "\<exists>j. k \<le> j \<and> j < k + 20 \<and> live a (take_block k n @ bs) = insert (a + 16, j) (live (a + 16 + n) bs)"
proof (cases "k + 20 \<le> n")
  case True
  then have "a + 16 + k + 16 + (n - k - 16) = a + 16 + n" by simp
  then show ?thesis using True by (intro exI [of _ k]) (simp add: take_block_def add.left_commute add.commute)
next
  case False
  then show ?thesis using assms by (intro exI [of _ n]) (simp add: take_block_def)
qed

lemma amalloc_live:
  "amalloc k a bs = Some (q, bs') \<Longrightarrow>
     \<exists>n. k \<le> n \<and> n < k + 20 \<and> live a bs' = insert (q, n) (live a bs) \<and> q \<notin> fst ` live a bs"
proof (induction k a bs arbitrary: q bs' rule: amalloc.induct)
  case (2 k a n f bs)
  show ?case
  proof (cases "f \<and> k \<le> n")
    case True
    then have "q = a + 16" "bs' = take_block k n @ bs" "live a ((n, f) # bs) = live (a + 16 + n) bs"
      using 2(2) by auto
    moreover have "a + 16 \<notin> fst ` live (a + 16 + n) bs" using live_range by fastforce
    ultimately show ?thesis using live_take [of k n a bs] True by auto
  next
    case False
    then obtain bs'' where "amalloc k (a + 16 + n) bs = Some (q, bs'')" "bs' = (n, f) # bs''"
      using 2(2) by (auto split: if_splits)
    moreover from this obtain j where "k \<le> j" "j < k + 20"
        "live (a + 16 + n) bs'' = insert (q, j) (live (a + 16 + n) bs)" "q \<notin> fst ` live (a + 16 + n) bs"
      using 2(1) [OF False] by blast
    moreover have "q \<noteq> a + 16"
      using live_range [of q j "a + 16 + n" bs''] calculation by simp
    ultimately show ?thesis by (intro exI [of _ j]) auto
  qed
qed simp

lemma agrow_live: "bs \<noteq> [] \<Longrightarrow> live a (agrow k bs) = live a bs"
proof -
  assume "bs \<noteq> []"
  then obtain xs n f where "bs = xs @ [(n, f)]" by (metis append_butlast_last_id prod.collapse)
  then show ?thesis by (auto simp: agrow_def live_append)
qed

lemma kmalloc_result:
  assumes rel: "heap_rel s bs" and n: "n \<noteq> 0" "unat n \<le> 0xF0000000"
  shows "\<exists>p s' bs'. kmalloc n s = Some (p, s') \<and> heap_state.more s' = heap_state.more s \<and>
    heap_rel s' bs' \<and> keeps (live 0x400000 bs) (vmem s) (vmem s') \<and>
    (p = 0 \<and> live 0x400000 bs' = live 0x400000 bs \<or>
     (\<exists>m. unat n \<le> m \<and> m < unat n + 24 \<and> live 0x400000 bs' = insert (unat p, m) (live 0x400000 bs) \<and>
        unat p \<notin> fst ` live 0x400000 bs))"
proof -
  let ?k = "align4 (unat n)"
  have fin: "heap_rel s' bs' \<and> keeps (live 0x400000 bs) (vmem s) (vmem s') \<and>
      (\<exists>m. unat n \<le> m \<and> m < unat n + 24 \<and> live 0x400000 bs' = insert (unat p, m) (live 0x400000 bs) \<and>
        unat p \<notin> fst ` live 0x400000 bs)"
    if am: "amalloc ?k 0x400000 cs = Some (unat p, bs')" and lv: "live 0x400000 cs = live 0x400000 bs"
      and rl: "heap_rel s' bs'" and so: "same_outside (header_addrs 0x400000 bs') (vmem s) (vmem s')" for p s' cs bs'
  proof -
    obtain m where m: "?k \<le> m" "m < ?k + 20" "live 0x400000 bs' = insert (unat p, m) (live 0x400000 bs)"
        "unat p \<notin> fst ` live 0x400000 bs" using amalloc_live [OF am] lv by auto
    have "keeps (live 0x400000 bs) (vmem s) (vmem s')"
      using same_outside_keeps [OF so] m(3) heap_rel_limit [OF rl] by blast
    moreover have "unat n \<le> m" "m < unat n + 24" using m(1,2) align4_bounds [of "unat n"] by linarith+
    ultimately show ?thesis using m(3,4) rl by blast
  qed
  obtain p s' where k: "kmalloc n s = Some (p, s')" "heap_state.more s' = heap_state.more s"
    "if first_fit ?k 0x400000 bs \<noteq> None then allocated ?k bs s p s'
     else p = 0 \<and> heap_rel s' bs \<and> vmem s' = vmem s \<or> allocated ?k (agrow ?k bs) s p s'"
    using kmalloc_refines [OF assms] by blast
  have ne: "bs \<noteq> []" using rel by (simp add: heap_rel_def)
  consider "p = 0 \<and> heap_rel s' bs \<and> vmem s' = vmem s"
    | cs where "allocated ?k cs s p s'" "live 0x400000 cs = live 0x400000 bs"
    using k(3) agrow_live [OF ne] by (auto split: if_splits)
  then show ?thesis
  proof cases
    case 1
    then show ?thesis using k by auto
  next
    case 2
    then obtain bs' where "amalloc ?k 0x400000 cs = Some (unat p, bs')" "heap_rel s' bs'"
        "same_outside (header_addrs 0x400000 bs') (vmem s) (vmem s')" by (auto simp: allocated_def)
    then show ?thesis using fin [of cs p bs' s'] 2(2) k by blast
  qed
qed

lemma kfree_result:
  assumes rel: "heap_rel s bs" and p: "(unat ptr, n) \<in> live 0x400000 bs"
  shows "\<exists>bs'. heap_rel (kfree ptr s) bs' \<and> live 0x400000 bs' = live 0x400000 bs - {(unat ptr, n)} \<and>
    keeps (live 0x400000 bs) (vmem s) (vmem (kfree ptr s)) \<and>
    heap_state.more (kfree ptr s) = heap_state.more s \<and> kfree ptr (kfree ptr s) = kfree ptr s"
  using kfree_refines [OF assms] live_mark_free [OF p] same_outside_keeps [OF _ order_refl heap_rel_limit [OF rel]]
  by (auto simp: coalesce_live)

text \<open>Writing into a payload in use does not disturb the heap.\<close>

lemma hdr_cong:
  assumes "\<And>i. i < 16 \<Longrightarrow> m' (a + word_of_nat i) = m (a + word_of_nat i)"
  shows "hdr m' a = hdr m a"
  using assms [of 0] assms [of 1] assms [of 2] assms [of 3] assms [of 4] assms [of 5] assms [of 6]
    assms [of 7] assms [of 8] assms [of 9] assms [of 10] assms [of 11] assms [of 12] assms [of 13]
    assms [of 14] assms [of 15]
  by (simp add: hdr_def ld32_def add.assoc)

lemma client_write:
  assumes rel: "heap_rel s bs" and l: "(q, n) \<in> live 0x400000 bs"
    and m: "\<And>x. x < 4294967296 \<Longrightarrow> x < q \<or> q + n \<le> x \<Longrightarrow> m' (word_of_nat x) = vmem s (word_of_nat x)"
  shows "heap_rel (s\<lparr>vmem := m'\<rparr>) bs"
proof -
  have "hdr m' (word_of_nat h) = hdr (vmem s) (word_of_nat h)" if "h \<in> header_addrs 0x400000 bs" for h
  proof (rule hdr_cong)
    fix i :: nat assume "i < 16"
    then have "h + i < 4294967296" "h + i < q \<or> q + n \<le> h + i"
      using live_headers [OF l that] header_addrs_range [OF that] heap_rel_limit [OF rel] by linarith+
    from m [OF this] show "m' (word_of_nat h + word_of_nat i) = vmem s (word_of_nat h + word_of_nat i)" by simp
  qed
  moreover have "rep (vmem s) False 0 0x400000 bs" using rel by (simp add: heap_rel_def)
  ultimately have "rep m' False 0 0x400000 bs" by (rule rep_cong [rotated])
  then show ?thesis using rel by (simp add: heap_rel_def)
qed

lemma live_hdr:
  assumes "heap_rel s bs" and "(q, n) \<in> live 0x400000 bs"
  shows "hb_size (hdr (vmem s) (word_of_nat q - 16)) = word_of_nat n" "hb_free (hdr (vmem s) (word_of_nat q - 16)) = 0"
proof -
  obtain xs ys where b: "bs = xs @ (n, False) # ys" "q = 0x400000 + tot xs + 16" using live_exD [OF assms(2)] by blast
  have "word_of_nat q - 16 = (word_of_nat (0x400000 + tot xs) :: u32)" by (simp add: b)
  then show "hb_size (hdr (vmem s) (word_of_nat q - 16)) = word_of_nat n"
    "hb_free (hdr (vmem s) (word_of_nat q - 16)) = 0"
    using assms(1) unfolding heap_rel_def b(1) rep_focus by (simp_all add: flag_def del: of_nat_add)
qed

end
