(* ===== verification/HeapSpec.thy ===== *)
theory HeapSpec
  imports Heap
begin

text \<open>
  The contract of the kernel heap and its properties: the interface the rest of the kernel uses,
  discharged for the block list of \<open>Heap\<close>; initialisation; reallocation.
\<close>

section \<open>The allocator's interface\<close>

text \<open>A state has a set of allocations in use, pairs of address and size. Allocation adds one that
  is apart from the others or reports failure, release removes one, both keep the contents of
  the others, and writing inside an allocation keeps the allocator intact.\<close>

locale allocator =
  fixes rel :: "'s \<Rightarrow> 'b \<Rightarrow> bool"
    and used :: "'b \<Rightarrow> (nat \<times> nat) set"
    and memory :: "'s \<Rightarrow> mem"
    and put :: "mem \<Rightarrow> 's \<Rightarrow> 's"
    and alloc :: "u32 \<Rightarrow> 's \<Rightarrow> (u32 \<times> 's) option"
    and release :: "u32 \<Rightarrow> 's \<Rightarrow> 's"
  assumes used_apart: "(p, n) \<in> used b \<Longrightarrow> (q, m) \<in> used b \<Longrightarrow> (p, n) = (q, m) \<or> p + n \<le> q \<or> q + m \<le> p"
    and used_bounds: "rel s b \<Longrightarrow> (p, n) \<in> used b \<Longrightarrow> 0 < p \<and> p + n < 4294967296"
    and alloc_result: "rel s b \<Longrightarrow> k \<noteq> 0 \<Longrightarrow> unat k \<le> 0xF0000000 \<Longrightarrow>
      \<exists>p s' b'. alloc k s = Some (p, s') \<and> rel s' b' \<and> keeps (used b) (memory s) (memory s') \<and>
        (p = 0 \<and> used b' = used b \<or>
         (\<exists>n. unat k \<le> n \<and> used b' = insert (unat p, n) (used b) \<and> unat p \<notin> fst ` used b))"
    and release_result: "rel s b \<Longrightarrow> (unat r, n) \<in> used b \<Longrightarrow>
      \<exists>b'. rel (release r s) b' \<and> used b' = used b - {(unat r, n)} \<and>
        keeps (used b) (memory s) (memory (release r s))"
    and write_result: "rel s b \<Longrightarrow> (q, n) \<in> used b \<Longrightarrow>
      (\<And>x. x < 4294967296 \<Longrightarrow> x < q \<or> q + n \<le> x \<Longrightarrow> c (word_of_nat x) = memory s (word_of_nat x)) \<Longrightarrow>
      rel (put c s) b \<and> memory (put c s) = c"
begin

text \<open>Two allocations that both succeed do not overlap, and the first keeps its contents.\<close>

lemma alloc_twice:
  assumes "rel s b" and "k \<noteq> 0" "unat k \<le> 0xF0000000" and "j \<noteq> 0" "unat j \<le> 0xF0000000"
    and "alloc k s = Some (p, s1)" "p \<noteq> 0" and "alloc j s1 = Some (q, s2)" "q \<noteq> 0"
  shows "(unat p + unat k \<le> unat q \<or> unat q + unat j \<le> unat p) \<and>
    (\<forall>i < unat k. memory s2 (word_of_nat (unat p + i)) = memory s1 (word_of_nat (unat p + i)))"
proof -
  obtain b1 n where b1: "rel s1 b1" "unat k \<le> n" "used b1 = insert (unat p, n) (used b)"
    using alloc_result [OF assms(1-3)] assms(6,7) by auto
  obtain b2 m where b2: "rel s2 b2" "unat j \<le> m" "used b2 = insert (unat q, m) (used b1)"
      "unat q \<notin> fst ` used b1" "keeps (used b1) (memory s1) (memory s2)"
    using alloc_result [OF b1(1) assms(4,5)] assms(8,9) by auto
  have "unat p \<noteq> unat q" using b1(3) b2(4) by force
  then have "unat p + n \<le> unat q \<or> unat q + m \<le> unat p"
    using used_apart [of "unat p" n b2 "unat q" m] b1(3) b2(3) by auto
  moreover have "\<forall>i < n. memory s2 (word_of_nat (unat p + i)) = memory s1 (word_of_nat (unat p + i))"
    using b2(5) b1(3) by (auto simp: keeps_def)
  ultimately show ?thesis using b1(2) b2(2) by auto
qed

lemma alloc_release:
  assumes "rel s b" and "k \<noteq> 0" "unat k \<le> 0xF0000000" and "alloc k s = Some (p, s1)" "p \<noteq> 0"
  shows "\<exists>b'. rel (release p s1) b' \<and> used b' = used b \<and> keeps (used b) (memory s) (memory (release p s1))"
proof -
  obtain b1 n where b1: "rel s1 b1" "used b1 = insert (unat p, n) (used b)" "unat p \<notin> fst ` used b"
      "keeps (used b) (memory s) (memory s1)"
    using alloc_result [OF assms(1-3)] assms(4,5) by auto
  obtain b2 where b2: "rel (release p s1) b2" "used b2 = used b1 - {(unat p, n)}"
      "keeps (used b1) (memory s1) (memory (release p s1))"
    using release_result [OF b1(1), of p n] b1(2) by auto
  have "used b2 = used b" using b1(2,3) b2(2) by force
  then show ?thesis using b2 keeps_trans [OF b1(4) b2(3)] b1(2) by blast
qed

end

interpretation heap: allocator heap_rel "live 0x400000" vmem "\<lambda>m. vmem_update (\<lambda>_. m)" kmalloc kfree
proof unfold_locales
  fix s :: "'a heap_state_scheme" and bs k
  assume "heap_rel s bs" "k \<noteq> (0 :: u32)" "unat k \<le> 0xF0000000"
  from kmalloc_result [OF this]
  show "\<exists>p s' b'. kmalloc k s = Some (p, s') \<and> heap_rel s' b' \<and> keeps (live 0x400000 bs) (vmem s) (vmem s') \<and>
      (p = 0 \<and> live 0x400000 b' = live 0x400000 bs \<or>
       (\<exists>n. unat k \<le> n \<and> live 0x400000 b' = insert (unat p, n) (live 0x400000 bs) \<and>
          unat p \<notin> fst ` live 0x400000 bs))" by blast
next
  fix p n q m bs
  assume "(p, n) \<in> live 0x400000 bs" "(q, m) \<in> live 0x400000 bs"
  from live_disjoint [OF this] show "(p, n) = (q, m) \<or> p + n \<le> q \<or> q + m \<le> p" by auto
next
  fix s :: "'a heap_state_scheme" and bs p n
  assume "heap_rel s bs" "(p, n) \<in> live 0x400000 bs"
  then show "0 < p \<and> p + n < 4294967296" using live_range [of p n "0x400000" bs] heap_rel_limit [of s bs] by auto
next
  fix s :: "'a heap_state_scheme" and bs n and p :: u32
  assume "heap_rel s bs" "(unat p, n) \<in> live 0x400000 bs"
  from kfree_result [OF this] show "\<exists>b'. heap_rel (kfree p s) b' \<and>
      live 0x400000 b' = live 0x400000 bs - {(unat p, n)} \<and> keeps (live 0x400000 bs) (vmem s) (vmem (kfree p s))"
    by blast
next
  fix s :: "'a heap_state_scheme" and bs q n and m :: mem
  assume "heap_rel s bs" "(q, n) \<in> live 0x400000 bs"
    "\<And>x. x < 4294967296 \<Longrightarrow> x < q \<or> q + n \<le> x \<Longrightarrow> m (word_of_nat x) = vmem s (word_of_nat x)"
  from client_write [OF this] show "heap_rel (s\<lparr>vmem := m\<rparr>) bs \<and> vmem (s\<lparr>vmem := m\<rparr>) = m" by simp
qed

section \<open>Initialisation\<close>

lemma alloc_page_step:
  assumes inv: "paging_inv s" and card: "2 \<le> card (free_frames s)" and pg: "fl AND 1 \<noteq> 0"
  obtains p s1 where "pmm_alloc_page s = (word_of_nat (4096 * p), s1)" "(word_of_nat (4096 * p) :: u32) \<noteq> 0"
    "paging_inv s1" "aspace s1 = aspace s" "map_ready va s1"
    "card (free_frames s) \<le> card (free_frames (paging_map_page va (word_of_nat (4096 * p)) fl s1)) + 2"
    "paging_inv (paging_map_page va (word_of_nat (4096 * p)) fl s1)"
proof -
  have p: "pmm_inv s" and ne: "free_frames s \<noteq> {}" using inv card by (auto simp: paging_inv_def)
  obtain p s1 where a: "pmm_alloc_page s = (word_of_nat (4096 * p), s1)" "p \<in> free_frames s"
      "free_frames s1 = free_frames s - {p}" using pmm.alloc_some [OF p ne] by blast
  have s1: "paging_inv s1" "aspace s1 = aspace s"
    using paging_inv_alloc [OF inv] aspace_alloc [of s] a(1) by simp_all
  have nz: "(word_of_nat (4096 * p) :: u32) \<noteq> 0" using pmm.alloc_null [OF p] a(1) ne by simp
  have c1: "card (free_frames s1) = card (free_frames s) - 1" using a(2,3) by simp
  then have ne1: "free_frames s1 \<noteq> {}" using card by auto
  have "card (free_frames s1) \<le> card (free_frames (paging_map_page va (word_of_nat (4096 * p)) fl s1)) + 1"
  proof (cases "page_directory s1 ! pd_index va AND 1 = 0")
    case True
    have "Min (free_frames s1) \<in> free_frames s1" using ne1 by simp
    then show ?thesis using map_page_new(3) [OF s1(1) True ne1] by simp
  next
    case False
    then show ?thesis by (simp add: paging_map_page_def)
  qed
  then show ?thesis
    using that [OF a(1) nz s1] ne1 c1 vm.map_inv [OF s1(1)] by (simp add: map_ready_def)
qed

lemma heap_map_pages_ok:
  assumes "paging_inv s" and "2 * n \<le> card (free_frames s)" and "unat base mod 4096 = 0"
    and "unat base + 4096 * (i + n) \<le> 4294967296"
  shows "\<exists>s'. heap_map_pages base i n s = (True, s') \<and>
    (\<forall>v. if unat base div 4096 + i \<le> v \<and> v < unat base div 4096 + i + n
         then aspace s' v \<noteq> None else aspace s' v = aspace s v)"
  using assms
proof (induction n arbitrary: i s)
  case (Suc n)
  let ?va = "base + word_of_nat i * 4096 :: u32"
  have va: "unat ?va div 4096 = unat base div 4096 + i"
  proof -
    have i: "unat (word_of_nat i :: u32) = i" using Suc.prems by (intro unat_u32_of_nat) simp
    then have "unat (word_of_nat i * 4096 :: u32) = i * 4096" using Suc.prems by (subst unat_u32_mult) auto
    then have "unat ?va = unat base + i * 4096" using Suc.prems by (subst unat_u32_add) auto
    then show ?thesis by simp
  qed
  obtain p s1 where a: "pmm_alloc_page s = (word_of_nat (4096 * p), s1)" "(word_of_nat (4096 * p) :: u32) \<noteq> 0"
      "paging_inv s1" "aspace s1 = aspace s" "map_ready ?va s1"
      "card (free_frames s) \<le> card (free_frames (paging_map_page ?va (word_of_nat (4096 * p)) 3 s1)) + 2"
      "paging_inv (paging_map_page ?va (word_of_nat (4096 * p)) 3 s1)"
    by (rule alloc_page_step [of s 3 ?va]) (use Suc.prems in auto)
  let ?s = "paging_map_page ?va (word_of_nat (4096 * p)) 3 s1"
  have card: "2 * n \<le> card (free_frames ?s)" using a(6) Suc.prems(2) by simp
  have room: "unat base + 4096 * (Suc i + n) \<le> 4294967296" using Suc.prems(4) by simp
  obtain s' where s': "heap_map_pages base (Suc i) n ?s = (True, s')"
      "\<forall>v. if unat base div 4096 + Suc i \<le> v \<and> v < unat base div 4096 + Suc i + n
         then aspace s' v \<noteq> None else aspace s' v = aspace ?s v"
    using Suc.IH [OF a(7) card Suc.prems(3) room] by blast
  have e: "entry_of (word_of_nat (4096 * p)) 3 \<noteq> None" by (simp add: entry_of_def present_or)
  have "heap_map_pages base i (Suc n) s = (True, s')" using a(1,2) s'(1) by simp
  moreover have "aspace ?s = (aspace s)(unat base div 4096 + i := entry_of (word_of_nat (4096 * p)) 3)"
    using vm.map_space [OF a(3,5)] a(4) va by simp
  ultimately show ?case
    using s'(2) e by (intro exI [of _ s']) (auto split: if_splits)
qed auto

lemma heap_init_rel:
  assumes inv: "paging_inv s" and card: "512 \<le> card (free_frames s)"
  shows "heap_rel (heap_init s) [(0xFFFF0, True)]"
    and "0x400000 \<le> unat va \<Longrightarrow> unat va < 0x500000 \<Longrightarrow> aspace (heap_init s) (unat va div 4096) \<noteq> None"
proof -
  have pn: "unat ((0x100000 + 4096 - 1) div 4096 :: u32) = 256" by (simp add: unat_div)
  obtain s1 where s1: "heap_map_pages 0x400000 0 256 s = (True, s1)"
      "\<And>v. 1024 \<le> v \<Longrightarrow> v < 1280 \<Longrightarrow> aspace s1 v \<noteq> None"
    using heap_map_pages_ok [OF inv, of 256 "0x400000" 0] card by (auto split: if_splits)
  have i1: "paging_inv s1" using heap_map_pages_frame [OF inv, of "0x400000" 0 256] s1 by simp
  let ?m = "set_prev 0x400000 0 (set_next 0x400000 0 (set_free 0x400000 1 (set_size 0x400000 0xFFFF0 (vmem s1))))"
  have h: "heap_init s = s1\<lparr>heap_size := 0x100000, heap_start := 0x400000, vmem := ?m, heap_used := 0\<rparr>"
    unfolding heap_init_def Let_def pn s1 by simp
  have "rep ?m False 0 0x400000 [(0xFFFF0, True)]" by (simp add: flag_def)
  then show "heap_rel (heap_init s) [(0xFFFF0, True)]"
    unfolding heap_rel_def h using i1 by simp
  show "aspace (heap_init s) (unat va div 4096) \<noteq> None" if "0x400000 \<le> unat va" "unat va < 0x500000"
  proof -
    have "aspace (heap_init s) = aspace s1" unfolding h by (simp add: aspace_def page_entry_def fun_eq_iff)
    moreover have "1024 \<le> unat va div 4096" "unat va div 4096 < 1280"
      using that by linarith+
    ultimately show ?thesis using s1(2) by simp
  qed
qed

section \<open>Reallocation\<close>

lemma memcpy_into:
  assumes "unat p + k \<le> unat q \<or> unat q + k \<le> unat p" and "unat p + k < 4294967296" and "unat q + k < 4294967296"
  shows "i < k \<Longrightarrow> snd (memcpy q p (word_of_nat k) m) (word_of_nat (unat q + i)) = m (word_of_nat (unat p + i))"
    and "x < 4294967296 \<Longrightarrow> x < unat q \<or> unat q + k \<le> x \<Longrightarrow>
      snd (memcpy q p (word_of_nat k) m) (word_of_nat x) = m (word_of_nat x)"
proof -
  have k: "unat (word_of_nat k :: u32) = k" using assms(2) by (intro unat_u32_of_nat) simp
  have ap: "apart q p (word_of_nat k)" using assms unfolding apart_def k by auto
  show "snd (memcpy q p (word_of_nat k) m) (word_of_nat (unat q + i)) = m (word_of_nat (unat p + i))" if "i < k"
    using cpy.copy_inside [OF ap, of i m] that k by simp
  show "snd (memcpy q p (word_of_nat k) m) (word_of_nat x) = m (word_of_nat x)"
    if "x < 4294967296" "x < unat q \<or> unat q + k \<le> x"
    using cpy.copy_outside [OF ap, of "word_of_nat x" m] that k unat_u32_of_nat [OF that(1)] by simp
qed

lemma krealloc_grow:
  assumes rel: "heap_rel s bs" and l: "(unat ptr, n) \<in> live 0x400000 bs"
    and sz: "n < unat sz" "unat sz \<le> 0xF0000000"
  shows "\<exists>p s' bs'. krealloc ptr sz s = Some (p, s') \<and> heap_rel s' bs' \<and>
    (p = 0 \<and> live 0x400000 bs' = live 0x400000 bs \<and> keeps (live 0x400000 bs) (vmem s) (vmem s') \<or>
     (\<exists>m. unat sz \<le> m \<and> live 0x400000 bs' = insert (unat p, m) (live 0x400000 bs - {(unat ptr, n)}) \<and>
        keeps (live 0x400000 bs - {(unat ptr, n)}) (vmem s) (vmem s') \<and>
        (\<forall>i < n. vmem s' (word_of_nat (unat p + i)) = vmem s (word_of_nat (unat ptr + i)))))"
proof -
  have nz: "ptr \<noteq> 0" "sz \<noteq> 0" using heap.used_bounds [OF rel l] sz by auto
  have lt: "n < 4294967296" using sz by simp
  have old: "hb_size (hdr (vmem s) (ptr - 16)) = word_of_nat n" using live_hdr(1) [OF rel l] by simp
  have gt: "\<not> sz \<le> word_of_nat n" using sz(1) unat_u32_of_nat [OF lt] by (simp add: word_le_nat_alt)
  obtain p s1 b1 where k: "kmalloc sz s = Some (p, s1)" "heap_rel s1 b1" "keeps (live 0x400000 bs) (vmem s) (vmem s1)"
      and res: "p = 0 \<and> live 0x400000 b1 = live 0x400000 bs \<or>
        (\<exists>m. unat sz \<le> m \<and> live 0x400000 b1 = insert (unat p, m) (live 0x400000 bs) \<and>
          unat p \<notin> fst ` live 0x400000 bs)"
    using kmalloc_result [OF rel nz(2) sz(2)] by blast
  from res show ?thesis
  proof
    assume "p = 0 \<and> live 0x400000 b1 = live 0x400000 bs"
    then show ?thesis using k nz old gt by (auto simp: krealloc_def Let_def)
  next
    assume "\<exists>m. unat sz \<le> m \<and> live 0x400000 b1 = insert (unat p, m) (live 0x400000 bs) \<and> unat p \<notin> fst ` live 0x400000 bs"
    then obtain m where m: "unat sz \<le> m" "live 0x400000 b1 = insert (unat p, m) (live 0x400000 bs)"
        "unat p \<notin> fst ` live 0x400000 bs" by blast
    have ne: "unat p \<noteq> unat ptr" using m(3) l by force
    have in1: "(unat p, m) \<in> live 0x400000 b1" "(unat ptr, n) \<in> live 0x400000 b1" using m(2) l by auto
    have p0: "p \<noteq> 0" using heap.used_bounds [OF k(2) in1(1)] by auto
    have sep: "unat ptr + n \<le> unat p \<or> unat p + m \<le> unat ptr"
      using heap.used_apart [OF in1] ne by auto
    define m2 where "m2 = snd (memcpy p ptr (word_of_nat n) (vmem s1))"
    have pre: "unat ptr + n \<le> unat p \<or> unat p + n \<le> unat ptr" "unat ptr + n < 4294967296" "unat p + n < 4294967296"
      using sep m(1) sz heap.used_bounds [OF k(2) in1(1)] heap.used_bounds [OF k(2) in1(2)] by auto
    note cp = memcpy_into [OF pre, where m = "vmem s1", folded m2_def]
    have outside: "m2 (word_of_nat x) = vmem s1 (word_of_nat x)"
      if "x < 4294967296" "x < unat p \<or> unat p + m \<le> x" for x
      using cp(2) [OF that(1)] that(2) m(1) sz(1) by auto
    have r2: "heap_rel (s1\<lparr>vmem := m2\<rparr>) b1" using client_write [OF k(2) in1(1) outside] .
    obtain b3 where b3: "heap_rel (kfree ptr (s1\<lparr>vmem := m2\<rparr>)) b3"
        "live 0x400000 b3 = live 0x400000 b1 - {(unat ptr, n)}"
        "keeps (live 0x400000 b1) m2 (vmem (kfree ptr (s1\<lparr>vmem := m2\<rparr>)))"
      using kfree_result [OF r2 in1(2)] by auto
    have kept: "keeps (live 0x400000 bs) (vmem s1) m2"
      unfolding keeps_def
    proof clarify
      fix q j i assume q: "(q, j) \<in> live 0x400000 bs" "i < j"
      then have "(q, j) \<in> live 0x400000 b1" "q \<noteq> unat p" using m(2,3) by force+
      then show "m2 (word_of_nat (q + i)) = vmem s1 (word_of_nat (q + i))"
        using heap.used_apart [OF in1(1), of q j] heap.used_bounds [OF k(2), of q j] q(2)
        by (intro outside) auto
    qed
    have "krealloc ptr sz s = Some (p, kfree ptr (s1\<lparr>vmem := m2\<rparr>))"
      using nz k(1) p0 old gt live_hdr(1) [OF k(2) in1(2)] by (simp add: krealloc_def Let_def m2_def)
    moreover have "live 0x400000 b3 = insert (unat p, m) (live 0x400000 bs - {(unat ptr, n)})"
      using b3(2) m(2) ne by auto
    moreover have "keeps (live 0x400000 bs - {(unat ptr, n)}) (vmem s) (vmem (kfree ptr (s1\<lparr>vmem := m2\<rparr>)))"
      using keeps_trans [OF keeps_trans [OF k(3) kept] b3(3)] m(2) by (auto intro: keeps_mono)
    moreover have "vmem (kfree ptr (s1\<lparr>vmem := m2\<rparr>)) (word_of_nat (unat p + i)) = vmem s (word_of_nat (unat ptr + i))"
      if "i < n" for i
    proof -
      have "vmem (kfree ptr (s1\<lparr>vmem := m2\<rparr>)) (word_of_nat (unat p + i)) = m2 (word_of_nat (unat p + i))"
        using b3(3) in1(1) that m(1) sz(1) unfolding keeps_def by fastforce
      also have "\<dots> = vmem s1 (word_of_nat (unat ptr + i))" by (rule cp(1) [OF that])
      also have "\<dots> = vmem s (word_of_nat (unat ptr + i))" using k(3) l that unfolding keeps_def by fastforce
      finally show ?thesis .
    qed
    ultimately show ?thesis using b3(1) m(1) by blast
  qed
qed

section \<open>Properties\<close>

abbreviation (input) HEAP_BASE :: nat where "HEAP_BASE \<equiv> 0x400000"

text \<open>A machine with 700 frames, of which the first 64 are taken.\<close>

definition heap_example :: heap_state where
  "heap_example = \<lparr>bitmap = replicate 2 0xFFFFFFFF @ replicate 20 0, total_pages = 700, used_pages = 64,
     bitmap_size = 22, page_directory = [], page_tables = (\<lambda>_. []), first_page_table = 0x1000,
     page_directory_addr = 0x2000, cr0 = 0x11, cr3 = 0, vmem = (\<lambda>_. 0), heap_start = 0, heap_size = 0,
     heap_used = 0\<rparr>"

lemma heap_example_frames: "used_frames heap_example = {..<64}" "free_frames heap_example = {64..<700}"
proof -
  have ones: "(0xFFFFFFFF :: u32) = - 1" by simp
  have "page_used heap_example p \<longleftrightarrow> p < 64" if "p < 700" for p
  proof (cases "p < 64")
    case True
    then have "p div 32 < 2" by (simp add: less_mult_imp_div_less)
    then show ?thesis using True unfolding page_used_def heap_example_def ones by (simp add: nth_append)
  next
    case False
    then have "\<not> p div 32 < 2" "p div 32 - 2 < 20" using that by linarith+
    then show ?thesis using False unfolding page_used_def heap_example_def by (simp add: nth_append)
  qed
  then show "used_frames heap_example = {..<64}" "free_frames heap_example = {64..<700}"
    by (auto simp: used_frames_def free_frames_def heap_example_def)
qed

lemma heap_example_inv: "paging_inv (paging_init heap_example)" "card (free_frames (paging_init heap_example)) = 636"
proof -
  have "pmm_shape heap_example" by (simp add: pmm_shape_def heap_example_def)
  moreover have "unat (used_pages heap_example) = 64" by (simp add: heap_example_def)
  ultimately have p: "pmm_inv heap_example" by (simp add: pmm_inv_def pmm_wf_def heap_example_frames)
  have t: "first_page_table heap_example = 0x1000" by (simp add: heap_example_def)
  show "paging_inv (paging_init heap_example)"
    by (rule paging_init_inv [OF p]) (simp_all add: t heap_example_frames)
  show "card (free_frames (paging_init heap_example)) = 636"
    by (simp add: paging_init_fields t heap_example_frames)
qed

lemma heap_example_rel: "heap_rel (heap_init (paging_init heap_example)) [(0xFFFF0, True)]"
  by (rule heap_init_rel [OF heap_example_inv(1)]) (simp add: heap_example_inv(2))

lemma heap_example_kmalloc:
  "\<exists>s'. kmalloc 100 (heap_init (paging_init heap_example)) = Some (0x400010, s') \<and>
     heap_rel s' [(100, False), (0xFFF7C, True)]"
proof -
  have a: "align4 100 = 100" by (simp add: align4_def)
  obtain p s' where k: "kmalloc 100 (heap_init (paging_init heap_example)) = Some (p, s')"
      "allocated 100 [(0xFFFF0, True)] (heap_init (paging_init heap_example)) p s'"
    using kmalloc_refines [OF heap_example_rel, of 100] by (auto simp: a)
  then have "unat p = 0x400010 \<and> heap_rel s' [(100, False), (0xFFF7C, True)]"
    by (auto simp: allocated_def take_block_def)
  moreover from this have "p = 0x400010" by (simp add: u32_eq_unat)
  ultimately show ?thesis using k by blast
qed

text \<open>C4: on a machine with at least 512 free frames \<open>heap_init\<close> establishes the heap: one free block
  that fills the first megabyte from 4 MB on, every page of which is mapped.\<close>

theorem heap_init_correct:
  assumes "paging_inv s" and "512 \<le> card (free_frames s)"
  shows "heap_rel (heap_init s) [(0xFFFF0, True)] \<and>
    (\<forall>va :: u32. 0x400000 \<le> unat va \<and> unat va < 0x500000 \<longrightarrow> aspace (heap_init s) (unat va div 4096) \<noteq> None)"
  using heap_init_rel [OF assms] by blast

theorem heap_init_correct_witness:
  "heap_rel (heap_init (paging_init heap_example)) [(0xFFFF0, True)] \<and>
   aspace (heap_init (paging_init heap_example)) 1025 \<noteq> None"
proof -
  have c: "512 \<le> card (free_frames (paging_init heap_example))" by (simp add: heap_example_inv(2))
  note h = heap_init_correct [OF heap_example_inv(1) c]
  show ?thesis using h [THEN conjunct2, rule_format, of "0x401000"] h [THEN conjunct1] by simp
qed



text \<open>C2: releasing an allocation removes exactly it and keeps the contents of all others and the
  well-formedness of the heap, in which no two neighbouring blocks are both free. Releasing it
  once more right away has no effect.\<close>

theorem kfree_correct:
  assumes "heap_rel s bs" and "(unat ptr, n) \<in> live HEAP_BASE bs"
  shows "(\<exists>bs'. heap_rel (kfree ptr s) bs' \<and> packed bs' \<and> live HEAP_BASE bs' = live HEAP_BASE bs - {(unat ptr, n)}) \<and>
    (\<forall>(q, j) \<in> live HEAP_BASE bs. \<forall>i < j.
       vmem (kfree ptr s) (word_of_nat (q + i)) = vmem s (word_of_nat (q + i))) \<and>
    kfree ptr (kfree ptr s) = kfree ptr s"
  using kfree_result [OF assms] by (auto simp: keeps_def heap_rel_def)

theorem kfree_correct_witness:
  "\<exists>s' bs'. kmalloc 100 (heap_init (paging_init heap_example)) = Some (0x400010, s') \<and>
     heap_rel (kfree 0x400010 s') bs' \<and> live HEAP_BASE bs' = {}"
proof -
  obtain s' where k: "kmalloc 100 (heap_init (paging_init heap_example)) = Some (0x400010, s')"
      "heap_rel s' [(100, False), (0xFFF7C, True)]" using heap_example_kmalloc by blast
  then show ?thesis using kfree_correct [OF k(2), of "0x400010" 100] by auto
qed



lemma first_fit_zero: "(m, True) \<in> set bs \<Longrightarrow> \<exists>c. first_fit 0 a bs = Some c"
  by (induction bs arbitrary: a) auto

text \<open>Requests close to \<open>2 ^ 32\<close> wrap around in the rounding: whenever any block is free, asking
  for the largest three sizes succeeds and returns an allocation of fewer than 20 bytes.\<close>

theorem kmalloc_wraps:
  assumes "heap_rel s bs" and "(m, True) \<in> set bs" and "0xFFFFFFFD \<le> unat n"
  shows "\<exists>p s' bs' j. kmalloc n s = Some (p, s') \<and> p \<noteq> 0 \<and> heap_rel s' bs' \<and>
    (unat p, j) \<in> live HEAP_BASE bs' \<and> j < 20"
proof -
  have "unat n = 0xFFFFFFFD \<or> unat n = 0xFFFFFFFE \<or> unat n = 0xFFFFFFFF"
    using assms(3) unat_u32_less [of n] by linarith
  then have "n = 0xFFFFFFFD \<or> n = 0xFFFFFFFE \<or> n = 0xFFFFFFFF" by (simp add: u32_eq_unat)
  then have sz: "(n + 3) AND NOT 3 = word_of_nat 0" and n: "n \<noteq> 0" by auto
  have lim: "HEAP_BASE + tot bs < 4294967296" by (rule heap_rel_limit [OF assms(1)])
  obtain c where c: "first_fit 0 HEAP_BASE bs = Some c" using first_fit_zero [OF assms(2)] by blast
  then obtain xs k ys where b: "bs = xs @ (k, True) # ys" "c = HEAP_BASE + tot xs" "first_fit 0 HEAP_BASE xs = None"
    using first_fit_SomeD by blast
  have find: "find_free_block (word_of_nat 0) s = Some (word_of_nat c)"
    using find_free_loop_rep [of "vmem s" 0 HEAP_BASE bs 0] assms(1) lim c
    by (simp add: find_free_block_def heap_rel_def del: of_nat_0)
  have "(word_of_nat c :: u32) \<noteq> 0" using lim by (subst u32_nat_eq_0) (simp_all add: b)
  then have km: "kmalloc n s = Some (kmalloc_take (word_of_nat c) (word_of_nat 0) s)"
    using n find unfolding kmalloc_def Let_def sz by simp
  obtain p s' where t: "kmalloc_take (word_of_nat c) (word_of_nat 0) s = (p, s')" "unat p = c + 16"
      "heap_rel s' (xs @ take_block 0 k @ ys)"
    using heap_rel_take [OF assms(1) [unfolded b(1)], of 0] b(2) by auto
  obtain j where "j < 20" "live (HEAP_BASE + tot xs) (take_block 0 k @ ys) = insert (c + 16, j) (live (HEAP_BASE + tot xs + 16 + k) ys)"
    using live_take [of 0 k "HEAP_BASE + tot xs" ys] b(2) by auto
  then have "(unat p, j) \<in> live HEAP_BASE (xs @ take_block 0 k @ ys)" using t(2) by (simp add: live_append)
  moreover have "p \<noteq> 0" using t(2) by auto
  ultimately show ?thesis using km t \<open>j < 20\<close> by auto
qed

theorem kmalloc_wraps_witness:
  "\<exists>p s' bs' j. kmalloc 0xFFFFFFFF (heap_init (paging_init heap_example)) = Some (p, s') \<and> p \<noteq> 0 \<and>
     heap_rel s' bs' \<and> (unat p, j) \<in> live HEAP_BASE bs' \<and> j < 20"
  by (rule kmalloc_wraps [OF heap_example_rel]) simp_all

end
