(* ===== verification/Ports.thy ===== *)
theory Ports
  imports Prelude
begin

text \<open>
  Port input and output, and the interrupt controller of \<^verbatim>\<open>src/kernel/interrupts/pic.c\<close>. The kernel
  talks to devices with \<^verbatim>\<open>inb\<close> and \<^verbatim>\<open>outb\<close>; the model records every access in a trace, newest first.
  The devices are not part of the kernel: what a read returns is a parameter, a function of the
  accesses so far and the port.
\<close>

section \<open>Accesses\<close>

datatype io_event = Out u16 u8 | In u16 u8 | OutW u16 u16 | InW u16 u16 | OutL u16 u32 | InL u16 u32

type_synonym io = "io_event list"
type_synonym device = "io \<Rightarrow> u16 \<Rightarrow> u8"
type_synonym wdevice = "io \<Rightarrow> u16 \<Rightarrow> u16"
type_synonym ldevice = "io \<Rightarrow> u16 \<Rightarrow> u32"

definition outb :: "u16 \<Rightarrow> u8 \<Rightarrow> io \<Rightarrow> io" where
  "outb port v t = Out port v # t"

definition inb :: "device \<Rightarrow> u16 \<Rightarrow> io \<Rightarrow> u8 \<times> io" where
  "inb dev port t = (dev t port, In port (dev t port) # t)"

text \<open>Accesses of 16 bits, which the disk controller uses for its data.\<close>

definition outw :: "u16 \<Rightarrow> u16 \<Rightarrow> io \<Rightarrow> io" where
  "outw port v t = OutW port v # t"

definition inw :: "wdevice \<Rightarrow> u16 \<Rightarrow> io \<Rightarrow> u16 \<times> io" where
  "inw dev port t = (dev t port, InW port (dev t port) # t)"

text \<open>Accesses of 32 bits, which the configuration space of the PCI bus uses.\<close>

definition pci_outl :: "u16 \<Rightarrow> u32 \<Rightarrow> io \<Rightarrow> io" where
  "pci_outl port v t = OutL port v # t"

definition pci_inl :: "ldevice \<Rightarrow> u16 \<Rightarrow> io \<Rightarrow> u32 \<times> io" where
  "pci_inl dev port t = (dev t port, InL port (dev t port) # t)"

section \<open>The programmable interrupt controller\<close>

abbreviation (input) PIC1_COMMAND :: u16 where "PIC1_COMMAND \<equiv> 0x20"
abbreviation (input) PIC1_DATA :: u16 where "PIC1_DATA \<equiv> 0x21"
abbreviation (input) PIC2_COMMAND :: u16 where "PIC2_COMMAND \<equiv> 0xA0"
abbreviation (input) PIC2_DATA :: u16 where "PIC2_DATA \<equiv> 0xA1"
abbreviation (input) PIC_EOI :: u8 where "PIC_EOI \<equiv> 0x20"
abbreviation (input) ICW1_ICW4 :: u8 where "ICW1_ICW4 \<equiv> 0x01"
abbreviation (input) ICW1_INIT :: u8 where "ICW1_INIT \<equiv> 0x10"
abbreviation (input) ICW4_8086 :: u8 where "ICW4_8086 \<equiv> 0x01"

definition pic_init :: "device \<Rightarrow> io \<Rightarrow> io" where
  "pic_init dev t =
     (let (a1, t) = inb dev PIC1_DATA t;
          (a2, t) = inb dev PIC2_DATA t;
          t = outb PIC1_COMMAND (ICW1_INIT OR ICW1_ICW4) t;
          t = outb PIC1_DATA 0x20 t;
          t = outb PIC1_DATA 0x04 t;
          t = outb PIC1_DATA ICW4_8086 t;
          t = outb PIC2_COMMAND (ICW1_INIT OR ICW1_ICW4) t;
          t = outb PIC2_DATA 0x28 t;
          t = outb PIC2_DATA 0x02 t;
          t = outb PIC2_DATA ICW4_8086 t;
          t = outb PIC1_DATA a1 t
      in outb PIC2_DATA a2 t)"

definition pic_send_eoi :: "u8 \<Rightarrow> io \<Rightarrow> io" where
  "pic_send_eoi irq t =
     (let t = (if 8 \<le> irq then outb PIC2_COMMAND PIC_EOI t else t) in outb PIC1_COMMAND PIC_EOI t)"

text \<open>The choice of port and bit that masking and unmasking share. The shift is an \<^verbatim>\<open>int\<close> shift, cut to
  a byte on assignment.\<close>

definition pic_line :: "u8 \<Rightarrow> u16 \<times> u8" where
  "pic_line irq = (if irq < 8 then (PIC1_DATA, irq) else (PIC2_DATA, irq - 8))"

definition pic_mask_irq :: "device \<Rightarrow> u8 \<Rightarrow> io \<Rightarrow> io" where
  "pic_mask_irq dev irq t =
     (let (port, irq) = pic_line irq;
          (v, t) = inb dev port t
      in outb port (v OR ucast (push_bit (unat irq) (1 :: u32))) t)"

definition pic_unmask_irq :: "device \<Rightarrow> u8 \<Rightarrow> io \<Rightarrow> io" where
  "pic_unmask_irq dev irq t =
     (let (port, irq) = pic_line irq;
          (v, t) = inb dev port t
      in outb port (v AND ucast (NOT (push_bit (unat irq) (1 :: u32)))) t)"

section \<open>The mask registers\<close>

text \<open>The documented behaviour of the two data ports after initialisation: a read returns the mask
  last written, and no other access changes it.\<close>

definition pic_ports :: "device \<Rightarrow> bool" where
  "pic_ports dev \<longleftrightarrow> (\<forall>t. \<forall>p \<in> {PIC1_DATA, PIC2_DATA}.
     (\<forall>v. dev (Out p v # t) p = v) \<and> (\<forall>q v. q \<noteq> p \<longrightarrow> dev (Out q v # t) p = dev t p) \<and>
     (\<forall>q v. dev (In q v # t) p = dev t p))"

text \<open>Whether a line is masked.\<close>

definition irq_masked :: "device \<Rightarrow> io \<Rightarrow> nat \<Rightarrow> bool" where
  "irq_masked dev t i = (if i < 8 then bit (dev t PIC1_DATA) i else bit (dev t PIC2_DATA) (i - 8))"

lemma pic_ports_read:
  assumes "pic_ports dev" and "p = PIC1_DATA \<or> p = PIC2_DATA"
  shows "dev (Out q v # t) p = (if q = p then v else dev t p)" "dev (In q v # t) p = dev t p"
  using assms by (auto simp: pic_ports_def)

lemma pic_line_nat:
  assumes "unat irq < 16"
  shows "pic_line irq = (if unat irq < 8 then (PIC1_DATA, irq) else (PIC2_DATA, irq - 8))"
    and "\<not> unat irq < 8 \<Longrightarrow> unat (irq - 8) = unat irq - 8"
  using assms by (auto simp: pic_line_def word_less_nat_alt unat_sub word_le_nat_alt)

lemma byte_bit:
  "k < 8 \<Longrightarrow> bit (ucast (2 ^ k :: u32) :: u8) n \<longleftrightarrow> n = k"
  "k < 8 \<Longrightarrow> bit (ucast (NOT (2 ^ k :: u32)) :: u8) n \<longleftrightarrow> n < 8 \<and> n \<noteq> k"
  by (auto simp: bit_simps)

lemma pic_mask_masked:
  assumes "pic_ports dev" and "unat irq < 16" and "i < 16"
  shows "irq_masked dev (pic_mask_irq dev irq t) i \<longleftrightarrow> i = unat irq \<or> irq_masked dev t i"
    and "irq_masked dev (pic_unmask_irq dev irq t) i \<longleftrightarrow> i \<noteq> unat irq \<and> irq_masked dev t i"
proof -
  note r = pic_ports_read [OF assms(1)]
  show "irq_masked dev (pic_mask_irq dev irq t) i \<longleftrightarrow> i = unat irq \<or> irq_masked dev t i"
    using assms(2,3) pic_line_nat [OF assms(2)]
    by (auto simp: irq_masked_def pic_mask_irq_def inb_def outb_def r bit_or_iff byte_bit)
  show "irq_masked dev (pic_unmask_irq dev irq t) i \<longleftrightarrow> i \<noteq> unat irq \<and> irq_masked dev t i"
    using assms(2,3) pic_line_nat [OF assms(2)]
    by (auto simp: irq_masked_def pic_unmask_irq_def inb_def outb_def r bit_and_iff byte_bit)
qed

section \<open>Properties\<close>

text \<open>A device with the two mask registers and nothing else.\<close>

fun pic_registers :: device where
  "pic_registers [] p = 0xFF"
| "pic_registers (Out q v # t) p = (if q = p then v else pic_registers t p)"
| "pic_registers (_ # t) p = pic_registers t p"

lemma pic_registers_ports: "pic_ports pic_registers"
  by (simp add: pic_ports_def)

text \<open>Masking a line sets exactly that line's bit in the two mask registers, unmasking clears
  exactly it, and \<open>pic_init\<close> leaves the masks as they were.\<close>

theorem pic_masks_correct:
  assumes "pic_ports dev" and "unat irq < 16" and "i < 16"
  shows "(irq_masked dev (pic_mask_irq dev irq t) i \<longleftrightarrow> i = unat irq \<or> irq_masked dev t i) \<and>
    (irq_masked dev (pic_unmask_irq dev irq t) i \<longleftrightarrow> i \<noteq> unat irq \<and> irq_masked dev t i) \<and>
    (irq_masked dev (pic_init dev t) i \<longleftrightarrow> irq_masked dev t i)"
  using pic_mask_masked [OF assms]
  by (simp add: irq_masked_def pic_init_def inb_def outb_def pic_ports_read [OF assms(1)])

theorem pic_masks_correct_witness:
  "pic_ports pic_registers \<and> \<not> irq_masked pic_registers (pic_unmask_irq pic_registers 9 []) 9 \<and>
   irq_masked pic_registers (pic_unmask_irq pic_registers 9 []) 1"
  using pic_masks_correct [OF pic_registers_ports, of 9 9 "[]"] pic_masks_correct [OF pic_registers_ports, of 9 1 "[]"]
    pic_registers_ports by (simp add: irq_masked_def)

end
