(* ===== verification/Task.thy ===== *)
theory Task
  imports HeapSpec Ports
begin

text \<open>
  Tasks and the timer: \<^verbatim>\<open>src/kernel/task/task.c\<close>, \<^verbatim>\<open>src/kernel/task/context_switch.asm\<close> and
  \<^verbatim>\<open>src/kernel/drivers/timer.c\<close>. Task structures live in the heap; the model keeps them in a typed
  store indexed by their address. The run list is the circular list through \<open>t_next\<close>, the wait
  queues are the lists through \<open>t_next_in_queue\<close> whose heads lie at the addresses in
  \<open>wait_queues\<close>. Context switching is modelled down to the registers and the stacks in memory.
  An operation that reaches \<open>task_switch\<close> returns whether another task now has the processor; the
  code after the call then runs when the caller is resumed.
\<close>

section \<open>State\<close>

abbreviation (input) TASK_RUNNING :: u32 where "TASK_RUNNING \<equiv> 0"
abbreviation (input) TASK_READY :: u32 where "TASK_READY \<equiv> 1"
abbreviation (input) TASK_BLOCKED :: u32 where "TASK_BLOCKED \<equiv> 2"
abbreviation (input) TASK_ZOMBIE :: u32 where "TASK_ZOMBIE \<equiv> 3"
abbreviation (input) MAX_TASKS :: u32 where "MAX_TASKS \<equiv> 256"
abbreviation (input) DEFAULT_TIME_SLICE :: u32 where "DEFAULT_TIME_SLICE \<equiv> 10"
abbreviation (input) sizeof_task :: u32 where "sizeof_task \<equiv> 76"
abbreviation (input) PIT_FREQUENCY :: u32 where "PIT_FREQUENCY \<equiv> 1193180"
abbreviation (input) TIMER_FREQUENCY :: u32 where "TIMER_FREQUENCY \<equiv> 100"

record timer_state = heap_state +
  timer_ticks :: u32
  timer_frequency :: u32
  timer_callback :: u32
  io_trace :: io

record task =
  t_id :: u32
  t_esp :: u32
  t_ebp :: u32
  t_eip :: u32
  t_page_directory :: u32
  t_state :: u32
  t_priority :: u32
  t_time_slice :: u32
  t_next :: u32
  t_next_in_queue :: u32
  t_wake_ticks :: u32
  t_name :: "u8 list"

text \<open>The registers that a context switch saves, the stack pointer, the instruction pointer and the
  flags.\<close>

record cpu_state =
  r_edi :: u32
  r_esi :: u32
  r_ebx :: u32
  r_ebp :: u32
  r_esp :: u32
  r_eip :: u32
  r_eflags :: u32

record task_state = timer_state +
  tasks :: "u32 \<Rightarrow> task"
  task_list :: u32
  current_task :: u32
  next_task_id :: u32
  task_count :: u32
  wait_queues :: "u32 \<Rightarrow> u32"
  cpu :: cpu_state

section \<open>The timer\<close>

definition timer_init :: "device \<Rightarrow> u32 \<Rightarrow> 'a timer_state_scheme \<Rightarrow> 'a timer_state_scheme" where
  "timer_init dev frequency s =
     (let divisor = PIT_FREQUENCY div frequency;
          t = outb 0x43 0x36 (io_trace s);
          t = outb 0x40 (ucast (divisor AND 0xFF)) t;
          t = outb 0x40 (ucast (drop_bit 8 divisor AND 0xFF)) t
      in s\<lparr>timer_frequency := frequency, timer_ticks := 0, io_trace := pic_unmask_irq dev 0 t\<rparr>)"

definition timer_get_ticks :: "'a timer_state_scheme \<Rightarrow> u32" where
  "timer_get_ticks s = timer_ticks s"

definition timer_get_ms :: "'a timer_state_scheme \<Rightarrow> u32" where
  "timer_get_ms s = (timer_ticks s * 1000) div timer_frequency s"

text \<open>\<^verbatim>\<open>hlt\<close> returns after an interrupt; what interrupts do meanwhile is the parameter.\<close>

partial_function (option) timer_wait ::
  "('a timer_state_scheme \<Rightarrow> 'a timer_state_scheme) \<Rightarrow> u32 \<Rightarrow> 'a timer_state_scheme \<Rightarrow> 'a timer_state_scheme option" where
  "timer_wait intr target s = (if timer_ticks s < target then timer_wait intr target (intr s) else Some s)"

definition timer_sleep ::
  "('a timer_state_scheme \<Rightarrow> 'a timer_state_scheme) \<Rightarrow> u32 \<Rightarrow> 'a timer_state_scheme \<Rightarrow> 'a timer_state_scheme option" where
  "timer_sleep intr milliseconds s =
     timer_wait intr (timer_ticks s + (milliseconds * timer_frequency s) div 1000) s"

definition timer_register_callback :: "u32 \<Rightarrow> 'a timer_state_scheme \<Rightarrow> 'a timer_state_scheme" where
  "timer_register_callback callback s = s\<lparr>timer_callback := callback\<rparr>"

section \<open>Context switch\<close>

definition push32 :: "u32 \<Rightarrow> cpu_state \<times> mem \<Rightarrow> cpu_state \<times> mem" where
  "push32 v = (\<lambda>(c, m). (c\<lparr>r_esp := r_esp c - 4\<rparr>, st32 (r_esp c - 4) v m))"

definition pop32 :: "cpu_state \<times> mem \<Rightarrow> u32 \<times> cpu_state \<times> mem" where
  "pop32 = (\<lambda>(c, m). (ld32 m (r_esp c), c\<lparr>r_esp := r_esp c + 4\<rparr>, m))"

text \<open>The assembly routine, entered with the return address on top of the stack: the saved stack
  pointer goes to \<^verbatim>\<open>*old_esp\<close>, the registers and the instruction pointer come from the new stack.\<close>

definition task_switch_asm :: "u32 \<Rightarrow> cpu_state \<times> mem \<Rightarrow> u32 \<times> cpu_state \<times> mem" where
  "task_switch_asm new_esp cm =
     (let cm = push32 (r_ebp (fst cm)) cm;
          cm = push32 (r_ebx (fst cm)) cm;
          cm = push32 (r_esi (fst cm)) cm;
          cm = push32 (r_edi (fst cm)) cm;
          old_esp = r_esp (fst cm);
          (v, c, m) = pop32 ((fst cm)\<lparr>r_esp := new_esp\<rparr>, snd cm);
          (v, c, m) = pop32 (c\<lparr>r_edi := v\<rparr>, m);
          (v, c, m) = pop32 (c\<lparr>r_esi := v\<rparr>, m);
          (v, c, m) = pop32 (c\<lparr>r_ebx := v\<rparr>, m);
          (v, c, m) = pop32 (c\<lparr>r_ebp := v\<rparr>, m)
      in (old_esp, c\<lparr>r_eip := v\<rparr>, m))"

section \<open>The task manager\<close>

definition upd_task :: "u32 \<Rightarrow> (task \<Rightarrow> task) \<Rightarrow> 'a task_state_scheme \<Rightarrow> 'a task_state_scheme" where
  "upd_task a f s = s\<lparr>tasks := (tasks s)(a := f (tasks s a))\<rparr>"

definition create_kernel_stack :: "'a task_state_scheme \<Rightarrow> u32 \<times> 'a task_state_scheme" where
  "create_kernel_stack s =
     (let (stack_page, s1) = pmm_alloc_page s
      in if stack_page = 0 then (0, s1)
         else let virtual_addr = 0xE0000000 + next_task_id s1 * 0x1000
              in (virtual_addr + 4096,
                  paging_map_page virtual_addr stack_page (PAGE_PRESENT OR PAGE_WRITABLE) s1))"

definition task_init :: "'a task_state_scheme \<Rightarrow> 'a task_state_scheme" where
  "task_init s = s\<lparr>task_list := 0, current_task := 0, next_task_id := 1, task_count := 0\<rparr>"

text \<open>The six words of the initial stack frame.\<close>

definition initial_frame :: "u32 \<Rightarrow> u32 \<Rightarrow> u32 \<Rightarrow> mem \<Rightarrow> mem" where
  "initial_frame stack start entry m =
     (let m = st32 (stack + 20) entry m;
          m = st32 (stack + 16) start m;
          m = st32 (stack + 12) 0 m;
          m = st32 (stack + 8) 0 m;
          m = st32 (stack + 4) 0 m
      in st32 stack 0 m)"

text \<open>The fields of a new task; the name is a string or \<^verbatim>\<open>NULL\<close>.\<close>

definition new_task_fields :: "u32 \<Rightarrow> u8 list option \<Rightarrow> u32 \<Rightarrow> task \<Rightarrow> task" where
  "new_task_fields i name priority t = t\<lparr>t_id := i, t_state := TASK_READY, t_priority := priority,
     t_time_slice := DEFAULT_TIME_SLICE, t_page_directory := 0, t_next := 0, t_next_in_queue := 0, t_wake_ticks := 0,
     t_name := (case name of Some n \<Rightarrow> take 31 n | None \<Rightarrow> map of_char ''task'')\<rparr>"

text \<open>The initial stack and the insertion into the run list; \<open>start\<close> is the address of
  \<^verbatim>\<open>task_start_asm\<close>.\<close>

definition task_link :: "u32 \<Rightarrow> u32 \<Rightarrow> u32 \<Rightarrow> u32 \<Rightarrow> 'a task_state_scheme \<Rightarrow> 'a task_state_scheme" where
  "task_link start entry new_task stack_top s =
     (let stack = stack_top - 24;
          s = s\<lparr>vmem := initial_frame stack start entry (vmem s)\<rparr>;
          s = upd_task new_task (\<lambda>t. t\<lparr>t_esp := stack, t_ebp := 0, t_eip := start\<rparr>) s;
          s = (if task_list s = 0
               then upd_task new_task (\<lambda>t. t\<lparr>t_next := new_task\<rparr>) (s\<lparr>task_list := new_task\<rparr>)
               else let s = upd_task new_task (\<lambda>t. t\<lparr>t_next := t_next (tasks s (task_list s))\<rparr>) s;
                        s = upd_task (task_list s) (\<lambda>t. t\<lparr>t_next := new_task\<rparr>) s
                    in s\<lparr>task_list := new_task\<rparr>)
      in s\<lparr>task_count := task_count s + 1\<rparr>)"

definition task_create ::
  "u32 \<Rightarrow> u32 \<Rightarrow> u8 list option \<Rightarrow> u32 \<Rightarrow> 'a task_state_scheme \<Rightarrow> (u32 \<times> 'a task_state_scheme) option" where
  "task_create start entry name priority s =
     (if MAX_TASKS \<le> task_count s then Some (0, s)
      else Option.bind (kmalloc sizeof_task s) (\<lambda>(new_task, s).
        if new_task = 0 then Some (0, s)
        else let s = upd_task new_task (new_task_fields (next_task_id s) name priority)
                       (s\<lparr>next_task_id := next_task_id s + 1\<rparr>);
                 (stack_top, s) = create_kernel_stack s
             in if stack_top = 0 then Some (0, kfree new_task s)
                else Some (new_task, task_link start entry new_task stack_top s)))"

text \<open>The loops of \<open>task_switch\<close>: waking sleepers once around the list, and looking for a ready task.\<close>

definition wake_sleeper :: "u32 \<Rightarrow> task \<Rightarrow> task" where
  "wake_sleeper ticks t =
     (if t_state t = TASK_BLOCKED \<and> t_wake_ticks t \<noteq> 0 \<and> t_wake_ticks t \<le> ticks
      then t\<lparr>t_state := TASK_READY, t_wake_ticks := 0\<rparr> else t)"

partial_function (option) wake_loop :: "u32 \<Rightarrow> u32 \<Rightarrow> u32 \<Rightarrow> (u32 \<Rightarrow> task) \<Rightarrow> (u32 \<Rightarrow> task) option" where
  "wake_loop ticks lst checking tk =
     (let tk' = tk(checking := wake_sleeper ticks (tk checking));
          next = t_next (tk' checking)
      in if next \<noteq> lst then wake_loop ticks lst next tk' else Some tk')"

fun find_ready :: "nat \<Rightarrow> (u32 \<Rightarrow> task) \<Rightarrow> u32 \<Rightarrow> u32" where
  "find_ready 0 tk next = next"
| "find_ready (Suc attempts) tk next =
     (if t_state (tk next) \<noteq> TASK_READY then find_ready attempts tk (t_next (tk next)) else next)"

definition switch_to :: "u32 \<Rightarrow> 'a task_state_scheme \<Rightarrow> bool \<times> 'a task_state_scheme" where
  "switch_to next s =
     (let prev = current_task s;
          s = upd_task next (\<lambda>t. t\<lparr>t_state := TASK_RUNNING, t_time_slice := DEFAULT_TIME_SLICE\<rparr>)
                (s\<lparr>current_task := next\<rparr>);
          new_esp = t_esp (tasks s next)
      in if prev \<noteq> current_task s
         then let s = (if t_state (tasks s prev) = TASK_RUNNING
                       then upd_task prev (\<lambda>t. t\<lparr>t_state := TASK_READY\<rparr>) s else s);
                  (old_esp, c, m) = task_switch_asm new_esp (cpu s, vmem s)
              in (True, upd_task prev (\<lambda>t. t\<lparr>t_esp := old_esp\<rparr>) (s\<lparr>cpu := c, vmem := m\<rparr>))
         else (False, s))"

definition task_switch :: "'a task_state_scheme \<Rightarrow> (bool \<times> 'a task_state_scheme) option" where
  "task_switch s =
     (if task_list s = 0 then Some (False, s)
      else let next = (if current_task s = 0 then task_list s else t_next (tasks s (current_task s)))
           in map_option (\<lambda>tk.
                let s = s\<lparr>tasks := tk\<rparr>;
                    next = find_ready (unat (task_count s)) tk next
                in if t_state (tk next) \<noteq> TASK_READY then (False, s) else switch_to next s)
                (wake_loop (timer_get_ticks s) (task_list s) (task_list s) (tasks s)))"

definition task_get_current :: "'a task_state_scheme \<Rightarrow> u32" where
  "task_get_current s = current_task s"

definition task_yield :: "'a task_state_scheme \<Rightarrow> (bool \<times> 'a task_state_scheme) option" where
  "task_yield s = task_switch s"

definition task_exit :: "'a task_state_scheme \<Rightarrow> (bool \<times> 'a task_state_scheme) option" where
  "task_exit s =
     (if current_task s = 0 then Some (False, s)
      else task_switch (upd_task (current_task s) (\<lambda>t. t\<lparr>t_state := TASK_ZOMBIE\<rparr>) s))"

definition task_sleep_until :: "u32 \<Rightarrow> 'a task_state_scheme \<Rightarrow> (bool \<times> 'a task_state_scheme) option" where
  "task_sleep_until target_ticks s =
     (if current_task s = 0 then Some (False, s)
      else task_switch (upd_task (current_task s)
             (\<lambda>t. t\<lparr>t_state := TASK_BLOCKED, t_wake_ticks := target_ticks\<rparr>) s))"

definition task_sleep :: "u32 \<Rightarrow> 'a task_state_scheme \<Rightarrow> (bool \<times> 'a task_state_scheme) option" where
  "task_sleep milliseconds s =
     (if current_task s = 0 then Some (False, s)
      else task_sleep_until (timer_get_ticks s + milliseconds * TIMER_FREQUENCY div 1000) s)"

partial_function (option) queue_end :: "(u32 \<Rightarrow> task) \<Rightarrow> u32 \<Rightarrow> u32 option" where
  "queue_end tk cur =
     (if t_next_in_queue (tk cur) \<noteq> 0 then queue_end tk (t_next_in_queue (tk cur)) else Some cur)"

definition enqueue_current :: "u32 \<Rightarrow> 'a task_state_scheme \<Rightarrow> 'a task_state_scheme option" where
  "enqueue_current wait_queue s =
     (if wait_queues s wait_queue = 0
      then Some (s\<lparr>wait_queues := (wait_queues s)(wait_queue := current_task s)\<rparr>)
      else map_option (\<lambda>cur. upd_task cur (\<lambda>t. t\<lparr>t_next_in_queue := current_task s\<rparr>) s)
             (queue_end (tasks s) (wait_queues s wait_queue)))"

definition task_block :: "u32 \<Rightarrow> 'a task_state_scheme \<Rightarrow> (bool \<times> 'a task_state_scheme) option" where
  "task_block wait_queue s =
     (if current_task s = 0 \<or> wait_queue = 0 then Some (False, s)
      else Option.bind
             (enqueue_current wait_queue (upd_task (current_task s)
                (\<lambda>t. t\<lparr>t_state := TASK_BLOCKED, t_wake_ticks := 0, t_next_in_queue := 0\<rparr>) s))
             task_switch)"

definition task_wake :: "u32 \<Rightarrow> 'a task_state_scheme \<Rightarrow> 'a task_state_scheme" where
  "task_wake task s =
     (if task \<noteq> 0 \<and> t_state (tasks s task) = TASK_BLOCKED
      then upd_task task (\<lambda>t. t\<lparr>t_state := TASK_READY, t_wake_ticks := 0\<rparr>) s else s)"

definition task_unblock :: "u32 \<Rightarrow> 'a task_state_scheme \<Rightarrow> 'a task_state_scheme" where
  "task_unblock wait_queue s =
     (if wait_queue = 0 \<or> wait_queues s wait_queue = 0 then s
      else let task_to_wake = wait_queues s wait_queue;
               s = s\<lparr>wait_queues := (wait_queues s)(wait_queue := t_next_in_queue (tasks s task_to_wake))\<rparr>;
               s = upd_task task_to_wake (\<lambda>t. t\<lparr>t_next_in_queue := 0\<rparr>) s
           in task_wake task_to_wake s)"

partial_function (option) get_by_id_loop :: "(u32 \<Rightarrow> task) \<Rightarrow> u32 \<Rightarrow> u32 \<Rightarrow> u32 \<Rightarrow> u32 option" where
  "get_by_id_loop tk lst tid current =
     (if t_id (tk current) = tid then Some current
      else let current = t_next (tk current)
           in if current \<noteq> lst then get_by_id_loop tk lst tid current else Some 0)"

definition task_get_by_id :: "u32 \<Rightarrow> 'a task_state_scheme \<Rightarrow> u32 option" where
  "task_get_by_id tid s =
     (if task_list s = 0 then Some 0 else get_by_id_loop (tasks s) (task_list s) tid (task_list s))"

text \<open>The timer interrupt: \<open>call\<close> stands for the call of the registered function.\<close>

definition timer_handler ::
  "(u32 \<Rightarrow> 'a task_state_scheme \<Rightarrow> 'a task_state_scheme) \<Rightarrow> 'a task_state_scheme \<Rightarrow> (bool \<times> 'a task_state_scheme) option" where
  "timer_handler call s =
     (let s = s\<lparr>timer_ticks := timer_ticks s + 1\<rparr>;
          s = (if timer_callback s \<noteq> 0 then call (timer_callback s) s else s);
          current = task_get_current s
      in if current = 0 then Some (False, s)
         else let s = upd_task current (\<lambda>t. t\<lparr>t_time_slice := t_time_slice t - 1\<rparr>) s
              in if t_time_slice (tasks s current) = 0 then task_switch s else Some (False, s))"

end
