(* ===== verification/RunQueue.thy ===== *)
theory RunQueue
  imports Task
begin

text \<open>
  The linked lists of the scheduler of \<open>Task\<close>: the circular run list, the order in which
  \<open>task_switch\<close> walks it, the invariant of the run list under every operation, the wait queues, and
  the distance of a ready task from its turn.
\<close>

section \<open>Lists through pointers\<close>

fun chain :: "(u32 \<Rightarrow> u32) \<Rightarrow> u32 \<Rightarrow> u32 list \<Rightarrow> u32 \<Rightarrow> bool" where
  "chain nx a [] z \<longleftrightarrow> a = z"
| "chain nx a (u # us) z \<longleftrightarrow> a = u \<and> chain nx (nx u) us z"

lemma chain_append: "chain nx a (us @ vs) z \<longleftrightarrow> (\<exists>b. chain nx a us b \<and> chain nx b vs z)"
  by (induction us arbitrary: a) auto

lemma chain_cong: "(\<And>u. u \<in> set us \<Longrightarrow> nx' u = nx u) \<Longrightarrow> chain nx' a us z \<longleftrightarrow> chain nx a us z"
  by (induction us arbitrary: a) auto

lemma chain_rotate: "chain nx a (xs @ c # ys) a \<Longrightarrow> chain nx (nx c) (ys @ xs @ [c]) (nx c)"
  by (auto simp: chain_append)

section \<open>The run list\<close>

text \<open>\<open>ring s us\<close>: the tasks \<open>us\<close> form the circular list that starts at \<open>task_list\<close>.\<close>

definition ring :: "'a task_state_scheme \<Rightarrow> u32 list \<Rightarrow> bool" where
  "ring s us \<longleftrightarrow> distinct us \<and> 0 \<notin> set us \<and> length us = unat (task_count s) \<and>
     (if us = [] then task_list s = 0 else chain (\<lambda>a. t_next (tasks s a)) (task_list s) us (task_list s))"

lemma ring_list: "ring s us \<Longrightarrow> us \<noteq> [] \<Longrightarrow> task_list s = hd us \<and> task_list s \<noteq> 0"
  by (cases us) (auto simp: ring_def)

lemma ring_cong:
  assumes "ring s us" and "\<And>u. u \<in> set us \<Longrightarrow> t_next (tasks s' u) = t_next (tasks s u)"
    and "task_list s' = task_list s" and "task_count s' = task_count s"
  shows "ring s' us"
  using assms chain_cong [of us "\<lambda>a. t_next (tasks s' a)" "\<lambda>a. t_next (tasks s a)"] by (simp add: ring_def)

lemma upd_task_fields [simp]:
  "tasks (upd_task a f s) b = (if b = a then f (tasks s a) else tasks s b)"
  "task_list (upd_task a f s) = task_list s" "current_task (upd_task a f s) = current_task s"
  "task_count (upd_task a f s) = task_count s" "timer_ticks (upd_task a f s) = timer_ticks s"
  "wait_queues (upd_task a f s) = wait_queues s" "vmem (upd_task a f s) = vmem s" "cpu (upd_task a f s) = cpu s"
  "next_task_id (upd_task a f s) = next_task_id s" "task_state.more (upd_task a f s) = task_state.more s"
  by (simp_all add: upd_task_def)

text \<open>The order in which \<open>task_switch\<close> considers the tasks.\<close>

definition scan :: "'a task_state_scheme \<Rightarrow> u32 list \<Rightarrow> u32 list" where
  "scan s us = (if current_task s = 0 then us
     else tl (dropWhile (\<lambda>u. u \<noteq> current_task s) us) @ takeWhile (\<lambda>u. u \<noteq> current_task s) us @ [current_task s])"

lemma scan_split:
  assumes "us = xs @ c # ys" and "c \<notin> set xs" and "current_task s = c" and "c \<noteq> 0"
  shows "scan s us = ys @ xs @ [c]"
  using assms by (auto simp: scan_def takeWhile_tail dropWhile_append)

lemma scan_set:
  assumes "current_task s = 0 \<or> current_task s \<in> set us" and "distinct us"
  shows "set (scan s us) = set us" "length (scan s us) = length us" "distinct (scan s us)"
proof -
  have "set (scan s us) = set us \<and> length (scan s us) = length us \<and> distinct (scan s us)"
  proof (cases "current_task s = 0")
    case False
    then obtain xs ys where "us = xs @ current_task s # ys" using assms split_list by metis
    then show ?thesis using assms(2) scan_split [of us xs "current_task s" ys s] False by auto
  qed (use assms in \<open>simp add: scan_def\<close>)
  then show "set (scan s us) = set us" "length (scan s us) = length us" "distinct (scan s us)" by auto
qed

definition scan_start :: "'a task_state_scheme \<Rightarrow> u32" where
  "scan_start s = (if current_task s = 0 then task_list s else t_next (tasks s (current_task s)))"

lemma scan_chain:
  assumes "ring s us" and "us \<noteq> []" and "current_task s = 0 \<or> current_task s \<in> set us"
  shows "chain (\<lambda>a. t_next (tasks s a)) (scan_start s) (scan s us) (scan_start s)"
proof (cases "current_task s = 0")
  case False
  then obtain xs ys where us: "us = xs @ current_task s # ys" using assms(3) split_list by metis
  then have "current_task s \<notin> set xs" using assms(1) by (auto simp: ring_def)
  then have sc: "scan s us = ys @ xs @ [current_task s]" by (intro scan_split [OF us]) (use False in auto)
  have "chain (\<lambda>a. t_next (tasks s a)) (task_list s) (xs @ current_task s # ys) (task_list s)"
    using assms(1,2) us by (simp add: ring_def)
  from chain_rotate [OF this] show ?thesis unfolding sc using False by (simp add: scan_start_def)
qed (use assms in \<open>simp add: scan_def scan_start_def ring_def\<close>)

section \<open>The loops\<close>

lemma wake_sleeper_next [simp]:
  "t_next (wake_sleeper k t) = t_next t" "t_esp (wake_sleeper k t) = t_esp t" "t_id (wake_sleeper k t) = t_id t"
  "t_time_slice (wake_sleeper k t) = t_time_slice t" "t_next_in_queue (wake_sleeper k t) = t_next_in_queue t"
  "t_state (wake_sleeper k t) = TASK_RUNNING \<longleftrightarrow> t_state t = TASK_RUNNING"
  by (auto simp: wake_sleeper_def)

lemma wake_loop_chain:
  assumes "chain (\<lambda>a. t_next (tk a)) a us z" and "distinct us" and "us \<noteq> []" and "z \<notin> set (tl us)"
  shows "wake_loop k z a tk = Some (\<lambda>b. if b \<in> set us then wake_sleeper k (tk b) else tk b)"
  using assms
proof (induction us arbitrary: a tk)
  case (Cons u us)
  let ?tk = "tk(u := wake_sleeper k (tk u))"
  have a: "a = u" using Cons.prems by simp
  show ?case
  proof (cases "us = []")
    case True
    then show ?thesis using Cons.prems by (subst wake_loop.simps) (auto simp: Let_def)
  next
    case False
    have "chain (\<lambda>a. t_next (?tk a)) (t_next (tk u)) us z"
      using Cons.prems chain_cong [of us "\<lambda>a. t_next (?tk a)" "\<lambda>a. t_next (tk a)"] by auto
    moreover have "z \<notin> set us" using Cons.prems False by simp
    ultimately have "wake_loop k z (t_next (tk u)) ?tk = Some (\<lambda>b. if b \<in> set us then wake_sleeper k (?tk b) else ?tk b)"
      using Cons.prems False by (intro Cons.IH) (auto dest: list.set_sel(2))
    moreover have "t_next (tk u) \<noteq> z" using Cons.prems False by (cases us) auto
    moreover have "(\<lambda>b. if b \<in> set us then wake_sleeper k (?tk b) else ?tk b) =
        (\<lambda>b. if b \<in> set (u # us) then wake_sleeper k (tk b) else tk b)"
      using Cons.prems by (auto simp: fun_eq_iff)
    ultimately show ?thesis by (subst wake_loop.simps) (simp add: Let_def a)
  qed
qed simp

lemma find_ready_chain:
  "chain (\<lambda>a. t_next (tk a)) a us z \<Longrightarrow>
     find_ready (length us) tk a = (case find (\<lambda>u. t_state (tk u) = TASK_READY) us of None \<Rightarrow> z | Some u \<Rightarrow> u)"
  by (induction us arbitrary: a) auto

section \<open>The switch\<close>

text \<open>The tasks after the sleepers whose time has come were woken.\<close>

definition woken :: "'a task_state_scheme \<Rightarrow> u32 list \<Rightarrow> u32 \<Rightarrow> task" where
  "woken s us b = (if b \<in> set us then wake_sleeper (timer_ticks s) (tasks s b) else tasks s b)"

definition next_ready :: "'a task_state_scheme \<Rightarrow> u32 list \<Rightarrow> u32 option" where
  "next_ready s us = find (\<lambda>u. t_state (woken s us u) = TASK_READY) (scan s us)"

text \<open>The invariant of the scheduler: the run list is circular, the current task is in it, and no
  other task is in state \<open>TASK_RUNNING\<close>.\<close>

definition sched_inv :: "'a task_state_scheme \<Rightarrow> u32 list \<Rightarrow> bool" where
  "sched_inv s us \<longleftrightarrow> ring s us \<and> (current_task s = 0 \<or> current_task s \<in> set us) \<and>
     (\<forall>u \<in> set us. t_state (tasks s u) = TASK_RUNNING \<longrightarrow> u = current_task s)"

lemma woken_fields [simp]:
  "t_next (woken s us a) = t_next (tasks s a)" "t_next_in_queue (woken s us a) = t_next_in_queue (tasks s a)"
  "t_state (woken s us a) = TASK_RUNNING \<longleftrightarrow> t_state (tasks s a) = TASK_RUNNING"
  by (simp_all add: woken_def)

lemma task_switch_eq:
  assumes "ring s us" and "us \<noteq> []" and "current_task s = 0 \<or> current_task s \<in> set us"
  shows "task_switch s = Some (case next_ready s us of None \<Rightarrow> (False, s\<lparr>tasks := woken s us\<rparr>)
    | Some n \<Rightarrow> switch_to n (s\<lparr>tasks := woken s us\<rparr>))"
proof -
  have p: "chain (\<lambda>a. t_next (tasks s a)) (scan_start s) (scan s us) (scan_start s)" by (rule scan_chain [OF assms])
  have d: "distinct us" and l: "length us = unat (task_count s)" using assms(1) by (auto simp: ring_def)
  note sc = scan_set [OF assms(3) d]
  have "wake_loop (timer_ticks s) (task_list s) (task_list s) (tasks s) =
      Some (\<lambda>b. if b \<in> set us then wake_sleeper (timer_ticks s) (tasks s b) else tasks s b)"
  proof (rule wake_loop_chain)
    show "chain (\<lambda>a. t_next (tasks s a)) (task_list s) us (task_list s)" using assms by (simp add: ring_def)
    show "task_list s \<notin> set (tl us)" using ring_list [OF assms(1,2)] d by (cases us) auto
  qed (use d assms(2) in auto)
  then have w: "wake_loop (timer_ticks s) (task_list s) (task_list s) (tasks s) = Some (woken s us)"
    unfolding woken_def .
  have "chain (\<lambda>a. t_next (woken s us a)) (scan_start s) (scan s us) (scan_start s)"
    using p chain_cong [of "scan s us" "\<lambda>a. t_next (woken s us a)" "\<lambda>a. t_next (tasks s a)"] by (simp add: woken_def)
  from find_ready_chain [OF this]
  have f: "find_ready (unat (task_count s)) (woken s us) (scan_start s) =
      (case next_ready s us of None \<Rightarrow> scan_start s | Some u \<Rightarrow> u)"
    using sc(2) l by (simp add: next_ready_def)
  have st: "t_state (woken s us (scan_start s)) \<noteq> TASK_READY" if "next_ready s us = None"
  proof -
    have "scan s us \<noteq> []" using sc(2) assms(2) by auto
    then have "scan_start s \<in> set (scan s us)" using p by (cases "scan s us") auto
    then show ?thesis using that by (auto simp: next_ready_def find_None_iff)
  qed
  have rd: "t_state (woken s us n) = TASK_READY" if "next_ready s us = Some n" for n
    using that by (auto simp: next_ready_def find_Some_iff)
  have nz: "task_list s \<noteq> 0" using ring_list [OF assms(1,2)] by blast
  show ?thesis
    unfolding task_switch_def Let_def scan_start_def [symmetric] timer_get_ticks_def w
    using nz f st rd by (cases "next_ready s us") (simp_all add: task_state.defs)
qed

lemma switch_to_fields:
  "fst (switch_to n s) = (current_task s \<noteq> n)" "current_task (snd (switch_to n s)) = n"
  "task_list (snd (switch_to n s)) = task_list s" "task_count (snd (switch_to n s)) = task_count s"
  "timer_ticks (snd (switch_to n s)) = timer_ticks s" "wait_queues (snd (switch_to n s)) = wait_queues s"
  "next_task_id (snd (switch_to n s)) = next_task_id s" "task_state.more (snd (switch_to n s)) = task_state.more s"
  by (simp_all add: switch_to_def Let_def split_beta upd_task_def)

lemma switch_to_tasks:
  "tasks (snd (switch_to n s)) n = (tasks s n)\<lparr>t_state := TASK_RUNNING, t_time_slice := DEFAULT_TIME_SLICE\<rparr>"
  "a \<noteq> n \<Longrightarrow> a \<noteq> current_task s \<Longrightarrow> tasks (snd (switch_to n s)) a = tasks s a"
  "current_task s \<noteq> n \<Longrightarrow> tasks (snd (switch_to n s)) (current_task s) =
     (tasks s (current_task s))\<lparr>t_state := (if t_state (tasks s (current_task s)) = TASK_RUNNING
        then TASK_READY else t_state (tasks s (current_task s))),
        t_esp := fst (task_switch_asm (t_esp (tasks s n)) (cpu s, vmem s))\<rparr>"
  by (simp_all add: switch_to_def Let_def split_beta)

lemma switch_to_context:
  "current_task s \<noteq> n \<Longrightarrow> (cpu (snd (switch_to n s)), vmem (snd (switch_to n s))) =
     snd (task_switch_asm (t_esp (tasks s n)) (cpu s, vmem s))"
  by (simp add: switch_to_def Let_def split_beta)

lemma switch_to_state:
  "t_state (tasks (snd (switch_to n s)) a) =
     (if a = n then TASK_RUNNING
      else if a = current_task s \<and> t_state (tasks s a) = TASK_RUNNING then TASK_READY else t_state (tasks s a))"
  "t_next (tasks (snd (switch_to n s)) a) = t_next (tasks s a)"
  "t_wake_ticks (tasks (snd (switch_to n s)) a) = t_wake_ticks (tasks s a)"
  "t_next_in_queue (tasks (snd (switch_to n s)) a) = t_next_in_queue (tasks s a)"
  by (simp_all add: switch_to_def Let_def split_beta)

lemma next_ready_mem:
  assumes "next_ready s us = Some n" and "current_task s = 0 \<or> current_task s \<in> set us" and "distinct us"
  shows "n \<in> set us" "t_state (woken s us n) = TASK_READY"
  using assms scan_set [OF assms(2,3)] by (auto simp: next_ready_def find_Some_iff)

lemma sched_inv_switch:
  assumes inv: "sched_inv s us"
  shows "\<exists>b s'. task_switch s = Some (b, s') \<and> sched_inv s' us"
proof (cases "us = []")
  case True
  then have "task_list s = 0" using inv by (simp add: sched_inv_def ring_def)
  then show ?thesis using inv by (intro exI [of _ False] exI [of _ s]) (simp add: task_switch_def)
next
  case False
  have r: "ring s us" and c: "current_task s = 0 \<or> current_task s \<in> set us" and d: "distinct us"
    and one: "\<forall>u \<in> set us. t_state (tasks s u) = TASK_RUNNING \<longrightarrow> u = current_task s"
    using inv by (auto simp: sched_inv_def ring_def)
  note eq = task_switch_eq [OF r False c]
  show ?thesis
  proof (cases "next_ready s us")
    case None
    have "sched_inv (s\<lparr>tasks := woken s us\<rparr>) us"
      using r c one ring_cong [OF r, of "s\<lparr>tasks := woken s us\<rparr>"] by (simp add: sched_inv_def woken_def)
    then show ?thesis using eq None by auto
  next
    case (Some n)
    let ?s = "s\<lparr>tasks := woken s us\<rparr>"
    have n: "n \<in> set us" by (rule next_ready_mem [OF Some c d])
    have "ring (snd (switch_to n ?s)) us"
      by (rule ring_cong [OF r]) (simp_all add: switch_to_fields switch_to_state(2))
    moreover have "u = n" if "u \<in> set us" "t_state (tasks (snd (switch_to n ?s)) u) = TASK_RUNNING" for u
    proof (rule ccontr)
      assume "u \<noteq> n"
      then have "t_state (woken s us u) = TASK_RUNNING" "u \<noteq> current_task s"
        using that(2) by (auto simp: switch_to_state(1) split: if_splits)
      then show False using one that(1) by simp
    qed
    ultimately have "sched_inv (snd (switch_to n ?s)) us" using n by (simp add: sched_inv_def switch_to_fields)
    then show ?thesis using eq Some by (metis option.simps(5) prod.collapse)
  qed
qed

lemma sched_inv_upd [inv_intros]:
  assumes "sched_inv s us" and "\<And>t. t_next (f t) = t_next t"
    and "t_state (f (tasks s a)) = TASK_RUNNING \<Longrightarrow> t_state (tasks s a) = TASK_RUNNING"
  shows "sched_inv (upd_task a f s) us"
proof -
  have "ring (upd_task a f s) us"
    by (rule ring_cong [of s]) (use assms in \<open>auto simp: sched_inv_def\<close>)
  then show ?thesis using assms by (auto simp: sched_inv_def split: if_splits)
qed

lemma sched_inv_queues [simp]: "sched_inv (s\<lparr>wait_queues := q\<rparr>) us = sched_inv s us"
  by (simp add: sched_inv_def ring_def)

lemma sched_inv_ticks [simp]: "sched_inv (s\<lparr>timer_ticks := k\<rparr>) us = sched_inv s us"
  by (simp add: sched_inv_def ring_def)

lemma sched_inv_wake [inv_intros]: "sched_inv s us \<Longrightarrow> sched_inv (task_wake t s) us"
  by (auto simp: task_wake_def intro: sched_inv_upd)

lemma sched_inv_unblock [inv_intros]: "sched_inv s us \<Longrightarrow> sched_inv (task_unblock q s) us"
  by (auto simp: task_unblock_def Let_def intro!: sched_inv_wake sched_inv_upd)

lemma sched_inv_yield: "sched_inv s us \<Longrightarrow> \<exists>b s'. task_yield s = Some (b, s') \<and> sched_inv s' us"
  unfolding task_yield_def by (rule sched_inv_switch)

lemma sched_inv_exit: "sched_inv s us \<Longrightarrow> \<exists>b s'. task_exit s = Some (b, s') \<and> sched_inv s' us"
  unfolding task_exit_def using sched_inv_switch by (auto intro!: sched_inv_switch sched_inv_upd)

lemma sched_inv_sleep_until:
  "sched_inv s us \<Longrightarrow> \<exists>b s'. task_sleep_until k s = Some (b, s') \<and> sched_inv s' us"
  unfolding task_sleep_until_def by (auto intro!: sched_inv_switch sched_inv_upd)

lemma sched_inv_sleep: "sched_inv s us \<Longrightarrow> \<exists>b s'. task_sleep k s = Some (b, s') \<and> sched_inv s' us"
  unfolding task_sleep_def using sched_inv_sleep_until by auto

lemma sched_inv_timer:
  assumes "sched_inv s us" and "timer_callback s = 0"
  shows "\<exists>b s'. timer_handler call s = Some (b, s') \<and> sched_inv s' us"
  using assms unfolding timer_handler_def Let_def task_get_current_def
  by (auto intro!: sched_inv_switch sched_inv_upd)

section \<open>Wait queues\<close>

text \<open>\<open>queue s w q\<close>: the tasks \<open>q\<close> wait at the queue whose head is at address \<open>w\<close>, in this order.\<close>

definition queue :: "'a task_state_scheme \<Rightarrow> u32 \<Rightarrow> u32 list \<Rightarrow> bool" where
  "queue s w q \<longleftrightarrow> chain (\<lambda>a. t_next_in_queue (tasks s a)) (wait_queues s w) q 0 \<and> distinct q \<and> 0 \<notin> set q"

lemma queue_cong:
  assumes "queue s w q" and "\<And>a. a \<in> set q \<Longrightarrow> t_next_in_queue (tasks s' a) = t_next_in_queue (tasks s a)"
    and "wait_queues s' w = wait_queues s w"
  shows "queue s' w q"
  using assms chain_cong [of q "\<lambda>a. t_next_in_queue (tasks s' a)" "\<lambda>a. t_next_in_queue (tasks s a)"]
  by (simp add: queue_def)

lemma queue_end_chain:
  "chain (\<lambda>a. t_next_in_queue (tk a)) a q 0 \<Longrightarrow> q \<noteq> [] \<Longrightarrow> 0 \<notin> set q \<Longrightarrow> queue_end tk a = Some (last q)"
proof (induction q arbitrary: a)
  case (Cons u q)
  show ?case
  proof (cases "q = []")
    case True
    then show ?thesis using Cons.prems by (subst queue_end.simps) simp
  next
    case False
    then have "queue_end tk (t_next_in_queue (tk u)) = Some (last q)" using Cons by auto
    moreover have "t_next_in_queue (tk u) \<noteq> 0" using Cons.prems False by (cases q) auto
    ultimately show ?thesis using Cons.prems False by (subst queue_end.simps) simp
  qed
qed simp

lemma enqueue_current_queue:
  assumes q: "queue s w q" and c: "current_task s \<noteq> 0" "current_task s \<notin> set q"
    and n: "t_next_in_queue (tasks s (current_task s)) = 0"
  shows "\<exists>s'. enqueue_current w s = Some s' \<and> queue s' w (q @ [current_task s]) \<and>
    (\<forall>a. tasks s' a = (tasks s a)\<lparr>t_next_in_queue := t_next_in_queue (tasks s' a)\<rparr>) \<and>
    current_task s' = current_task s \<and> task_list s' = task_list s \<and> task_count s' = task_count s \<and>
    timer_ticks s' = timer_ticks s \<and> (\<forall>v. v \<noteq> w \<longrightarrow> wait_queues s' v = wait_queues s v) \<and>
    task_state.more s' = task_state.more s \<and> (\<forall>a. a \<notin> set q \<longrightarrow> tasks s' a = tasks s a)"
proof (cases q rule: rev_cases)
  case Nil
  then have "wait_queues s w = 0" using q by (simp add: queue_def)
  then show ?thesis using Nil c n by (auto simp: enqueue_current_def queue_def)
next
  case (snoc p l)
  have hd: "wait_queues s w \<noteq> 0" using q snoc by (cases p) (auto simp: queue_def)
  have "queue_end (tasks s) (wait_queues s w) = Some l"
    using q queue_end_chain [of "tasks s" "wait_queues s w" q] snoc by (simp add: queue_def)
  then have e: "enqueue_current w s = Some (upd_task l (\<lambda>t. t\<lparr>t_next_in_queue := current_task s\<rparr>) s)"
    using hd by (simp add: enqueue_current_def)
  let ?s = "upd_task l (\<lambda>t. t\<lparr>t_next_in_queue := current_task s\<rparr>) s"
  have l: "l \<notin> set p" "l \<noteq> current_task s" using q snoc c by (auto simp: queue_def)
  have "chain (\<lambda>a. t_next_in_queue (tasks ?s a)) (wait_queues s w) p l =
      chain (\<lambda>a. t_next_in_queue (tasks s a)) (wait_queues s w) p l"
    by (rule chain_cong) (use l in auto)
  then have "chain (\<lambda>a. t_next_in_queue (tasks ?s a)) (wait_queues s w) p l"
    using q snoc by (auto simp: queue_def chain_append)
  then have "queue ?s w (q @ [current_task s])"
    using q c n l snoc by (auto simp: queue_def chain_append)
  then show ?thesis using e l snoc by (intro exI [of _ ?s]) auto
qed

text \<open>What a switch leaves alone, and what it does to the states.\<close>

lemma task_switch_result:
  assumes inv: "sched_inv s us" and ne: "us \<noteq> []" and sw: "task_switch s = Some (b, s')"
  shows "sched_inv s' us" "wait_queues s' = wait_queues s" "timer_ticks s' = timer_ticks s"
    "task_state.more s' = task_state.more s" "t_next_in_queue (tasks s' a) = t_next_in_queue (tasks s a)"
    "next_ready s us = None \<Longrightarrow> \<not> b \<and> s' = s\<lparr>tasks := woken s us\<rparr>"
    "next_ready s us = Some n \<Longrightarrow> b = (n \<noteq> current_task s) \<and> current_task s' = n \<and>
       t_state (tasks s' a) = (if a = n then TASK_RUNNING
         else if a = current_task s \<and> t_state (tasks s a) = TASK_RUNNING then TASK_READY
         else t_state (woken s us a))"
    "t_wake_ticks (tasks s' a) = t_wake_ticks (woken s us a)"
proof -
  have r: "ring s us" and c: "current_task s = 0 \<or> current_task s \<in> set us" using inv by (auto simp: sched_inv_def)
  have eq: "(b, s') = (case next_ready s us of None \<Rightarrow> (False, s\<lparr>tasks := woken s us\<rparr>)
    | Some n \<Rightarrow> switch_to n (s\<lparr>tasks := woken s us\<rparr>))"
    using task_switch_eq [OF r ne c] sw by simp
  show "sched_inv s' us" using sched_inv_switch [OF inv] sw by auto
  have so: "b = fst (switch_to n (s\<lparr>tasks := woken s us\<rparr>))" "s' = snd (switch_to n (s\<lparr>tasks := woken s us\<rparr>))"
    if "next_ready s us = Some n" for n using eq that by (simp_all add: prod_eq_iff)
  have no: "b = False" "s' = s\<lparr>tasks := woken s us\<rparr>" if "next_ready s us = None" using eq that by simp_all
  show "wait_queues s' = wait_queues s" "timer_ticks s' = timer_ticks s" "task_state.more s' = task_state.more s"
    "t_next_in_queue (tasks s' a) = t_next_in_queue (tasks s a)" "t_wake_ticks (tasks s' a) = t_wake_ticks (woken s us a)"
    using so no by (cases "next_ready s us"; simp add: switch_to_fields switch_to_state)+
  show "\<not> b \<and> s' = s\<lparr>tasks := woken s us\<rparr>" if "next_ready s us = None" using no [OF that] by simp
  show "b = (n \<noteq> current_task s) \<and> current_task s' = n \<and> t_state (tasks s' a) = (if a = n then TASK_RUNNING
      else if a = current_task s \<and> t_state (tasks s a) = TASK_RUNNING then TASK_READY
      else t_state (woken s us a))" if "next_ready s us = Some n"
    using so [OF that] by (auto simp: switch_to_fields switch_to_state)
qed

lemma queue_switch:
  assumes "sched_inv s us" and "us \<noteq> []" and "task_switch s = Some (b, s')" and "queue s w q"
  shows "queue s' w q"
  by (rule queue_cong [OF assms(4)]) (simp_all add: task_switch_result [OF assms(1-3)])

lemma task_switch_blocked:
  assumes "sched_inv s us" and "us \<noteq> []" and "task_switch s = Some (b, s')"
    and "t_state (tasks s a) = TASK_BLOCKED" and "t_wake_ticks (tasks s a) = 0"
  shows "t_state (tasks s' a) = TASK_BLOCKED \<and> t_wake_ticks (tasks s' a) = 0"
proof -
  have c: "current_task s = 0 \<or> current_task s \<in> set us" and d: "distinct us"
    using assms(1) by (auto simp: sched_inv_def ring_def)
  note r = task_switch_result [OF assms(1-3)]
  have w: "woken s us a = tasks s a" using assms(4,5) by (simp add: woken_def wake_sleeper_def)
  show ?thesis
  proof (cases "next_ready s us")
    case None
    then show ?thesis using r(6) [OF None] w assms(4,5) by simp
  next
    case (Some n)
    then show ?thesis using r(7) [OF Some, of a] r(8) [of a] w assms(4,5) next_ready_mem(2) [OF Some c d] by auto
  qed
qed

text \<open>Blocking: the current task goes to the end of the queue, and the processor to another task.\<close>

lemma task_block_result:
  assumes inv: "sched_inv s us" and c: "current_task s \<noteq> 0" and w: "w \<noteq> 0"
    and q: "queue s w q" "current_task s \<notin> set q"
  shows "\<exists>b s'. task_block w s = Some (b, s') \<and> sched_inv s' us \<and> queue s' w (q @ [current_task s]) \<and>
    task_state.more s' = task_state.more s \<and> (\<forall>v. v \<noteq> w \<longrightarrow> wait_queues s' v = wait_queues s v) \<and>
    t_state (tasks s' (current_task s)) = TASK_BLOCKED \<and> t_wake_ticks (tasks s' (current_task s)) = 0 \<and>
    (\<forall>a. t_state (tasks s a) = TASK_BLOCKED \<and> t_wake_ticks (tasks s a) = 0 \<longrightarrow>
       t_state (tasks s' a) = TASK_BLOCKED \<and> t_wake_ticks (tasks s' a) = 0) \<and>
    (b \<longrightarrow> current_task s' \<noteq> current_task s \<and> current_task s' \<in> set us \<and> t_state (tasks s' (current_task s')) = TASK_RUNNING) \<and>
    (\<not> b \<longrightarrow> current_task s' = current_task s \<and>
      (\<forall>u \<in> set us. t_state (tasks s' u) \<noteq> TASK_READY))"
proof -
  let ?c = "current_task s"
  define s1 where "s1 = upd_task ?c (\<lambda>t. t\<lparr>t_state := TASK_BLOCKED, t_wake_ticks := 0, t_next_in_queue := 0\<rparr>) s"
  have i1: "sched_inv s1 us" unfolding s1_def by (rule sched_inv_upd [OF inv]) simp_all
  have q1: "queue s1 w q" by (rule queue_cong [OF q(1)]) (use q(2) in \<open>auto simp: s1_def\<close>)
  have cu: "?c \<in> set us" using inv c by (auto simp: sched_inv_def)
  obtain s2 where e: "enqueue_current w s1 = Some s2" "queue s2 w (q @ [?c])"
      "\<forall>a. tasks s2 a = (tasks s1 a)\<lparr>t_next_in_queue := t_next_in_queue (tasks s2 a)\<rparr>"
      "current_task s2 = ?c" "task_list s2 = task_list s1" "task_count s2 = task_count s1"
      "\<forall>v. v \<noteq> w \<longrightarrow> wait_queues s2 v = wait_queues s v" "task_state.more s2 = task_state.more s"
    using enqueue_current_queue [OF q1] c q(2) by (auto simp: s1_def)
  have st: "t_state (tasks s2 a) = t_state (tasks s1 a)" "t_next (tasks s2 a) = t_next (tasks s1 a)"
    "t_wake_ticks (tasks s2 a) = t_wake_ticks (tasks s1 a)" for a by (subst e(3) [rule_format], simp)+
  have i2: "sched_inv s2 us"
  proof -
    have "ring s2 us" by (rule ring_cong [of s1]) (use i1 e(5,6) st in \<open>auto simp: sched_inv_def\<close>)
    moreover have "current_task s1 = ?c" by (simp add: s1_def)
    ultimately show ?thesis using i1 e(4) st(1) by (simp add: sched_inv_def)
  qed
  have ne: "us \<noteq> []" using cu by auto
  obtain b s' where sw: "task_switch s2 = Some (b, s')" using sched_inv_switch [OF i2] by auto
  note r = task_switch_result [OF i2 ne sw]
  have cb: "t_state (woken s2 us ?c) = TASK_BLOCKED" using cu st by (simp add: woken_def wake_sleeper_def s1_def)
  have tb: "task_block w s = Some (b, s')" using c w e(1) sw by (simp add: task_block_def s1_def)
  have "t_state (tasks s' ?c) = TASK_BLOCKED \<and>
      (b \<longrightarrow> current_task s' \<noteq> ?c \<and> current_task s' \<in> set us \<and> t_state (tasks s' (current_task s')) = TASK_RUNNING) \<and>
      (\<not> b \<longrightarrow> current_task s' = ?c \<and> (\<forall>u \<in> set us. t_state (tasks s' u) \<noteq> TASK_READY))"
  proof (cases "next_ready s2 us")
    case None
    have "set (scan s2 us) = set us"
      using scan_set(1) [of s2 us] i2 by (auto simp: sched_inv_def ring_def)
    then have "\<forall>u \<in> set us. t_state (woken s2 us u) \<noteq> TASK_READY"
      using None by (auto simp: next_ready_def find_None_iff)
    then show ?thesis using r(6) [OF None] cb e(4) by simp
  next
    case (Some n)
    have "t_state (woken s2 us n) = TASK_READY" and nu: "n \<in> set us"
      using next_ready_mem [OF Some] i2 by (auto simp: sched_inv_def ring_def)
    then have "n \<noteq> ?c" using cb by auto
    then show ?thesis using nu r(7) [OF Some, of ?c] r(7) [OF Some, of n] cb e(4) st by (simp add: s1_def)
  qed
  moreover have "t_state (tasks s' a) = TASK_BLOCKED \<and> t_wake_ticks (tasks s' a) = 0"
    if "a = ?c \<or> t_state (tasks s a) = TASK_BLOCKED \<and> t_wake_ticks (tasks s a) = 0" for a
    by (rule task_switch_blocked [OF i2 ne sw]) (use that st [of a] in \<open>auto simp: s1_def\<close>)
  ultimately show ?thesis
    using tb r(1) queue_switch [OF i2 ne sw e(2)] r(2,4) e(7,8) by auto
qed

text \<open>Unblocking: the first task of the queue becomes ready and leaves the queue.\<close>

lemma task_unblock_result:
  assumes inv: "sched_inv s us" and w: "w \<noteq> 0" and q: "queue s w (t # q)"
    and st: "t_state (tasks s t) = TASK_BLOCKED"
  shows "sched_inv (task_unblock w s) us \<and> queue (task_unblock w s) w q \<and>
    t_state (tasks (task_unblock w s) t) = TASK_READY \<and> task_state.more (task_unblock w s) = task_state.more s \<and>
    current_task (task_unblock w s) = current_task s \<and>
    (\<forall>a. a \<noteq> t \<longrightarrow> tasks (task_unblock w s) a = tasks s a) \<and>
    (\<forall>v. v \<noteq> w \<longrightarrow> wait_queues (task_unblock w s) v = wait_queues s v)"
proof -
  have t: "t \<noteq> 0" "wait_queues s w = t" "t \<notin> set q" and p: "chain (\<lambda>a. t_next_in_queue (tasks s a)) (t_next_in_queue (tasks s t)) q 0"
    "distinct q" "0 \<notin> set q"
    using q by (auto simp: queue_def)
  have u: "task_unblock w s = upd_task t (\<lambda>t. t\<lparr>t_state := TASK_READY, t_wake_ticks := 0\<rparr>)
      (upd_task t (\<lambda>t. t\<lparr>t_next_in_queue := 0\<rparr>) (s\<lparr>wait_queues := (wait_queues s)(w := t_next_in_queue (tasks s t))\<rparr>))"
    using t w st by (simp add: task_unblock_def task_wake_def Let_def)
  have "chain (\<lambda>a. t_next_in_queue (tasks (task_unblock w s) a)) (t_next_in_queue (tasks s t)) q 0 =
      chain (\<lambda>a. t_next_in_queue (tasks s a)) (t_next_in_queue (tasks s t)) q 0"
    by (rule chain_cong) (use t(3) in \<open>auto simp: u\<close>)
  then have "queue (task_unblock w s) w q"
    using p t by (simp add: queue_def) (simp add: u)
  then show ?thesis using sched_inv_unblock [OF inv, of w] unfolding u by auto
qed

section \<open>Fairness\<close>

text \<open>How far a task is from the current one in the order of the scan.\<close>

definition turn :: "'a task_state_scheme \<Rightarrow> u32 list \<Rightarrow> u32 \<Rightarrow> nat" where
  "turn s us t = length (takeWhile (\<lambda>u. u \<noteq> t) (scan s us))"

lemma takeWhile_shorter: "t \<in> set xs \<Longrightarrow> length (takeWhile (\<lambda>u. u \<noteq> t) xs) < length xs"
  by (induction xs) auto

lemma turn_less: "sched_inv s us \<Longrightarrow> t \<in> set us \<Longrightarrow> turn s us t < length us"
  using scan_set [of s us] takeWhile_shorter [of t "scan s us"] by (auto simp: turn_def sched_inv_def ring_def)

lemma find_before:
  assumes "find P xs = Some n" and "P t" and "t \<in> set xs" and "distinct xs"
  obtains ps qs where "xs = ps @ n # qs" and "t \<notin> set ps" and "n = t \<or> t \<in> set qs"
proof -
  from assms(1) obtain i where i: "i < length xs" "P (xs ! i)" "n = xs ! i" "\<forall>j < i. \<not> P (xs ! j)"
    by (auto simp: find_Some_iff)
  have eq: "xs = take i xs @ n # drop (Suc i) xs" using i id_take_nth_drop by blast
  moreover have "t \<notin> set (take i xs)" using i assms(2) by (auto simp: in_set_conv_nth)
  moreover from this have "n = t \<or> t \<in> set (drop (Suc i) xs)" using assms(3) eq by (metis UnE set_ConsD set_append)
  ultimately show thesis by (rule that)
qed

lemma scan_rotate:
  assumes "scan s us = ps @ n # qs" and "current_task s' = n" and "n \<noteq> 0" and "distinct us"
    and c: "current_task s = 0 \<or> current_task s \<in> set us"
  shows "scan s' us = qs @ ps @ [n]"
proof -
  have ex: "\<exists>xs ys. us = xs @ n # ys \<and> ys @ xs = qs @ ps"
  proof (cases "current_task s = 0")
    case True
    then show ?thesis using assms(1) by (auto simp: scan_def)
  next
    case False
    then obtain as bs where us: "us = as @ current_task s # bs" using c split_list by metis
    then have "scan s us = bs @ as @ [current_task s]"
      using assms(4) False by (intro scan_split) auto
    then have e: "bs @ as @ [current_task s] = ps @ n # qs" using assms(1) by simp
    show ?thesis
    proof (cases "\<exists>zs. bs = ps @ n # zs")
      case True
      then obtain zs where "bs = ps @ n # zs" ..
      then show ?thesis using e us by (intro exI [of _ "as @ current_task s # ps"] exI [of _ zs]) auto
    next
      case False
      obtain vs where "bs = ps @ vs \<and> vs @ as @ [current_task s] = n # qs \<or>
          bs @ vs = ps \<and> as @ [current_task s] = vs @ n # qs"
        using e by (auto simp: append_eq_append_conv2)
      then obtain zs where z: "ps = bs @ zs" "as @ [current_task s] = zs @ n # qs"
        using False by (cases vs) auto
      have "us = (as @ [current_task s]) @ bs" using us by simp
      then have "us = zs @ n # qs @ bs" unfolding z(2) by simp
      then show ?thesis using z(1) by (intro exI [of _ zs] exI [of _ "qs @ bs"]) simp
    qed
  qed
  then obtain xs ys where "us = xs @ n # ys" "ys @ xs = qs @ ps" by blast
  then show ?thesis using scan_split [of us xs n ys s'] assms by auto
qed

lemma turn_decreases:
  assumes inv: "sched_inv s us" and t: "t \<in> set us" "t_state (tasks s t) = TASK_READY"
    and sw: "task_switch s = Some (b, s')"
  shows "current_task s' = t \<or> current_task s' \<noteq> t \<and> t_state (tasks s' t) = TASK_READY \<and> turn s' us t < turn s us t"
proof -
  have ne: "us \<noteq> []" using t by auto
  have c: "current_task s = 0 \<or> current_task s \<in> set us" and d: "distinct us" and z: "0 \<notin> set us"
    using inv by (auto simp: sched_inv_def ring_def)
  note sc = scan_set [OF c d]
  note r = task_switch_result [OF inv ne sw]
  have wt: "t_state (woken s us t) = TASK_READY" using t by (simp add: woken_def wake_sleeper_def)
  then have "next_ready s us \<noteq> None" using t sc by (auto simp: next_ready_def find_None_iff)
  then obtain n where n: "next_ready s us = Some n" by auto
  note rn = r(7) [OF n]
  obtain ps qs where e: "scan s us = ps @ n # qs" "t \<notin> set ps" "n = t \<or> t \<in> set qs"
    using find_before [OF n [unfolded next_ready_def], of t] wt t sc by metis
  have n0: "n \<noteq> 0" using next_ready_mem [OF n c d] z by auto
  show ?thesis
  proof (cases "n = t")
    case False
    then have q: "t \<in> set qs" using e by simp
    have s': "scan s' us = qs @ ps @ [n]" by (rule scan_rotate [OF e(1) _ n0 d c]) (use rn in blast)
    have "turn s' us t < turn s us t"
      using e(1,2) s' q False by (auto simp: turn_def takeWhile_append)
    then show ?thesis using rn [of t] False wt t by auto
  qed (use rn in blast)
qed

end
