(* ===== verification/Scheduler.thy ===== *)
theory Scheduler
  imports RunQueue
begin

text \<open>
  Properties of the scheduler of \<open>Task\<close>: the context switch down to registers and stacks, the creation
  of tasks in the heap, and the properties of switching, sleeping and blocking.
\<close>

section \<open>Registers and stacks\<close>

lemma task_switch_asm_saves:
  assumes "task_switch_asm new (c, m) = (old, c', m')"
  shows "old = r_esp c - 16" "ld32 m' old = r_edi c" "ld32 m' (old + 4) = r_esi c" "ld32 m' (old + 8) = r_ebx c"
    "ld32 m' (old + 12) = r_ebp c" "ld32 m' (old + 16) = ld32 m (r_esp c)"
    "16 \<le> unat (a - old) \<Longrightarrow> m' a = m a"
proof -
  define p where "p = r_esp c - 16"
  have m': "m' = st32 p (r_edi c) (st32 (p + 4) (r_esi c) (st32 (p + 8) (r_ebx c) (st32 (p + 12) (r_ebp c) m)))"
    and o: "old = p"
    using assms by (auto simp: task_switch_asm_def push32_def pop32_def Let_def p_def)
  show "old = r_esp c - 16" using o by (simp add: p_def)
  have sep: "ld32 (st32 (p + i) v n) (p + j) = ld32 n (p + j)"
    if "i \<in> {0, 4, 8, 12}" "j \<in> {0, 4, 8, 12, 16}" "i \<noteq> j" for i j v n
    using that by (intro ld32_st32_other) auto
  note sep0 = sep [of 0, simplified]
  show "ld32 m' old = r_edi c" "ld32 m' (old + 4) = r_esi c" "ld32 m' (old + 8) = r_ebx c"
    "ld32 m' (old + 12) = r_ebp c"
    by (simp_all add: m' o sep sep0)
  have "ld32 m' (p + 16) = ld32 m (p + 16)" by (simp add: m' sep sep0)
  then show "ld32 m' (old + 16) = ld32 m (r_esp c)" by (simp add: o) (simp add: p_def)
  show "m' a = m a" if "16 \<le> unat (a - old)"
  proof -
    have "st32 (p + i) v n a = n a" if "i \<in> {0, 4, 8, 12}" for i v n
    proof (rule st32_other)
      have "unat i \<le> 12" using that by auto
      then have "unat (a - old - i) = unat (a - old) - unat i"
        using \<open>16 \<le> unat (a - old)\<close> by (intro unat_sub) (simp add: word_le_nat_alt)
      then show "4 \<le> unat (a - (p + i))" using \<open>16 \<le> unat (a - old)\<close> \<open>unat i \<le> 12\<close> by (simp add: o algebra_simps)
    qed
    from this [of 0] this [of 4] this [of 8] this [of 12] show ?thesis by (simp add: m')
  qed
qed

lemma task_switch_asm_loads:
  assumes "task_switch_asm new (c, m) = (old, c', m')"
  shows "r_edi c' = ld32 m' new" "r_esi c' = ld32 m' (new + 4)" "r_ebx c' = ld32 m' (new + 8)"
    "r_ebp c' = ld32 m' (new + 12)" "r_eip c' = ld32 m' (new + 16)" "r_esp c' = new + 20"
    "r_eflags c' = r_eflags c"
  using assms by (auto simp: task_switch_asm_def push32_def pop32_def Let_def ac_simps)

section \<open>Creating tasks\<close>

lemma heap_rel_task_fields [simp]:
  "heap_rel (s\<lparr>tasks := x\<rparr>) bs = heap_rel s bs" "heap_rel (s\<lparr>task_list := a\<rparr>) bs = heap_rel s bs"
  "heap_rel (s\<lparr>next_task_id := a\<rparr>) bs = heap_rel s bs" "heap_rel (s\<lparr>task_count := a\<rparr>) bs = heap_rel s bs"
  "heap_rel (upd_task a f s) bs = heap_rel s bs"
  by (simp_all add: heap_rel_def upd_task_def paging_inv_def pmm_inv_def pmm_wf_def pmm_shape_def used_frames_def
      page_used_def tables_wf_def free_frames_def)

lemma heap_rel_frame:
  assumes "heap_rel s bs" and "paging_inv s'" and "paging_state.more s' = paging_state.more s"
  shows "heap_rel s' bs"
  using assms heap_fields_more [OF assms(3)] by (simp add: heap_rel_def)

lemma heap_rel_high:
  assumes "heap_rel s bs" and "\<And>a. unat a < 0x4400000 \<Longrightarrow> m a = vmem s a"
  shows "heap_rel (s\<lparr>vmem := m\<rparr>) bs"
proof -
  have "rep m False 0 0x400000 bs"
  proof (rule rep_cong)
    fix h assume h: "h \<in> header_addrs 0x400000 bs"
    have "h + 16 \<le> 0x4400000" using header_addrs_range [OF h] assms(1) by (auto simp: heap_rel_def)
    then have "unat (word_of_nat h + word_of_nat i :: u32) < 0x4400000" if "i < 16" for i
      using that unat_u32_of_nat [of "h + i"] by simp
    then show "hdr m (word_of_nat h) = hdr (vmem s) (word_of_nat h)" by (intro hdr_cong assms(2))
  qed (use assms(1) in \<open>simp add: heap_rel_def\<close>)
  then show ?thesis using assms(1) by (simp add: heap_rel_def)
qed

lemma create_kernel_stack_frame:
  assumes "paging_inv s"
  shows "paging_inv (snd (create_kernel_stack s))" "paging_state.more (snd (create_kernel_stack s)) = paging_state.more s"
    "fst (create_kernel_stack s) \<noteq> 0 \<Longrightarrow> fst (create_kernel_stack s) = 0xE0001000 + next_task_id s * 0x1000"
proof -
  obtain page s1 where a: "pmm_alloc_page s = (page, s1)" by fastforce
  have s1: "paging_inv s1" "paging_state.more s1 = paging_state.more s"
    using paging_inv_alloc [OF assms] pmm_alloc_page_paging(4) [of s] a by simp_all
  have "next_task_id s1 = next_task_id s" using s1(2) by (cases s; cases s1) simp
  then show "paging_inv (snd (create_kernel_stack s))" "paging_state.more (snd (create_kernel_stack s)) = paging_state.more s"
    "fst (create_kernel_stack s) \<noteq> 0 \<Longrightarrow> fst (create_kernel_stack s) = 0xE0001000 + next_task_id s * 0x1000"
    using a s1 vm.map_inv [OF s1(1)] by (simp_all add: create_kernel_stack_def Let_def split: if_splits)
qed

lemma initial_frame_words:
  "ld32 (initial_frame p start entry m) (p + 20) = entry" "ld32 (initial_frame p start entry m) (p + 16) = start"
proof -
  have sep: "ld32 (st32 (p + i) v n) (p + j) = ld32 n (p + j)"
    if "i \<in> {0, 4, 8, 12, 16, 20}" "j \<in> {0, 4, 8, 12, 16, 20}" "i \<noteq> j" for i j v n
    using that by (intro ld32_st32_other) auto
  note sep0 = sep [of 0, simplified]
  show "ld32 (initial_frame p start entry m) (p + 20) = entry" "ld32 (initial_frame p start entry m) (p + 16) = start"
    by (simp_all add: initial_frame_def Let_def sep sep0)
qed

lemma initial_frame_other:
  assumes "24 \<le> unat (a - p)"
  shows "initial_frame p start entry m a = m a"
proof -
  have "st32 (p + i) v n a = n a" if "i \<in> {0, 4, 8, 12, 16, 20}" for i v n
  proof (rule st32_other)
    have i: "unat i \<le> 20" using that by auto
    then have "unat (a - p - i) = unat (a - p) - unat i" using assms by (intro unat_sub) (simp add: word_le_nat_alt)
    then show "4 \<le> unat (a - (p + i))" using assms i by (simp add: algebra_simps)
  qed
  from this [of 0] this [of 4] this [of 8] this [of 12] this [of 16] this [of 20] show ?thesis
    by (simp add: initial_frame_def Let_def)
qed

text \<open>A new task goes between the head of the list and its successor and becomes the head.\<close>

definition insert_ring :: "u32 \<Rightarrow> u32 list \<Rightarrow> u32 list" where
  "insert_ring p us = (case us of [] \<Rightarrow> [p] | u # us \<Rightarrow> p # us @ [u])"

lemma ring_insert:
  assumes r: "ring s us" and p: "p \<noteq> 0" "p \<notin> set us" and n: "unat (task_count s) < 256"
    and s': "task_list s' = p" "task_count s' = task_count s + 1"
    and nx: "t_next (tasks s' p) = (if us = [] then p else t_next (tasks s (task_list s)))"
      "us \<noteq> [] \<Longrightarrow> t_next (tasks s' (task_list s)) = p"
      "\<And>a. a \<noteq> p \<Longrightarrow> a \<noteq> task_list s \<Longrightarrow> t_next (tasks s' a) = t_next (tasks s a)"
  shows "ring s' (insert_ring p us)"
proof (cases us)
  case Nil
  then show ?thesis using r p s' nx n unat_u32_add [of "task_count s" 1] by (simp add: ring_def insert_ring_def)
next
  case (Cons u vs)
  have u: "task_list s = u" and pa: "chain (\<lambda>a. t_next (tasks s a)) (t_next (tasks s u)) vs u"
    and d: "distinct (u # vs)" "0 \<notin> set us" and l: "Suc (length vs) = unat (task_count s)"
    using r Cons by (auto simp: ring_def)
  have "chain (\<lambda>a. t_next (tasks s' a)) (t_next (tasks s u)) vs u = chain (\<lambda>a. t_next (tasks s a)) (t_next (tasks s u)) vs u"
  proof (rule chain_cong)
    fix a assume "a \<in> set vs"
    then have "a \<noteq> p" "a \<noteq> task_list s" using p Cons d u by auto
    then show "t_next (tasks s' a) = t_next (tasks s a)" by (rule nx(3))
  qed
  then have "chain (\<lambda>a. t_next (tasks s' a)) p (p # vs @ [u]) p" using pa nx u Cons by (auto simp: chain_append)
  moreover have "unat (task_count s + 1) = Suc (unat (task_count s))" using n by (subst unat_u32_add) auto
  ultimately show ?thesis using Cons p d l s' by (simp add: ring_def insert_ring_def)
qed

lemma task_link_result:
  fixes start entry :: u32
  assumes inv: "sched_inv s us" and heap: "heap_rel s bs" and p: "p \<noteq> 0" "p \<notin> set us"
    and tos: "unat tos = 0xE0000000 + k" "0x1000 \<le> k" and cnt: "unat (task_count s) < 256"
    and st: "t_state (tasks s p) = TASK_READY"
  defines "s' \<equiv> task_link start entry p tos s"
  shows "sched_inv s' (insert_ring p us)" "heap_rel s' bs" "current_task s' = current_task s"
    "next_task_id s' = next_task_id s" "u \<in> set us \<Longrightarrow> \<exists>n. tasks s' u = (tasks s u)\<lparr>t_next := n\<rparr>"
    "\<exists>n. tasks s' p = (tasks s p)\<lparr>t_esp := tos - 24, t_ebp := 0, t_eip := start, t_next := n\<rparr>"
    "vmem s' = initial_frame (tos - 24) start entry (vmem s)"
proof -
  have ring: "ring s us" using inv by (simp add: sched_inv_def)
  have l: "us \<noteq> [] \<Longrightarrow> task_list s \<in> set us \<and> task_list s \<noteq> 0"
    using ring_list [OF ring] by (cases us) auto
  have l0: "us = [] \<Longrightarrow> task_list s = 0" using ring by (simp add: ring_def)
  have f: "task_list s' = p" "task_count s' = task_count s + 1" "current_task s' = current_task s"
    "next_task_id s' = next_task_id s" "vmem s' = initial_frame (tos - 24) start entry (vmem s)"
    by (auto simp: s'_def task_link_def Let_def)
  have tp: "tasks s' p = (tasks s p)\<lparr>t_esp := tos - 24, t_ebp := 0, t_eip := start,
      t_next := (if us = [] then p else t_next (tasks s (task_list s)))\<rparr>"
    using l l0 p by (cases "us = []") (auto simp: s'_def task_link_def Let_def)
  have ta: "tasks s' a = (if us \<noteq> [] \<and> a = task_list s then (tasks s a)\<lparr>t_next := p\<rparr> else tasks s a)" if "a \<noteq> p" for a
    using l l0 p that by (cases "us = []") (auto simp: s'_def task_link_def Let_def)
  have "ring s' (insert_ring p us)"
  proof (rule ring_insert [OF ring p cnt])
    show "t_next (tasks s' (task_list s)) = p" if "us \<noteq> []"
    proof -
      have "task_list s \<noteq> p" using l [OF that] p by auto
      then show ?thesis using ta [of "task_list s"] that by simp
    qed
  qed (use f tp ta in auto)
  moreover have st': "t_state (tasks s' a) = t_state (tasks s a)" for a
    using tp ta [of a] by (cases "a = p") auto
  moreover have "set (insert_ring p us) = insert p (set us)" by (auto simp: insert_ring_def split: list.splits)
  ultimately show "sched_inv s' (insert_ring p us)" using inv f(3) st by (auto simp: sched_inv_def)
  have "heap_rel (s\<lparr>vmem := initial_frame (tos - 24) start entry (vmem s)\<rparr>) bs"
  proof (rule heap_rel_high [OF heap], rule initial_frame_other)
    fix a :: u32 assume a: "unat a < 0x4400000"
    have t: "unat (tos - 24) = unat tos - 24" using tos by (subst unat_u32_sub) (auto simp: word_le_nat_alt)
    have "unat (tos - 24 - a) = unat tos - 24 - unat a"
      using a tos t by (subst unat_u32_sub) (auto simp: word_le_nat_alt)
    then have "unat (- (tos - 24 - a)) = 4294967296 - (unat tos - 24 - unat a)"
      using a tos by (subst unat_u32_neg) auto
    then have "unat (a - (tos - 24)) = 4294967296 - (unat tos - 24 - unat a)" by simp
    then show "24 \<le> unat (a - (tos - 24))" using unat_u32_less [of tos] by linarith
  qed
  then show "heap_rel s' bs" by (simp add: s'_def task_link_def Let_def)
  show "\<exists>n. tasks s' u = (tasks s u)\<lparr>t_next := n\<rparr>" if "u \<in> set us"
  proof -
    have "u \<noteq> p" using that p by auto
    from ta [OF this] show ?thesis
      by (cases "us \<noteq> [] \<and> u = task_list s") (auto intro: exI [of _ "t_next (tasks s u)"])
  qed
  show "\<exists>n. tasks s' p = (tasks s p)\<lparr>t_esp := tos - 24, t_ebp := 0, t_eip := start, t_next := n\<rparr>"
    using tp by blast
qed (simp_all add: s'_def task_link_def Let_def)

lemma task_create_result:
  assumes inv: "sched_inv s us" and heap: "heap_rel s bs" and tk: "\<forall>u \<in> set us. unat u \<in> fst ` live HEAP_BASE bs"
    and ids: "unat (next_task_id s) < 0x1FFFE"
  shows "\<exists>p s' bs'. task_create start entry name pri s = Some (p, s') \<and> heap_rel s' bs' \<and>
    (p = 0 \<and> sched_inv s' us \<and> (\<forall>u \<in> set us. tasks s' u = tasks s u \<and> unat u \<in> fst ` live HEAP_BASE bs') \<or>
     p \<noteq> 0 \<and> unat (task_count s) < 256 \<and> sched_inv s' (insert_ring p us) \<and> current_task s' = current_task s \<and>
     next_task_id s' = next_task_id s + 1 \<and>
     (\<forall>u \<in> set (insert_ring p us). unat u \<in> fst ` live HEAP_BASE bs') \<and>
     (\<forall>u \<in> set us. \<exists>n. tasks s' u = (tasks s u)\<lparr>t_next := n\<rparr>) \<and>
     t_id (tasks s' p) = next_task_id s \<and> t_state (tasks s' p) = TASK_READY \<and> t_priority (tasks s' p) = pri \<and>
     t_name (tasks s' p) = (case name of Some n \<Rightarrow> take 31 n | None \<Rightarrow> map of_char ''task'') \<and>
     t_esp (tasks s' p) = 0xE0001FE8 + next_task_id s * 0x1000 \<and>
     ld32 (vmem s') (t_esp (tasks s' p) + 16) = start \<and> ld32 (vmem s') (t_esp (tasks s' p) + 20) = entry)"
proof (cases "MAX_TASKS \<le> task_count s")
  case True
  then show ?thesis using inv heap tk by (intro exI [of _ 0]) (auto simp: task_create_def)
next
  case False
  then have cnt: "unat (task_count s) < 256" by (simp add: word_le_nat_alt)
  obtain p s1 b1 where k: "kmalloc sizeof_task s = Some (p, s1)" "heap_state.more s1 = heap_state.more s" "heap_rel s1 b1"
      "p = 0 \<and> live HEAP_BASE b1 = live HEAP_BASE bs \<or>
       (\<exists>m. live HEAP_BASE b1 = insert (unat p, m) (live HEAP_BASE bs) \<and> unat p \<notin> fst ` live HEAP_BASE bs)"
    using kmalloc_result [OF heap, of sizeof_task] by auto
  have f1: "tasks s1 = tasks s" "task_list s1 = task_list s" "task_count s1 = task_count s"
    "current_task s1 = current_task s" "next_task_id s1 = next_task_id s"
    using k(2) by (cases s; cases s1; simp)+
  have i1: "sched_inv s1 us" using inv f1 by (simp add: sched_inv_def ring_def)
  show ?thesis
  proof (cases "p = 0")
    case True
    then show ?thesis using k i1 f1 tk False by (intro exI [of _ 0] exI [of _ s1] exI [of _ b1]) (auto simp: task_create_def)
  next
    case p: False
    then obtain m where m: "live HEAP_BASE b1 = insert (unat p, m) (live HEAP_BASE bs)" "unat p \<notin> fst ` live HEAP_BASE bs"
      using k(4) by auto
    have pu: "p \<notin> set us" using tk m(2) by auto
    define s2 where "s2 = upd_task p (new_task_fields (next_task_id s1) name pri) (s1\<lparr>next_task_id := next_task_id s1 + 1\<rparr>)"
    have h2: "heap_rel s2 b1" using k(3) by (simp add: s2_def)
    obtain tos s3 where st: "create_kernel_stack s2 = (tos, s3)" by fastforce
    have "paging_inv s2" using h2 by (simp add: heap_rel_def)
    note cf = create_kernel_stack_frame [OF this, unfolded st fst_conv snd_conv]
    have f3: "tasks s3 = tasks s2" "task_list s3 = task_list s2" "task_count s3 = task_count s2"
      "current_task s3 = current_task s2" "next_task_id s3 = next_task_id s2" "vmem s3 = vmem s2"
      using cf(2) by (cases s2; cases s3; simp)+
    have h3: "heap_rel s3 b1" by (rule heap_rel_frame [OF h2 cf(1,2)])
    have keep: "tasks s3 u = tasks s u" if "u \<in> set us" for u using that pu f3 f1 by (auto simp: s2_def)
    show ?thesis
    proof (cases "tos = 0")
      case True
      have l: "(unat p, m) \<in> live HEAP_BASE b1" using m by simp
      obtain b4 where b4: "heap_rel (kfree p s3) b4" "live HEAP_BASE b4 = live HEAP_BASE b1 - {(unat p, m)}"
          "heap_state.more (kfree p s3) = heap_state.more s3"
        using kfree_result [OF h3 l] by auto
      have f4: "tasks (kfree p s3) = tasks s3" "task_list (kfree p s3) = task_list s3" "task_count (kfree p s3) = task_count s3"
        "current_task (kfree p s3) = current_task s3"
        using b4(3) by (cases s3; cases "kfree p s3"; simp)+
      have "ring (kfree p s3) us"
        by (rule ring_cong [of s]) (use inv f4 f3 f1 keep in \<open>auto simp: sched_inv_def s2_def\<close>)
      then have i4: "sched_inv (kfree p s3) us" using inv f4 f3 f1 keep by (simp add: sched_inv_def s2_def)
      have "unat u \<in> fst ` live HEAP_BASE b4" if u: "u \<in> set us" for u
      proof -
        obtain n where n: "(unat u, n) \<in> live HEAP_BASE bs" using tk u by force
        then have "unat u \<noteq> unat p" using m(2) by force
        then show ?thesis using n m b4(2) by force
      qed
      moreover have "task_create start entry name pri s = Some (0, kfree p s3)"
        using False k(1) p st True unfolding s2_def by (simp add: task_create_def Let_def)
      ultimately show ?thesis using b4(1) i4 f4 keep
        by (intro exI [of _ 0] exI [of _ "kfree p s3"] exI [of _ b4]) auto
    next
      case tos: False
      have "ring s3 us" by (rule ring_cong [of s]) (use inv f3 f1 keep in \<open>auto simp: sched_inv_def s2_def\<close>)
      then have i3: "sched_inv s3 us" using inv f3 f1 keep by (simp add: sched_inv_def s2_def)
      have t: "tos = 0xE0002000 + next_task_id s * 0x1000" using cf(3) tos f1 by (simp add: s2_def algebra_simps)
      have "unat (next_task_id s * 0x1000) = unat (next_task_id s) * 0x1000" using ids by (subst unat_u32_mult) auto
      then have "unat tos = 0xE0000000 + (0x2000 + unat (next_task_id s) * 0x1000)"
        unfolding t using ids by (subst unat_u32_add) auto
      then have tl: "unat tos = 0xE0000000 + (0x2000 + unat (next_task_id s) * 0x1000)" .
      have sp: "t_state (tasks s3 p) = TASK_READY" "unat (task_count s3) < 256"
        using f3 f1 cnt by (auto simp: s2_def new_task_fields_def)
      have "0x1000 \<le> 0x2000 + unat (next_task_id s) * 0x1000" by simp
      note r = task_link_result [OF i3 h3 p pu tl this sp(2,1), where start = start and entry = entry]
      have old: "\<forall>u \<in> set us. \<exists>n. tasks (task_link start entry p tos s3) u = (tasks s u)\<lparr>t_next := n\<rparr>"
        using r(5) keep by simp
      have "task_create start entry name pri s = Some (p, task_link start entry p tos s3)"
        using False k(1) p st tos unfolding s2_def by (simp add: task_create_def Let_def)
      moreover have "\<forall>u \<in> set (insert_ring p us). unat u \<in> fst ` live HEAP_BASE b1"
        using tk m by (auto simp: insert_ring_def split: list.splits)
      moreover have "\<exists>n. tasks (task_link start entry p tos s3) p = (tasks s3 p)\<lparr>t_esp := tos - 24, t_ebp := 0,
          t_eip := start, t_next := n\<rparr>" using r(6) by simp
      ultimately show ?thesis
        using r(1-4,7) old initial_frame_words [of "tos - 24" start entry "vmem s3"] f3(1,4,5) f1(1,4,5) p cnt t
        by (intro exI [of _ p] exI [of _ "task_link start entry p tos s3"] exI [of _ b1])
          (auto simp: s2_def new_task_fields_def)
    qed
  qed
qed

text \<open>The first switch to a new task.\<close>

lemma first_switch:
  assumes "t_esp (tasks s2 p) = t" and "current_task s2 \<noteq> p"
    and same: "\<forall>i < 24. vmem (snd (switch_to p s2)) (t + word_of_nat i) = m (t + word_of_nat i)"
    and m: "ld32 m (t + 16) = start" "ld32 m (t + 20) = entry"
  shows "r_eip (cpu (snd (switch_to p s2))) = start \<and>
    ld32 (vmem (snd (switch_to p s2))) (r_esp (cpu (snd (switch_to p s2)))) = entry"
proof -
  obtain old c m' where o: "task_switch_asm t (cpu s2, vmem s2) = (old, c, m')" by (metis prod_cases3)
  have c: "cpu (snd (switch_to p s2)) = c" "vmem (snd (switch_to p s2)) = m'"
    using switch_to_context [of s2 p] assms(1,2) o by simp_all
  have w: "ld32 m' (t + word_of_nat j) = ld32 m (t + word_of_nat j)" if "j < 21" for j
  proof -
    have "m' (t + word_of_nat (j + i)) = m (t + word_of_nat (j + i))" if "i < 4" for i
      using same [rule_format, of "j + i"] \<open>j < 21\<close> that c(2) by simp
    from this [of 0] this [of 1] this [of 2] this [of 3] show ?thesis by (simp add: ld32_def ac_simps)
  qed
  show ?thesis using task_switch_asm_loads [OF o] w [of 16] w [of 20] m c by simp
qed

section \<open>An example\<close>

definition example_task :: "u32 \<Rightarrow> u32 \<Rightarrow> u32 \<Rightarrow> u32 \<Rightarrow> task" where
  "example_task i state nx wake = \<lparr>t_id = i, t_esp = 0xE0000000 + i * 0x1000 + 0xFE8, t_ebp = 0, t_eip = 0,
     t_page_directory = 0, t_state = state, t_priority = 1, t_time_slice = 1, t_next = nx, t_next_in_queue = 0,
     t_wake_ticks = wake, t_name = []\<rparr>"

text \<open>Three tasks: the first runs, the second sleeps until tick 5, the third is ready.\<close>

definition sched_example :: task_state where
  "sched_example = timer_state.extend (heap_state.extend heap_example
      (timer_state.fields 3 100 0 []))
     (task_state.fields ((\<lambda>_. example_task 0 3 0 0)(0x10 := example_task 1 0 0x20 0,
         0x20 := example_task 2 2 0x30 5, 0x30 := example_task 3 1 0x10 0))
       0x10 0x10 4 3 (\<lambda>_. 0)
       \<lparr>r_edi = 1, r_esi = 2, r_ebx = 3, r_ebp = 4, r_esp = 0xE0001F00, r_eip = 5, r_eflags = 0x202\<rparr>)"

lemmas example_defs = sched_example_def example_task_def heap_example_def timer_state.defs heap_state.defs
  task_state.defs

lemma sched_example_inv: "sched_inv sched_example [0x10, 0x20, 0x30]"
  by (simp add: sched_inv_def ring_def example_defs)

text \<open>The machine after \<open>heap_init\<close> and \<open>task_init\<close>.\<close>

definition boot_example :: task_state where
  "boot_example = task_init (timer_state.extend (heap_state.extend (heap_init (paging_init heap_example))
      (timer_state.fields 0 100 0 [])) (task_state.fields (\<lambda>_. example_task 0 3 0 0) 7 7 7 7 (\<lambda>_. 0) (cpu sched_example)))"

lemma boot_example_inv: "sched_inv boot_example []" "heap_rel boot_example [(0xFFFF0, True)]" "next_task_id boot_example = 1"
proof -
  have "heap_rel boot_example bs = heap_rel (heap_init (paging_init heap_example)) bs" for bs
    by (simp add: boot_example_def task_init_def heap_rel_def heap_state.defs timer_state.defs paging_inv_def pmm_inv_def
      pmm_wf_def pmm_shape_def used_frames_def page_used_def tables_wf_def free_frames_def)
  then show "heap_rel boot_example [(0xFFFF0, True)]" using heap_example_rel by blast
  show "sched_inv boot_example []" "next_task_id boot_example = 1"
    by (simp_all add: boot_example_def task_init_def sched_inv_def ring_def)
qed

section \<open>Properties\<close>

text \<open>C6: \<open>task_switch\<close> always returns, and schedules round robin: it wakes the sleepers whose time has
  come, then gives the processor to the first ready task after the current one in the circular
  list, with a full time slice; a previous task that was running becomes ready. When no task is
  ready, the current one keeps the processor.\<close>

theorem task_switch_correct:
  assumes "sched_inv s us" and "us \<noteq> []"
  shows "\<exists>b s'. task_switch s = Some (b, s') \<and> sched_inv s' us \<and>
    (\<not> b \<and> s' = s\<lparr>tasks := woken s us\<rparr> \<and> (\<forall>u \<in> set us. t_state (woken s us u) \<noteq> TASK_READY) \<or>
     (\<exists>n ps qs. scan s us = ps @ n # qs \<and> t_state (woken s us n) = TASK_READY \<and>
        (\<forall>u \<in> set ps. t_state (woken s us u) \<noteq> TASK_READY) \<and>
        b = (n \<noteq> current_task s) \<and> current_task s' = n \<and> t_time_slice (tasks s' n) = DEFAULT_TIME_SLICE \<and>
        (\<forall>a. t_state (tasks s' a) = (if a = n then TASK_RUNNING
           else if a = current_task s \<and> t_state (tasks s a) = TASK_RUNNING then TASK_READY
           else t_state (woken s us a)))))"
proof -
  obtain b s' where sw: "task_switch s = Some (b, s')" using sched_inv_switch [OF assms(1)] by blast
  note r = task_switch_result [OF assms sw]
  have c: "current_task s = 0 \<or> current_task s \<in> set us" and d: "distinct us" and rg: "ring s us"
    using assms by (auto simp: sched_inv_def ring_def)
  show ?thesis
  proof (cases "next_ready s us")
    case None
    then have "\<forall>u \<in> set us. t_state (woken s us u) \<noteq> TASK_READY"
      using scan_set(1) [OF c d] by (auto simp: next_ready_def find_None_iff)
    then show ?thesis using sw r(1) r(6) [OF None] by blast
  next
    case (Some n)
    then obtain i where i: "i < length (scan s us)" "n = scan s us ! i" "t_state (woken s us n) = TASK_READY"
        "\<forall>j < i. t_state (woken s us (scan s us ! j)) \<noteq> TASK_READY"
      by (auto simp: next_ready_def find_Some_iff)
    have "scan s us = take i (scan s us) @ n # drop (Suc i) (scan s us)" using i id_take_nth_drop by blast
    moreover have "\<forall>u \<in> set (take i (scan s us)). t_state (woken s us u) \<noteq> TASK_READY"
      using i by (auto simp: in_set_conv_nth)
    moreover have "s' = snd (switch_to n (s\<lparr>tasks := woken s us\<rparr>))"
      using sw task_switch_eq [OF rg assms(2) c] Some by simp
    then have "t_time_slice (tasks s' n) = DEFAULT_TIME_SLICE" by (simp add: switch_to_tasks(1))
    ultimately show ?thesis using sw r(1) r(7) [OF Some] i(3) by blast
  qed
qed

theorem task_switch_correct_witness:
  "\<exists>s'. task_switch sched_example = Some (True, s') \<and> current_task s' = 0x30 \<and> t_state (tasks s' 0x10) = TASK_READY"
proof -
  have sc: "scan sched_example [0x10, 0x20, 0x30] = [0x20, 0x30, 0x10]" by (simp add: scan_def example_defs)
  have w: "t_state (woken sched_example [0x10, 0x20, 0x30] 0x20) = TASK_BLOCKED"
    "t_state (woken sched_example [0x10, 0x20, 0x30] 0x30) = TASK_READY" "current_task sched_example = 0x10"
    "t_state (tasks sched_example 0x10) = TASK_RUNNING"
    by (simp_all add: woken_def wake_sleeper_def example_defs)
  show ?thesis
    using task_switch_correct [OF sched_example_inv] unfolding sc using w by (auto simp: Cons_eq_append_conv)
qed

text \<open>C7: the invariant of the scheduler (a circular list of \<open>task_count\<close> different tasks that contains
  the current one, and no running task but the current one) holds after \<open>task_init\<close> and is preserved
  by every operation; each of them returns.\<close>

theorem scheduler_invariant:
  assumes inv: "sched_inv s us"
  shows "sched_inv (task_init any) [] \<and>
     (\<exists>b s'. task_yield s = Some (b, s') \<and> sched_inv s' us) \<and>
     (\<exists>b s'. task_exit s = Some (b, s') \<and> sched_inv s' us) \<and>
     (\<exists>b s'. task_sleep ms s = Some (b, s') \<and> sched_inv s' us) \<and>
     (\<exists>b s'. task_sleep_until k s = Some (b, s') \<and> sched_inv s' us) \<and>
     (timer_callback s = 0 \<longrightarrow> (\<exists>b s'. timer_handler call s = Some (b, s') \<and> sched_inv s' us)) \<and>
     sched_inv (task_wake t s) us \<and> sched_inv (task_unblock w s) us \<and>
     (queue s w q \<and> current_task s \<notin> set q \<longrightarrow> (\<exists>b s'. task_block w s = Some (b, s') \<and> sched_inv s' us))"
proof -
  have "sched_inv (task_init any) []" by (simp add: task_init_def sched_inv_def ring_def)
  moreover have "\<exists>b s'. task_block w s = Some (b, s') \<and> sched_inv s' us" if "queue s w q" "current_task s \<notin> set q"
  proof (cases "current_task s = 0 \<or> w = 0")
    case True
    then show ?thesis using inv by (intro exI [of _ False] exI [of _ s]) (simp add: task_block_def)
  qed (use task_block_result [OF inv _ _ that] in blast)
  ultimately show ?thesis
    using sched_inv_yield [OF inv] sched_inv_exit [OF inv] sched_inv_sleep [OF inv, of ms]
      sched_inv_sleep_until [OF inv, of k] sched_inv_timer [OF inv, of call] sched_inv_wake [OF inv, of t]
      sched_inv_unblock [OF inv, of w] by simp
qed

theorem scheduler_invariant_witness:
  "(\<exists>b s'. task_exit sched_example = Some (b, s') \<and> sched_inv s' [0x10, 0x20, 0x30]) \<and>
   (\<exists>b s'. task_block 0x500 sched_example = Some (b, s') \<and> sched_inv s' [0x10, 0x20, 0x30])"
proof -
  have q: "queue sched_example 0x500 []" by (simp add: queue_def example_defs)
  show ?thesis
    using scheduler_invariant [OF sched_example_inv, where w = "0x500" and q = "[]" and any = sched_example and ms = 0
      and k = 0 and call = "\<lambda>_ s. s" and t = 0] q
    by simp
qed

text \<open>C8: scheduling is fair. In any sequence of switches, with arbitrary operations of the tasks
  between them that keep the task \<open>t\<close> ready and do not give away the processor, a ready task runs
  after at most as many switches as there are tasks.\<close>

theorem task_switch_fair:
  assumes "t \<in> set us" and "t_state (tasks (\<sigma> 0) t) = TASK_READY"
    and "\<And>i. sched_inv (\<sigma> i) us"
    and "\<And>i. \<exists>b s'. task_switch (\<sigma> i) = Some (b, s') \<and> current_task (\<sigma> (Suc i)) = current_task s' \<and>
       (t_state (tasks s' t) = TASK_READY \<longrightarrow> t_state (tasks (\<sigma> (Suc i)) t) = TASK_READY)"
  shows "\<exists>i. 0 < i \<and> i \<le> length us \<and> current_task (\<sigma> i) = t"
proof -
  have d: "distinct us" "0 \<notin> set us" using assms(3) [of 0] by (auto simp: sched_inv_def ring_def)
  have "(\<exists>i. 0 < i \<and> i \<le> k \<and> current_task (\<sigma> i) = t) \<or>
      t_state (tasks (\<sigma> k) t) = TASK_READY \<and> turn (\<sigma> k) us t + k < length us" for k
  proof (induction k)
    case 0
    then show ?case using assms(1,2) turn_less [OF assms(3) [of 0]] by simp
  next
    case (Suc k)
    show ?case
    proof (cases "\<exists>i. 0 < i \<and> i \<le> k \<and> current_task (\<sigma> i) = t")
      case False
      then have r: "t_state (tasks (\<sigma> k) t) = TASK_READY" "turn (\<sigma> k) us t + k < length us" using Suc by auto
      obtain b s' where s': "task_switch (\<sigma> k) = Some (b, s')" "current_task (\<sigma> (Suc k)) = current_task s'"
          "t_state (tasks s' t) = TASK_READY \<longrightarrow> t_state (tasks (\<sigma> (Suc k)) t) = TASK_READY"
        using assms(4) by blast
      have "turn (\<sigma> (Suc k)) us t = turn s' us t" using s'(2) by (simp add: turn_def scan_def)
      then show ?thesis using turn_decreases [OF assms(3) assms(1) r(1) s'(1)] s' r(2) by auto
    qed (auto intro: le_SucI)
  qed
  from this [of "length us"] show ?thesis by auto
qed

theorem task_switch_fair_witness:
  "\<exists>i. 0 < i \<and> i \<le> 3 \<and> current_task (((\<lambda>s. snd (the (task_switch s))) ^^ i) sched_example) = 0x30"
proof -
  let ?s = "\<lambda>i. ((\<lambda>s. snd (the (task_switch s))) ^^ i) sched_example"
  have inv: "sched_inv (?s i) [0x10, 0x20, 0x30]" for i
  proof (induction i)
    case (Suc i)
    then show ?case using sched_inv_switch [OF Suc] by auto
  qed (use sched_example_inv in simp)
  have "t_state (tasks sched_example 0x30) = TASK_READY" by (simp add: example_defs)
  moreover have "\<exists>b s'. task_switch (?s i) = Some (b, s') \<and> current_task (?s (Suc i)) = current_task s' \<and>
      (t_state (tasks s' 0x30) = TASK_READY \<longrightarrow> t_state (tasks (?s (Suc i)) 0x30) = TASK_READY)" for i
    using sched_inv_switch [OF inv [of i]] by auto
  ultimately show ?thesis using task_switch_fair [of "0x30" "[0x10, 0x20, 0x30]" ?s] inv by auto
qed

text \<open>C11: \<open>task_sleep\<close> blocks the calling task until \<open>ms div 10\<close> ticks from now: every switch before that
  tick leaves it blocked, and the first switch from that tick on makes it ready or running.\<close>

theorem task_sleep_correct:
  fixes s :: "'a task_state_scheme"
  assumes "sched_inv s us" and "current_task s \<noteq> 0" and "10 \<le> unat ms" and "unat ms * 100 < 2 ^ 32"
    and "unat (timer_ticks s) + unat ms div 10 < 2 ^ 32"
  shows "\<exists>b s'. task_sleep ms s = Some (b, s') \<and> t_state (tasks s' (current_task s)) = TASK_BLOCKED \<and>
    (\<forall>(s2 :: 'a task_state_scheme) b2 s3. sched_inv s2 us \<and> t_state (tasks s2 (current_task s)) = TASK_BLOCKED \<and>
       t_wake_ticks (tasks s2 (current_task s)) = t_wake_ticks (tasks s' (current_task s)) \<and>
       task_switch s2 = Some (b2, s3) \<longrightarrow>
       (if unat (timer_ticks s2) < unat (timer_ticks s) + unat ms div 10
        then t_state (tasks s3 (current_task s)) = TASK_BLOCKED
        else t_state (tasks s3 (current_task s)) \<in> {TASK_READY, TASK_RUNNING}))"
proof -
  let ?c = "current_task s" let ?k = "timer_ticks s + ms * TIMER_FREQUENCY div 1000"
  have "unat (ms * TIMER_FREQUENCY) = unat ms * 100" using assms(4) by (subst unat_u32_mult) simp_all
  then have "unat (ms * TIMER_FREQUENCY div 1000) = unat ms div 10" by (simp add: unat_div)
  then have k: "unat ?k = unat (timer_ticks s) + unat ms div 10" using assms(5) by (subst unat_u32_add) simp_all
  have kpos: "timer_ticks s < ?k" using k assms(3) by (simp add: word_less_nat_alt del: unat_plus_simple)
  define s1 where "s1 = upd_task ?c (\<lambda>t. t\<lparr>t_state := TASK_BLOCKED, t_wake_ticks := ?k\<rparr>) s"
  have i1: "sched_inv s1 us" unfolding s1_def by (rule sched_inv_upd [OF assms(1)]) simp_all
  have cu: "?c \<in> set us" using assms(1,2) by (auto simp: sched_inv_def)
  then have ne: "us \<noteq> []" by auto
  have d: "distinct us" using assms(1) by (simp add: sched_inv_def ring_def)
  obtain b s' where sw: "task_switch s1 = Some (b, s')" using sched_inv_switch [OF i1] by blast
  have step: "if unat (timer_ticks s2) < unat ?k
      then t_state (tasks s3 ?c) = TASK_BLOCKED \<and> t_wake_ticks (tasks s3 ?c) = ?k
      else t_state (tasks s3 ?c) \<in> {TASK_READY, TASK_RUNNING}"
    if a: "sched_inv s2 us" "t_state (tasks s2 ?c) = TASK_BLOCKED" "t_wake_ticks (tasks s2 ?c) = ?k"
      "task_switch s2 = Some (b2, s3)" for s2 b2 and s3 :: "'a task_state_scheme"
  proof -
    note r = task_switch_result [OF a(1) ne a(4)]
    have c2: "current_task s2 = 0 \<or> current_task s2 \<in> set us" using a(1) by (simp add: sched_inv_def)
    have w: "woken s2 us ?c = (if unat (timer_ticks s2) < unat ?k then tasks s2 ?c
        else (tasks s2 ?c)\<lparr>t_state := TASK_READY, t_wake_ticks := 0\<rparr>)"
      using a(2,3) cu kpos by (auto simp: woken_def wake_sleeper_def word_le_nat_alt simp del: unat_plus_simple)
    show ?thesis
    proof (cases "next_ready s2 us")
      case None
      then show ?thesis using r(6) [OF None] w a(2,3) by simp
    next
      case (Some n)
      then show ?thesis using r(7) [OF Some, of ?c] r(8) [of ?c] w a(2,3) next_ready_mem(2) [OF Some c2 d] by auto
    qed
  qed
  have t1: "timer_ticks s1 = timer_ticks s" "t_state (tasks s1 ?c) = TASK_BLOCKED" "t_wake_ticks (tasks s1 ?c) = ?k"
    by (simp_all add: s1_def)
  have s': "t_state (tasks s' ?c) = TASK_BLOCKED \<and> t_wake_ticks (tasks s' ?c) = ?k"
    using step [OF i1 t1(2,3) sw] kpos by (simp add: t1 word_less_nat_alt)
  have ts: "task_sleep ms s = Some (b, s')"
    using sw assms(2) by (simp add: task_sleep_def task_sleep_until_def timer_get_ticks_def s1_def)
  have fin: "if unat (timer_ticks s2) < unat (timer_ticks s) + unat ms div 10
        then t_state (tasks s3 ?c) = TASK_BLOCKED else t_state (tasks s3 ?c) \<in> {TASK_READY, TASK_RUNNING}"
    if "sched_inv s2 us" "t_state (tasks s2 ?c) = TASK_BLOCKED" "t_wake_ticks (tasks s2 ?c) = ?k"
      "task_switch s2 = Some (b2, s3)" for s2 b2 and s3 :: "'a task_state_scheme"
    using step [OF that] unfolding k by (simp split: if_splits)
  show ?thesis
    by (rule exI [of _ b], rule exI [of _ s'], intro conjI allI impI, rule ts, simp add: s', elim conjE, rule fin)
      (simp_all add: s')
qed

theorem task_sleep_correct_witness:
  "\<exists>b s'. task_sleep 100 sched_example = Some (b, s') \<and> t_state (tasks s' 0x10) = TASK_BLOCKED"
proof -
  have e: "current_task sched_example = 0x10" "timer_ticks sched_example = 3" by (simp_all add: example_defs)
  show ?thesis using task_sleep_correct [OF sched_example_inv, of 100] unfolding e by auto
qed

text \<open>C10: the context switch is exact. When \<open>a\<close> loses the processor and later gets it back, with the 20
  bytes from its saved stack pointer on intact, its callee-saved registers are what they were and it
  continues at the return address that was on top of its stack, which is popped.\<close>

theorem context_switch_roundtrip:
  assumes "a = current_task s" and "a \<noteq> b" and "s1 = snd (switch_to b s)"
    and "current_task s2 \<noteq> a" and "t_esp (tasks s2 a) = t_esp (tasks s1 a)"
    and "\<And>i. i < 20 \<Longrightarrow> vmem (snd (switch_to a s2)) (t_esp (tasks s1 a) + word_of_nat i) =
      vmem s1 (t_esp (tasks s1 a) + word_of_nat i)"
  shows "cpu (snd (switch_to a s2)) = (cpu s)\<lparr>r_esp := r_esp (cpu s) + 4, r_eip := ld32 (vmem s) (r_esp (cpu s)),
     r_eflags := r_eflags (cpu s2)\<rparr>"
proof -
  let ?s3 = "snd (switch_to a s2)" let ?p = "t_esp (tasks s1 a)"
  obtain old c m where o: "task_switch_asm (t_esp (tasks s b)) (cpu s, vmem s) = (old, c, m)" by (metis prod_cases3)
  have p: "?p = old" "vmem s1 = m"
    using switch_to_tasks(3) [of s b] switch_to_context [of s b] assms(1-3) o by simp_all
  obtain old' c' m' where o': "task_switch_asm (t_esp (tasks s2 a)) (cpu s2, vmem s2) = (old', c', m')"
    by (metis prod_cases3)
  have c': "cpu ?s3 = c'" "vmem ?s3 = m'" using switch_to_context [of s2 a] assms(4) o' by simp_all
  have w: "ld32 m' (old + word_of_nat j) = ld32 m (old + word_of_nat j)" if "j < 17" for j
  proof -
    have "m' (old + word_of_nat (j + i)) = m (old + word_of_nat (j + i))" if "i < 4" for i
      using assms(6) [of "j + i"] \<open>j < 17\<close> that p c'(2) by simp
    from this [of 0] this [of 1] this [of 2] this [of 3] show ?thesis by (simp add: ld32_def ac_simps)
  qed
  note sv = task_switch_asm_saves [OF o] and ld = task_switch_asm_loads [OF o', unfolded assms(5) p(1)]
  show ?thesis unfolding c'(1)
    using sv ld w [of 0] w [of 4] w [of 8] w [of 12] w [of 16] by (cases "cpu s"; cases c') simp
qed

theorem context_switch_roundtrip_witness:
  "cpu (snd (switch_to 0x10 (snd (switch_to 0x30 sched_example)))) =
     (cpu sched_example)\<lparr>r_esp := 0xE0001F04, r_eip := 0\<rparr>"
proof -
  let ?s1 = "snd (switch_to 0x30 sched_example)"
  have e: "current_task sched_example = 0x10" "cpu sched_example = \<lparr>r_edi = 1, r_esi = 2, r_ebx = 3, r_ebp = 4,
      r_esp = 0xE0001F00, r_eip = 5, r_eflags = 0x202\<rparr>" "vmem sched_example = (\<lambda>_. 0)"
      "t_esp (tasks sched_example 0x30) = 0xE0003FE8"
    by (simp_all add: example_defs)
  obtain old c m where o: "task_switch_asm 0xE0003FE8 (cpu sched_example, vmem sched_example) = (old, c, m)"
    by (metis prod_cases3)
  have p: "t_esp (tasks ?s1 0x10) = 0xE0001EF0" "cpu ?s1 = c" "vmem ?s1 = m" "current_task ?s1 = 0x30"
    using switch_to_tasks(3) [of sched_example "0x30"] switch_to_context [of sched_example "0x30"] o
      task_switch_asm_saves(1) [OF o] e by (simp_all add: switch_to_fields)
  obtain old' c' m' where o': "task_switch_asm (t_esp (tasks ?s1 0x10)) (cpu ?s1, vmem ?s1) = (old', c', m')"
    by (metis prod_cases3)
  have v: "vmem (snd (switch_to 0x10 ?s1)) = m'" using switch_to_context [of ?s1 "0x10"] o' p(4) by simp
  have old': "old' = 0xE0003FEC" using task_switch_asm_saves(1) [OF o'] task_switch_asm_loads(6) [OF o] p(2) by simp
  have keep: "m' (0xE0001EF0 + word_of_nat i) = m (0xE0001EF0 + word_of_nat i)" if "i < 20" for i
  proof -
    have i: "unat (word_of_nat i :: u32) = i" using that by (intro unat_u32_of_nat) simp
    have eq: "(0xE0001EF0 + word_of_nat i) - 0xE0003FEC = (0xFFFFDF04 :: u32) + word_of_nat i" by simp
    have "unat ((0xFFFFDF04 :: u32) + word_of_nat i) = 0xFFFFDF04 + i"
      using that i by (subst unat_u32_add) simp_all
    then have "16 \<le> unat ((0xE0001EF0 + word_of_nat i) - (0xE0003FEC :: u32))" unfolding eq by linarith
    then show ?thesis using task_switch_asm_saves(7) [OF o', of "0xE0001EF0 + word_of_nat i"] old' p(3) by simp
  qed
  have fl: "r_eflags c = 0x202" using task_switch_asm_loads(7) [OF o] e by simp
  show ?thesis
    using context_switch_roundtrip [of "0x10" sched_example "0x30" ?s1 ?s1] keep p v fl e
    by (simp add: ld32_def)
qed



lemma timer_wait_ends:
  assumes "\<And>s. timer_ticks (intr s) = timer_ticks s + 1" and "unat (timer_ticks s) \<le> unat target"
  shows "\<exists>s'. timer_wait intr target s = Some s' \<and> timer_ticks s' = target"
  using assms(2)
proof (induction "unat target - unat (timer_ticks s)" arbitrary: s)
  case 0
  then show ?case by (subst timer_wait.simps) (auto simp: word_less_nat_alt u32_eq_unat)
next
  case (Suc k)
  then have lt: "timer_ticks s < target" by (simp add: word_less_nat_alt)
  then have u: "unat (timer_ticks (intr s)) = Suc (unat (timer_ticks s))" by (simp add: assms(1) unat_u32_succ)
  have "\<exists>s'. timer_wait intr target (intr s) = Some s' \<and> timer_ticks s' = target"
    by (rule Suc.hyps(1)) (use Suc u lt in \<open>auto simp: word_less_nat_alt\<close>)
  then show ?case using lt by (subst timer_wait.simps) simp
qed



text \<open>The first switch, when no task is current, saves the stack pointer of the boot code through the
  \<^verbatim>\<open>NULL\<close> pointer: the structure at address 0 is written.\<close>

theorem task_switch_from_null:
  assumes "sched_inv s us" and "us \<noteq> []" and "current_task s = 0" and "next_ready s us = Some n"
  shows "\<exists>s'. task_switch s = Some (True, s') \<and> current_task s' = n \<and>
    t_esp (tasks s' 0) = r_esp (cpu s) - 16"
proof -
  have r: "ring s us" and c: "current_task s = 0 \<or> current_task s \<in> set us" and z: "0 \<notin> set us" "distinct us"
    using assms(1) by (auto simp: sched_inv_def ring_def)
  let ?s = "s\<lparr>tasks := woken s us\<rparr>"
  have n: "current_task ?s \<noteq> n" using next_ready_mem(1) [OF assms(4) c z(2)] z(1) assms(3) by auto
  obtain old cc m where o: "task_switch_asm (t_esp (tasks ?s n)) (cpu ?s, vmem ?s) = (old, cc, m)" by (metis prod_cases3)
  have "t_esp (tasks (snd (switch_to n ?s)) (current_task ?s)) = r_esp (cpu s) - 16"
    unfolding switch_to_tasks(3) [OF n] o using task_switch_asm_saves(1) [OF o] by simp
  moreover have "task_switch s = Some (True, snd (switch_to n ?s))"
    using task_switch_eq [OF r assms(2) c] assms(4) switch_to_fields(1) [of n ?s] n
    by (simp add: prod_eq_iff)
  ultimately show ?thesis using assms(3) by (simp add: switch_to_fields)
qed

theorem task_switch_from_null_witness:
  "\<exists>s'. task_switch (sched_example\<lparr>current_task := 0, tasks := (tasks sched_example)(0x10 := example_task 1 1 0x20 0)\<rparr>)
     = Some (True, s') \<and> current_task s' = 0x10 \<and> t_esp (tasks s' 0) = 0xE0001EF0"
proof -
  let ?s = "sched_example\<lparr>current_task := 0, tasks := (tasks sched_example)(0x10 := example_task 1 1 0x20 0)\<rparr>"
  have "sched_inv ?s [0x10, 0x20, 0x30]" by (simp add: sched_inv_def ring_def example_defs)
  moreover have "next_ready ?s [0x10, 0x20, 0x30] = Some 0x10"
    by (simp add: next_ready_def scan_def woken_def wake_sleeper_def example_defs)
  moreover have "r_esp (cpu ?s) = 0xE0001F00" by (simp add: example_defs)
  ultimately show ?thesis using task_switch_from_null [of ?s "[0x10, 0x20, 0x30]" "0x10"] by simp
qed

end
