(* ===== verification/Sync.thy ===== *)
theory Sync
  imports Scheduler
begin

text \<open>
  Mutexes and semaphores: \<^verbatim>\<open>src/kernel/task/sync.c\<close>. A mutex or semaphore is a structure in memory; its
  wait queue is the list whose head lies at the address of the field \<^verbatim>\<open>wait_queue\<close>. The interface of
  the wait queues is the locale \<open>blocking_queue\<close>; the mutex refines an owner with a list of
  waiting tasks, the semaphore a counter with such a list.
\<close>

section \<open>Model\<close>

record mutex =
  m_locked :: u32
  m_owner :: u32

record semaphore =
  sem_count :: u32

record sync_state = task_state +
  mutexes :: "u32 \<Rightarrow> mutex"
  semaphores :: "u32 \<Rightarrow> semaphore"

text \<open>The addresses of the fields \<^verbatim>\<open>wait_queue\<close>.\<close>

abbreviation (input) mutex_queue :: "u32 \<Rightarrow> u32" where "mutex_queue m \<equiv> m + 8"
abbreviation (input) sem_queue :: "u32 \<Rightarrow> u32" where "sem_queue sm \<equiv> sm + 4"

definition disable_interrupts :: "'a task_state_scheme \<Rightarrow> u32 \<times> 'a task_state_scheme" where
  "disable_interrupts s = (r_eflags (cpu s), s\<lparr>cpu := (cpu s)\<lparr>r_eflags := r_eflags (cpu s) AND NOT 0x200\<rparr>\<rparr>)"

definition restore_interrupts :: "u32 \<Rightarrow> 'a task_state_scheme \<Rightarrow> 'a task_state_scheme" where
  "restore_interrupts eflags s = s\<lparr>cpu := (cpu s)\<lparr>r_eflags := eflags\<rparr>\<rparr>"

definition mutex_init :: "u32 \<Rightarrow> 'a sync_state_scheme \<Rightarrow> 'a sync_state_scheme" where
  "mutex_init m s =
     (if m \<noteq> 0
      then s\<lparr>mutexes := (mutexes s)(m := \<lparr>m_locked = 0, m_owner = 0\<rparr>), wait_queues := (wait_queues s)(mutex_queue m := 0)\<rparr>
      else s)"

text \<open>When the caller is blocked, \<open>restore_interrupts\<close> runs when it is resumed.\<close>

definition mutex_lock :: "u32 \<Rightarrow> 'a sync_state_scheme \<Rightarrow> (bool \<times> 'a sync_state_scheme) option" where
  "mutex_lock m s =
     (if m = 0 then Some (False, s)
      else let current = task_get_current s
           in if current = 0 then Some (False, s)
              else let (flags, s) = disable_interrupts s
                   in if m_locked (mutexes s m) = 0
                      then Some (False, restore_interrupts flags
                             (s\<lparr>mutexes := (mutexes s)(m := \<lparr>m_locked = 1, m_owner = current\<rparr>)\<rparr>))
                      else if m_owner (mutexes s m) = current then Some (False, restore_interrupts flags s)
                      else map_option (\<lambda>(switched, s). (switched, if switched then s else restore_interrupts flags s))
                             (task_block (mutex_queue m) s))"

definition mutex_unlock :: "u32 \<Rightarrow> 'a sync_state_scheme \<Rightarrow> 'a sync_state_scheme" where
  "mutex_unlock m s =
     (if m = 0 then s
      else let current = task_get_current s;
               (flags, s) = disable_interrupts s;
               s = (if m_locked (mutexes s m) \<noteq> 0 \<and> m_owner (mutexes s m) = current
                    then if wait_queues s (mutex_queue m) \<noteq> 0
                         then let next_owner = wait_queues s (mutex_queue m);
                                  s = task_unblock (mutex_queue m) s
                              in s\<lparr>mutexes := (mutexes s)(m := (mutexes s m)\<lparr>m_owner := next_owner\<rparr>)\<rparr>
                         else s\<lparr>mutexes := (mutexes s)(m := \<lparr>m_locked = 0, m_owner = 0\<rparr>)\<rparr>
                    else s)
           in restore_interrupts flags s)"

definition mutex_trylock :: "u32 \<Rightarrow> 'a sync_state_scheme \<Rightarrow> bool \<times> 'a sync_state_scheme" where
  "mutex_trylock m s =
     (if m = 0 then (False, s)
      else let current = task_get_current s
           in if current = 0 then (False, s)
              else let (flags, s) = disable_interrupts s;
                       (success, s) = (if m_locked (mutexes s m) = 0
                         then (True, s\<lparr>mutexes := (mutexes s)(m := \<lparr>m_locked = 1, m_owner = current\<rparr>)\<rparr>)
                         else (False, s))
                   in (success, restore_interrupts flags s))"

definition sem_init :: "u32 \<Rightarrow> u32 \<Rightarrow> 'a sync_state_scheme \<Rightarrow> 'a sync_state_scheme" where
  "sem_init sm value s =
     (if sm \<noteq> 0
      then s\<lparr>semaphores := (semaphores s)(sm := \<lparr>sem_count = value\<rparr>), wait_queues := (wait_queues s)(sem_queue sm := 0)\<rparr>
      else s)"

definition sem_wait :: "u32 \<Rightarrow> 'a sync_state_scheme \<Rightarrow> (bool \<times> 'a sync_state_scheme) option" where
  "sem_wait sm s =
     (if sm = 0 then Some (False, s)
      else let (flags, s) = disable_interrupts s
           in if 0 < sem_count (semaphores s sm)
              then Some (False, restore_interrupts flags
                     (s\<lparr>semaphores := (semaphores s)(sm := \<lparr>sem_count = sem_count (semaphores s sm) - 1\<rparr>)\<rparr>))
              else map_option (\<lambda>(switched, s). (switched, if switched then s else restore_interrupts flags s))
                     (task_block (sem_queue sm) s))"

definition sem_post :: "u32 \<Rightarrow> 'a sync_state_scheme \<Rightarrow> 'a sync_state_scheme" where
  "sem_post sm s =
     (if sm = 0 then s
      else let (flags, s) = disable_interrupts s;
               s = (if wait_queues s (sem_queue sm) \<noteq> 0 then task_unblock (sem_queue sm) s
                    else s\<lparr>semaphores := (semaphores s)(sm := \<lparr>sem_count = sem_count (semaphores s sm) + 1\<rparr>)\<rparr>)
           in restore_interrupts flags s)"

section \<open>The interface of a wait queue\<close>

text \<open>\<open>waiting s q\<close>: the tasks \<open>q\<close> wait, in this order.\<close>

locale blocking_queue =
  fixes waiting :: "'s \<Rightarrow> u32 list \<Rightarrow> bool" and runs :: "'s \<Rightarrow> u32 \<Rightarrow> bool" and ready :: "'s \<Rightarrow> u32 \<Rightarrow> bool"
    and block :: "'s \<Rightarrow> (bool \<times> 's) option" and unblock :: "'s \<Rightarrow> 's"
  assumes block_law: "waiting s q \<Longrightarrow> runs s c \<Longrightarrow> \<exists>b s'. block s = Some (b, s') \<and> waiting s' (q @ [c])"
    and unblock_law: "waiting s (t # q) \<Longrightarrow> waiting (unblock s) q \<and> ready (unblock s) t"
begin

lemma unblock_many: "waiting s (p @ q) \<Longrightarrow> waiting ((unblock ^^ length p) s) q"
proof (induction p arbitrary: s)
  case (Cons t p)
  then have "waiting ((unblock ^^ length p) (unblock s)) q" using unblock_law by auto
  then show ?case by (simp add: funpow_swap1)
qed simp

lemma unblock_order:
  assumes "waiting s q" and "k < length q"
  shows "ready ((unblock ^^ Suc k) s) (q ! k)"
proof -
  have "waiting s (take k q @ q ! k # drop (Suc k) q)" using assms id_take_nth_drop by fastforce
  from unblock_many [OF this] have "waiting ((unblock ^^ k) s) (q ! k # drop (Suc k) q)" using assms(2) by simp
  then show ?thesis using unblock_law by simp
qed

lemma block_unblock:
  assumes "waiting s q" and "runs s c"
  obtains b s' where "block s = Some (b, s')" and "ready ((unblock ^^ Suc (length q)) s') c"
proof -
  obtain b s' where b: "block s = Some (b, s')" "waiting s' (q @ [c])" using block_law assms by blast
  from unblock_order [OF b(2), of "length q"] have "ready ((unblock ^^ Suc (length q)) s') c" by simp
  with b(1) show thesis by (rule that)
qed

end

text \<open>The wait queue at address \<open>w\<close> among the tasks \<open>us\<close>: all that wait are blocked and not asleep.\<close>

definition wq_waiting :: "u32 list \<Rightarrow> u32 \<Rightarrow> 'a task_state_scheme \<Rightarrow> u32 list \<Rightarrow> bool" where
  "wq_waiting us w s q \<longleftrightarrow> w \<noteq> 0 \<and> sched_inv s us \<and> queue s w q \<and>
     (\<forall>t \<in> set q. t \<in> set us \<and> t_state (tasks s t) = TASK_BLOCKED \<and> t_wake_ticks (tasks s t) = 0)"

definition wq_runs :: "'a task_state_scheme \<Rightarrow> u32 \<Rightarrow> bool" where
  "wq_runs s c \<longleftrightarrow> current_task s = c \<and> c \<noteq> 0 \<and> t_state (tasks s c) = TASK_RUNNING"

definition wq_ready :: "'a task_state_scheme \<Rightarrow> u32 \<Rightarrow> bool" where
  "wq_ready s t \<longleftrightarrow> t_state (tasks s t) = TASK_READY"

abbreviation (input) parked :: "'a task_state_scheme \<Rightarrow> u32 \<Rightarrow> bool" where
  "parked s t \<equiv> t_state (tasks s t) = TASK_BLOCKED \<and> t_wake_ticks (tasks s t) = 0"

lemma wq_block:
  assumes "wq_waiting us w s q" and "wq_runs s c"
  shows "\<exists>b s'. task_block w s = Some (b, s') \<and> wq_waiting us w s' (q @ [c]) \<and>
    task_state.more s' = task_state.more s \<and> (\<forall>v. v \<noteq> w \<longrightarrow> wait_queues s' v = wait_queues s v) \<and>
    (\<forall>a. parked s a \<longrightarrow> parked s' a) \<and>
    (b \<longrightarrow> current_task s' \<noteq> c \<and> current_task s' \<in> set us \<and> t_state (tasks s' (current_task s')) = TASK_RUNNING) \<and>
    (\<not> b \<longrightarrow> current_task s' = c \<and> (\<forall>u \<in> set us. t_state (tasks s' u) \<noteq> TASK_READY))"
proof -
  have i: "sched_inv s us" "w \<noteq> 0" "queue s w q" and c: "current_task s = c" "c \<noteq> 0"
    and nq: "c \<notin> set q" using assms by (auto simp: wq_waiting_def wq_runs_def)
  have "c \<in> set us" using i(1) c by (auto simp: sched_inv_def)
  then show ?thesis using task_block_result [OF i(1) _ i(2,3)] c nq assms(1) by (auto simp: wq_waiting_def)
qed

lemma wq_unblock:
  assumes "wq_waiting us w s (t # q)"
  shows "wq_waiting us w (task_unblock w s) q \<and> wq_ready (task_unblock w s) t \<and>
    task_state.more (task_unblock w s) = task_state.more s \<and> current_task (task_unblock w s) = current_task s \<and>
    (\<forall>v. v \<noteq> w \<longrightarrow> wait_queues (task_unblock w s) v = wait_queues s v)"
proof -
  have i: "sched_inv s us" "w \<noteq> 0" "queue s w (t # q)" "t_state (tasks s t) = TASK_BLOCKED" and "t \<notin> set q"
    using assms by (auto simp: wq_waiting_def queue_def)
  then show ?thesis using task_unblock_result [OF i] assms by (auto simp: wq_waiting_def wq_ready_def)
qed

interpretation wq: blocking_queue "wq_waiting us w" wq_runs wq_ready "task_block w" "task_unblock w" for us w
  by unfold_locales (use wq_block wq_unblock in blast)+

section \<open>The mutex\<close>

text \<open>The specification: the owner, or 0, and the tasks that wait.\<close>

fun spec_lock :: "u32 \<Rightarrow> u32 \<times> u32 list \<Rightarrow> u32 \<times> u32 list" where
  "spec_lock c (own, q) = (if own = 0 then (c, q) else if own = c then (own, q) else (own, q @ [c]))"

fun spec_unlock :: "u32 \<Rightarrow> u32 \<times> u32 list \<Rightarrow> u32 \<times> u32 list" where
  "spec_unlock c (own, []) = (if own = c then 0 else own, [])"
| "spec_unlock c (own, t # q) = (if own = c then (t, q) else (own, t # q))"

definition mutex_rel :: "u32 list \<Rightarrow> u32 \<Rightarrow> 'a sync_state_scheme \<Rightarrow> u32 \<times> u32 list \<Rightarrow> bool" where
  "mutex_rel us m s = (\<lambda>(own, q). m \<noteq> 0 \<and> wq_waiting us (mutex_queue m) s q \<and> own = m_owner (mutexes s m) \<and>
     (if m_locked (mutexes s m) = 0 then own = 0 \<and> q = [] else own \<noteq> 0 \<and> own \<notin> set q))"

lemma wq_waiting_cong:
  "wq_waiting us w s q \<Longrightarrow> tasks s' = tasks s \<Longrightarrow> current_task s' = current_task s \<Longrightarrow> task_list s' = task_list s \<Longrightarrow>
     task_count s' = task_count s \<Longrightarrow> wait_queues s' w = wait_queues s w \<Longrightarrow> wq_waiting us w s' q"
  by (simp add: wq_waiting_def sched_inv_def ring_def queue_def)

lemma sync_fields:
  assumes "task_state.more s' = task_state.more s"
  shows "mutexes s' = mutexes s" "semaphores s' = semaphores s" "sync_state.more s' = sync_state.more s"
  using assms by (cases s; cases s'; simp)+

lemma interrupt_fields [simp]:
  "tasks (snd (disable_interrupts s)) = tasks s" "tasks (restore_interrupts f s) = tasks s"
  "current_task (snd (disable_interrupts s)) = current_task s" "current_task (restore_interrupts f s) = current_task s"
  "task_list (snd (disable_interrupts s)) = task_list s" "task_list (restore_interrupts f s) = task_list s"
  "task_count (snd (disable_interrupts s)) = task_count s" "task_count (restore_interrupts f s) = task_count s"
  "wait_queues (snd (disable_interrupts s)) = wait_queues s" "wait_queues (restore_interrupts f s) = wait_queues s"
  "mutexes (snd (disable_interrupts s3)) = mutexes s3" "mutexes (restore_interrupts f s3) = mutexes s3"
  "semaphores (snd (disable_interrupts s3)) = semaphores s3" "semaphores (restore_interrupts f s3) = semaphores s3"
  "wq_waiting us w (snd (disable_interrupts s)) q = wq_waiting us w s q"
  "wq_waiting us w (restore_interrupts f s) q = wq_waiting us w s q"
  "wq_waiting us w (s3\<lparr>mutexes := x\<rparr>) q = wq_waiting us w s3 q"
  "wq_waiting us w (s3\<lparr>semaphores := y\<rparr>) q = wq_waiting us w s3 q"
  "wq_runs (snd (disable_interrupts s)) c = wq_runs s c" "wq_ready (restore_interrupts f s) t = wq_ready s t"
  by (auto simp: disable_interrupts_def restore_interrupts_def wq_runs_def wq_ready_def
      elim: wq_waiting_cong)

text \<open>A wait on either kind of object.\<close>

lemma wait_block:
  assumes "wq_waiting us w (snd (disable_interrupts s)) q" and "wq_runs s c"
  shows "\<exists>b s'. map_option (\<lambda>(switched, s). (switched, if switched then s else restore_interrupts f s))
      (task_block w (snd (disable_interrupts s))) = Some (b, s') \<and> wq_waiting us w s' (q @ [c]) \<and>
    mutexes s' = mutexes s \<and> semaphores s' = semaphores s \<and> (\<forall>v. v \<noteq> w \<longrightarrow> wait_queues s' v = wait_queues s v) \<and>
    (\<forall>a. parked s a \<longrightarrow> parked s' a) \<and> (b \<longrightarrow> current_task s' \<noteq> c \<and> current_task s' \<in> set us \<and> t_state (tasks s' (current_task s')) = TASK_RUNNING) \<and>
    (\<not> b \<longrightarrow> current_task s' = c \<and> (\<forall>u \<in> set us. t_state (tasks s' u) \<noteq> TASK_READY))"
proof -
  let ?s = "snd (disable_interrupts s)"
  obtain b s' where b: "task_block w ?s = Some (b, s')" "wq_waiting us w s' (q @ [c])"
    "task_state.more s' = task_state.more ?s" "\<forall>v. v \<noteq> w \<longrightarrow> wait_queues s' v = wait_queues s v"
    "\<forall>a. parked s a \<longrightarrow> parked s' a" "b \<longrightarrow> current_task s' \<noteq> c \<and> current_task s' \<in> set us \<and> t_state (tasks s' (current_task s')) = TASK_RUNNING"
    "\<not> b \<longrightarrow> current_task s' = c \<and> (\<forall>u \<in> set us. t_state (tasks s' u) \<noteq> TASK_READY)"
    using wq_block [OF assms(1), of c] assms(2) by auto
  show ?thesis
    by (rule exI [of _ b], rule exI [of _ "if b then s' else restore_interrupts f s'"])
      (use b sync_fields [OF b(3)] in auto)
qed

lemma mutex_lock_refines:
  assumes "mutex_rel us m s (own, q)" and "wq_runs s c"
  shows "\<exists>b s'. mutex_lock m s = Some (b, s') \<and> mutex_rel us m s' (spec_lock c (own, q)) \<and>
    (own = 0 \<or> own = c \<longrightarrow> \<not> b \<and> tasks s' = tasks s \<and> current_task s' = c) \<and>
    (\<forall>a. parked s a \<longrightarrow> parked s' a) \<and>
    (own \<noteq> 0 \<and> own \<noteq> c \<longrightarrow> (if b then current_task s' \<noteq> c \<and> current_task s' \<in> set us \<and> t_state (tasks s' (current_task s')) = TASK_RUNNING
       else current_task s' = c \<and> (\<forall>u \<in> set us. t_state (tasks s' u) \<noteq> TASK_READY)))"
proof -
  have m: "m \<noteq> 0" "wq_waiting us (mutex_queue m) s q" "own = m_owner (mutexes s m)"
    "if m_locked (mutexes s m) = 0 then own = 0 \<and> q = [] else own \<noteq> 0 \<and> own \<notin> set q"
    and c: "current_task s = c" "c \<noteq> 0" "c \<notin> set q"
    using assms by (auto simp: mutex_rel_def wq_runs_def wq_waiting_def)
  note u = mutex_lock_def task_get_current_def Let_def case_prod_beta c m(1)
  show ?thesis
  proof (cases "own = 0 \<or> own = c")
    case True
    let ?s = "snd (disable_interrupts s)"
    define s' where "s' = restore_interrupts (fst (disable_interrupts s))
      (if own = 0 then ?s\<lparr>mutexes := (mutexes s)(m := \<lparr>m_locked = 1, m_owner = c\<rparr>)\<rparr> else ?s)"
    have "mutex_lock m s = Some (False, s')" using True m(3,4) by (auto simp: u s'_def split: if_splits)
    moreover have "mutex_rel us m s' (spec_lock c (own, q))"
      using True m c by (auto simp: mutex_rel_def s'_def split: if_splits)
    moreover have "tasks s' = tasks s" "current_task s' = c" using c by (simp_all add: s'_def)
    ultimately show ?thesis using True by auto
  next
    case False
    obtain b s' where w: "map_option (\<lambda>(switched, s1). (switched, if switched then s1
        else restore_interrupts (fst (disable_interrupts s)) s1)) (task_block (mutex_queue m) (snd (disable_interrupts s))) = Some (b, s')"
      "wq_waiting us (mutex_queue m) s' (q @ [c])"
      "mutexes s' = mutexes s" "\<forall>a. parked s a \<longrightarrow> parked s' a"
      "b \<longrightarrow> current_task s' \<noteq> c \<and> current_task s' \<in> set us \<and> t_state (tasks s' (current_task s')) = TASK_RUNNING"
      "\<not> b \<longrightarrow> current_task s' = c \<and> (\<forall>u \<in> set us. t_state (tasks s' u) \<noteq> TASK_READY)"
      using wait_block [of us "mutex_queue m" s q c "fst (disable_interrupts s)"] m(2) assms(2) by auto
    have l: "m_locked (mutexes s m) \<noteq> 0" using m False by auto
    then have "mutex_lock m s = Some (b, s')" using w(1) m(3) False by (simp add: u case_prod_unfold)
    moreover have "mutex_rel us m s' (spec_lock c (own, q))" using m w(2,3) l False c by (simp add: mutex_rel_def)
    ultimately show ?thesis using False w(4-6) by auto
  qed
qed

lemma mutex_unlock_refines:
  assumes "mutex_rel us m s (own, q)" and "current_task s = c"
  shows "mutex_rel us m (mutex_unlock m s) (spec_unlock c (own, q)) \<and> current_task (mutex_unlock m s) = c \<and>
    (own = c \<and> q \<noteq> [] \<longrightarrow> wq_ready (mutex_unlock m s) (hd q))"
proof -
  have m: "m \<noteq> 0" "wq_waiting us (mutex_queue m) s q" "own = m_owner (mutexes s m)"
    "if m_locked (mutexes s m) = 0 then own = 0 \<and> q = [] else own \<noteq> 0 \<and> own \<notin> set q"
    using assms by (auto simp: mutex_rel_def)
  note u = mutex_unlock_def task_get_current_def Let_def case_prod_beta assms(2) m(1) mutex_rel_def
  have wq: "wait_queues s (mutex_queue m) = (case q of [] \<Rightarrow> 0 | t # _ \<Rightarrow> t)" and q0: "0 \<notin> set q" and dq: "distinct q"
    using m(2) by (auto simp: wq_waiting_def queue_def split: list.splits)
  show ?thesis
  proof (cases q)
    case Nil
    then show ?thesis using m wq assms(2) by (auto simp: u)
  next
    case (Cons t p)
    let ?s = "task_unblock (mutex_queue m) (snd (disable_interrupts s))"
    have r: "wq_waiting us (mutex_queue m) ?s p" "wq_ready ?s t" "current_task ?s = c" "mutexes ?s = mutexes s"
      using wq_unblock [of us "mutex_queue m" "snd (disable_interrupts s)" t p] m(2) Cons assms(2)
        sync_fields(1) [of ?s "snd (disable_interrupts s)"] by auto
    have "wq_ready (?s\<lparr>mutexes := x\<rparr>) t" for x using r(2) by (simp add: wq_ready_def)
    then show ?thesis using m wq r q0 dq Cons assms(2) by (auto simp: u)
  qed
qed

lemma mutex_trylock_refines:
  assumes "mutex_rel us m s (own, q)" and "wq_runs s c"
  shows "\<exists>s'. mutex_trylock m s = (own = 0, s') \<and> mutex_rel us m s' (if own = 0 then (c, q) else (own, q)) \<and>
    tasks s' = tasks s \<and> current_task s' = c"
proof -
  have m: "m \<noteq> 0" "wq_waiting us (mutex_queue m) s q" "own = m_owner (mutexes s m)"
    "if m_locked (mutexes s m) = 0 then own = 0 \<and> q = [] else own \<noteq> 0 \<and> own \<notin> set q"
    and c: "current_task s = c" "c \<noteq> 0" "c \<notin> set q"
    using assms by (auto simp: mutex_rel_def wq_runs_def wq_waiting_def)
  then show ?thesis
    by (auto simp: mutex_trylock_def task_get_current_def Let_def case_prod_beta mutex_rel_def split: if_splits)
qed

section \<open>The semaphore\<close>

definition sem_rel :: "u32 list \<Rightarrow> u32 \<Rightarrow> 'a sync_state_scheme \<Rightarrow> u32 \<Rightarrow> u32 list \<Rightarrow> bool" where
  "sem_rel us sm s n q \<longleftrightarrow> sm \<noteq> 0 \<and> wq_waiting us (sem_queue sm) s q \<and> sem_count (semaphores s sm) = n \<and> (n \<noteq> 0 \<longrightarrow> q = [])"

lemma sem_wait_refines:
  assumes "sem_rel us sm s n q" and "wq_runs s c"
  shows "\<exists>b s'. sem_wait sm s = Some (b, s') \<and>
    (if n \<noteq> 0 then \<not> b \<and> sem_rel us sm s' (n - 1) [] \<and> tasks s' = tasks s \<and> current_task s' = c
     else sem_rel us sm s' 0 (q @ [c]) \<and>
       (if b then current_task s' \<noteq> c else current_task s' = c \<and> (\<forall>u \<in> set us. t_state (tasks s' u) \<noteq> TASK_READY)))"
proof -
  have m: "sm \<noteq> 0" "wq_waiting us (sem_queue sm) s q" "sem_count (semaphores s sm) = n" "n \<noteq> 0 \<longrightarrow> q = []"
    and c: "current_task s = c" using assms by (auto simp: sem_rel_def wq_runs_def)
  note u = sem_wait_def Let_def case_prod_beta m(1)
  show ?thesis
  proof (cases "n = 0")
    case False
    then show ?thesis using m c by (auto simp: u sem_rel_def word_gt_0)
  next
    case True
    obtain b s' where w: "map_option (\<lambda>(switched, s1). (switched, if switched then s1
        else restore_interrupts (fst (disable_interrupts s)) s1)) (task_block (sem_queue sm) (snd (disable_interrupts s))) = Some (b, s')"
      "wq_waiting us (sem_queue sm) s' (q @ [c])" "semaphores s' = semaphores s" "b \<longrightarrow> current_task s' \<noteq> c"
      "\<not> b \<longrightarrow> current_task s' = c \<and> (\<forall>u \<in> set us. t_state (tasks s' u) \<noteq> TASK_READY)"
      using wait_block [of us "sem_queue sm" s q c "fst (disable_interrupts s)"] m(2) assms(2) by auto
    then have "sem_wait sm s = Some (b, s')" using True m by (simp add: u case_prod_unfold)
    then show ?thesis using True w m by (auto simp: sem_rel_def)
  qed
qed

lemma sem_post_refines:
  assumes "sem_rel us sm s n q"
  shows "case q of [] \<Rightarrow> sem_rel us sm (sem_post sm s) (n + 1) []
    | t # p \<Rightarrow> sem_rel us sm (sem_post sm s) 0 p \<and> wq_ready (sem_post sm s) t"
proof -
  have m: "sm \<noteq> 0" "wq_waiting us (sem_queue sm) s q" "sem_count (semaphores s sm) = n" "n \<noteq> 0 \<longrightarrow> q = []"
    using assms by (auto simp: sem_rel_def)
  note u = sem_post_def Let_def case_prod_beta m(1) sem_rel_def
  have wq: "wait_queues s (sem_queue sm) = (case q of [] \<Rightarrow> 0 | t # _ \<Rightarrow> t)" and q0: "0 \<notin> set q"
    using m(2) by (auto simp: wq_waiting_def queue_def split: list.splits)
  show ?thesis
  proof (cases q)
    case Nil
    then show ?thesis using m wq by (auto simp: u)
  next
    case (Cons t p)
    let ?s = "task_unblock (sem_queue sm) (snd (disable_interrupts s))"
    have r: "wq_waiting us (sem_queue sm) ?s p" "wq_ready ?s t" "semaphores ?s = semaphores s"
      using wq_unblock [of us "sem_queue sm" "snd (disable_interrupts s)" t p] m(2) Cons
        sync_fields(2) [of ?s "snd (disable_interrupts s)"] by auto
    then show ?thesis using m wq q0 Cons by (auto simp: u)
  qed
qed

section \<open>Properties\<close>

text \<open>The three tasks of the example, a mutex at \<^verbatim>\<open>0x500\<close> that the third owns, and a semaphore at
  \<^verbatim>\<open>0x600\<close>; the third task is in state \<open>st\<close>, the second does not wake by itself.\<close>

definition sync_example :: "u32 \<Rightarrow> sync_state" where
  "sync_example st = task_state.extend (sched_example\<lparr>tasks := (tasks sched_example)
       (0x20 := example_task 2 2 0x30 0, 0x30 := example_task 3 st 0x10 0)\<rparr>)
     (sync_state.fields ((\<lambda>_. \<lparr>m_locked = 0, m_owner = 0\<rparr>)(0x500 := \<lparr>m_locked = 1, m_owner = 0x30\<rparr>))
       (\<lambda>_. \<lparr>sem_count = 0\<rparr>))"

lemma sync_example_fields:
  "tasks (sync_example st) = (tasks sched_example)(0x20 := example_task 2 2 0x30 0, 0x30 := example_task 3 st 0x10 0)"
  "current_task (sync_example st) = 0x10" "wait_queues (sync_example st) = (\<lambda>_. 0)" "task_list (sync_example st) = 0x10"
  "task_count (sync_example st) = 3"
  "mutexes (sync_example st) = (\<lambda>_. \<lparr>m_locked = 0, m_owner = 0\<rparr>)(0x500 := \<lparr>m_locked = 1, m_owner = 0x30\<rparr>)"
  "semaphores (sync_example st) = (\<lambda>_. \<lparr>sem_count = 0\<rparr>)" "tasks sched_example 0x10 = example_task 1 0 0x20 0"
  by (simp_all add: sync_example_def sync_state.defs example_defs)

lemma sync_example_rel:
  assumes "st \<noteq> 0"
  shows "wq_runs (sync_example st) 0x10" "mutex_rel [0x10, 0x20, 0x30] 0x500 (sync_example st) (0x30, [])"
    "sem_rel [0x10, 0x20, 0x30] 0x600 (sync_example st) 0 []"
  using assms by (simp_all add: wq_runs_def mutex_rel_def sem_rel_def wq_waiting_def sched_inv_def ring_def queue_def
    sync_example_fields example_task_def)

text \<open>C12: a mutex implements its specification, an owner with a first-in first-out list of waiting tasks.
  Taking it returns at once when it is free or already owned and otherwise appends the caller to the
  waiting tasks, blocked; only the owner can release it, which hands it over to the task that waits
  longest and makes that task ready. At every moment there is at most one owner.\<close>

theorem mutex_correct:
  assumes "mutex_rel us m s (own, q)" and "wq_runs s c"
  shows "(\<exists>b s'. mutex_lock m s = Some (b, s') \<and> mutex_rel us m s' (spec_lock c (own, q)) \<and>
      (own = 0 \<or> own = c \<longrightarrow> \<not> b \<and> tasks s' = tasks s \<and> current_task s' = c)) \<and>
    mutex_rel us m (mutex_unlock m s) (spec_unlock c (own, q)) \<and>
    (own = c \<and> q \<noteq> [] \<longrightarrow> m_owner (mutexes (mutex_unlock m s) m) = hd q \<and> wq_ready (mutex_unlock m s) (hd q)) \<and>
    (\<exists>s'. mutex_trylock m s = (own = 0, s') \<and> mutex_rel us m s' (if own = 0 then (c, q) else (own, q)))"
proof -
  have c: "current_task s = c" using assms(2) by (simp add: wq_runs_def)
  have "m_owner (mutexes (mutex_unlock m s) m) = hd q" if "own = c" "q \<noteq> []"
    using mutex_unlock_refines [OF assms(1) c] that by (cases q) (auto simp: mutex_rel_def)
  then show ?thesis
    using mutex_lock_refines [OF assms] mutex_unlock_refines [OF assms(1) c] mutex_trylock_refines [OF assms] by blast
qed

theorem mutex_correct_witness:
  "\<exists>b s'. mutex_lock 0x500 (sync_example 1) = Some (b, s') \<and>
     mutex_rel [0x10, 0x20, 0x30] 0x500 s' (0x30, [0x10])"
  using mutex_correct [OF sync_example_rel(2,1), of 1] by auto

text \<open>C13: a semaphore implements its specification, a counter with a list of waiting tasks that is empty
  unless the counter is 0: waiting takes one unit or queues the caller, posting wakes the task that
  waits longest or adds one unit.\<close>

theorem semaphore_correct:
  assumes "sem_rel us sm s n q" and "wq_runs s c"
  shows "(\<exists>b s'. sem_wait sm s = Some (b, s') \<and>
      (if n \<noteq> 0 then \<not> b \<and> sem_rel us sm s' (n - 1) [] \<and> tasks s' = tasks s else sem_rel us sm s' 0 (q @ [c]))) \<and>
    (case q of [] \<Rightarrow> sem_rel us sm (sem_post sm s) (n + 1) []
     | t # p \<Rightarrow> sem_rel us sm (sem_post sm s) 0 p \<and> wq_ready (sem_post sm s) t)"
  using sem_wait_refines [OF assms] sem_post_refines [OF assms(1)] by (cases "n = 0") auto

theorem semaphore_correct_witness:
  "\<exists>b s'. sem_wait 0x600 (sync_example 1) = Some (b, s') \<and> sem_rel [0x10, 0x20, 0x30] 0x600 s' 0 [0x10]"
  using semaphore_correct [OF sync_example_rel(3,1), of 1] by auto

text \<open>Wait queues are first-in first-out: a task that blocks behind \<open>k\<close> others is made ready by the
  \<open>k + 1\<close>st call of \<open>task_unblock\<close>, and each call before makes ready the next of the others.\<close>

theorem wait_queue_fifo:
  assumes "wq_waiting us w s q" and "wq_runs s c"
  shows "(\<exists>b s'. task_block w s = Some (b, s') \<and> wq_waiting us w s' (q @ [c]) \<and>
      wq_ready ((task_unblock w ^^ Suc (length q)) s') c) \<and>
    (\<forall>k < length q. wq_ready ((task_unblock w ^^ Suc k) s) (q ! k))"
proof -
  obtain b s' where b: "task_block w s = Some (b, s')" "wq_waiting us w s' (q @ [c])" using wq_block [OF assms] by blast
  have "wq_ready ((task_unblock w ^^ Suc (length q)) s') c" using wq.unblock_order [OF b(2), of "length q"] by simp
  then show ?thesis using b wq.unblock_order [OF assms(1)] by blast
qed

theorem wait_queue_fifo_witness:
  "\<exists>b s'. task_block 0x508 (sync_example 1) = Some (b, s') \<and> wq_ready (task_unblock 0x508 s') 0x10"
proof -
  have "wq_waiting [0x10, 0x20, 0x30] 0x508 (sync_example 1) []" using sync_example_rel(2) [of 1] by (simp add: mutex_rel_def)
  from wait_queue_fifo [OF this sync_example_rel(1)] show ?thesis by auto
qed

text \<open>When no other task can run, \<open>mutex_lock\<close> on a mutex that another task owns returns to its caller
  without the lock: the caller continues, although it is marked blocked and queued.\<close>

theorem mutex_lock_without_lock:
  assumes "mutex_rel us m s (own, q)" and "wq_runs s c" and "own \<noteq> 0" and "own \<noteq> c"
    and "\<forall>u \<in> set us. u \<noteq> c \<longrightarrow> t_state (tasks s u) = TASK_BLOCKED \<and> t_wake_ticks (tasks s u) = 0"
  shows "\<exists>s'. mutex_lock m s = Some (False, s') \<and> current_task s' = c \<and> m_owner (mutexes s' m) = own \<and>
    t_state (tasks s' c) = TASK_BLOCKED"
proof -
  obtain b s' where l: "mutex_lock m s = Some (b, s')" "mutex_rel us m s' (spec_lock c (own, q))"
      "\<forall>a. parked s a \<longrightarrow> parked s' a"
      "if b then current_task s' \<noteq> c \<and> current_task s' \<in> set us \<and> t_state (tasks s' (current_task s')) = TASK_RUNNING
       else current_task s' = c \<and> (\<forall>u \<in> set us. t_state (tasks s' u) \<noteq> TASK_READY)"
    using mutex_lock_refines [OF assms(1,2)] assms(3,4) by blast
  have w: "parked s' c" "m_owner (mutexes s' m) = own" using l(2) assms(3,4) by (auto simp: mutex_rel_def wq_waiting_def)
  have "parked s' u" if "u \<in> set us" for u using that assms(5) l(3) w(1) by (cases "u = c") auto
  then have "\<not> b" using l(4) by force
  then show ?thesis using l w by auto
qed

theorem mutex_lock_without_lock_witness:
  "\<exists>s'. mutex_lock 0x500 (sync_example 2) = Some (False, s') \<and> current_task s' = 0x10 \<and> m_owner (mutexes s' 0x500) = 0x30"
  using mutex_lock_without_lock [OF sync_example_rel(2,1), of 2]
  by (auto simp: sync_example_fields example_task_def)

end
