(* ===== verification/Console.thy ===== *)
theory Console
  imports Sync
begin

text \<open>
  Text output: the serial port of \<^verbatim>\<open>src/kernel/drivers/serial.c\<close>, the text screen of
  \<^verbatim>\<open>src/kernel/lib/vga.c\<close> and formatted output of \<^verbatim>\<open>src/kernel/lib/printf.c\<close>. The serial port is
  reached through the port trace; waiting for it may not end, which is the result \<open>None\<close>. The screen
  is the byte memory from \<^verbatim>\<open>0xB8000\<close> on. Strings are lists of bytes without their terminator.
\<close>

section \<open>State\<close>

record console_state = sync_state +
  cursor_x :: int
  cursor_y :: int
  current_color :: u8

abbreviation (input) VGA_MEMORY :: u32 where "VGA_MEMORY \<equiv> 0xB8000"
abbreviation (input) VGA_WIDTH :: int where "VGA_WIDTH \<equiv> 80"
abbreviation (input) VGA_HEIGHT :: int where "VGA_HEIGHT \<equiv> 25"
abbreviation (input) VGA_COLOR_WHITE :: u8 where "VGA_COLOR_WHITE \<equiv> 15"
abbreviation (input) VGA_COLOR_BLACK :: u8 where "VGA_COLOR_BLACK \<equiv> 0"

abbreviation (input) str :: "string \<Rightarrow> u8 list" where "str s \<equiv> map of_char s"

abbreviation (input) NEWLINE :: u8 where "NEWLINE \<equiv> 10"
abbreviation (input) CARRIAGE_RETURN :: u8 where "CARRIAGE_RETURN \<equiv> 13"
abbreviation (input) TAB :: u8 where "TAB \<equiv> 9"

section \<open>Numbers\<close>

text \<open>The digits of a number, last digit first, the way all output routines fill their buffers.\<close>

partial_function (option) digits_loop :: "(u32 \<Rightarrow> u8) \<Rightarrow> u32 \<Rightarrow> u32 \<Rightarrow> u8 list option" where
  "digits_loop digit base n =
     (if 0 < n then Option.bind (digits_loop digit base (n div base)) (\<lambda>ds. Some (digit (n mod base) # ds))
      else Some [])"

text \<open>The digit characters: \<^verbatim>\<open>'0' + d\<close>, \<^verbatim>\<open>'a' + d - 10\<close>, and the table \<^verbatim>\<open>hex_chars\<close>.\<close>

definition dec_digit :: "u32 \<Rightarrow> u8" where
  "dec_digit d = of_char CHR ''0'' + ucast d"

definition hex_digit :: "u32 \<Rightarrow> u8" where
  "hex_digit d = (if d < 10 then of_char CHR ''0'' + ucast d else of_char CHR ''a'' + ucast d - 10)"

definition hex_chars :: "u32 \<Rightarrow> u8" where
  "hex_chars d = str ''0123456789ABCDEF'' ! unat d"

section \<open>The serial port\<close>

abbreviation (input) serial_port :: u16 where "serial_port \<equiv> 0x3F8"
abbreviation (input) SERIAL_TRANSMIT_EMPTY :: u8 where "SERIAL_TRANSMIT_EMPTY \<equiv> 0x20"
abbreviation (input) SERIAL_DATA_READY :: u8 where "SERIAL_DATA_READY \<equiv> 0x01"

definition serial_init :: "io \<Rightarrow> io" where
  "serial_init t =
     (let t = outb (serial_port + 4) 0x00 t;
          t = outb (serial_port + 3) 0x80 t;
          t = outb serial_port 0x03 t;
          t = outb (serial_port + 1) 0x00 t;
          t = outb (serial_port + 3) 0x03 t;
          t = outb (serial_port + 2) 0xC7 t
      in outb (serial_port + 4) 0x0B t)"

partial_function (option) serial_wait_transmit :: "device \<Rightarrow> io \<Rightarrow> io option" where
  "serial_wait_transmit dev t =
     (let (v, t) = inb dev (serial_port + 5) t
      in if v AND SERIAL_TRANSMIT_EMPTY = 0 then serial_wait_transmit dev t else Some t)"

definition serial_putchar :: "device \<Rightarrow> u8 \<Rightarrow> io \<Rightarrow> io option" where
  "serial_putchar dev c t = map_option (outb serial_port c) (serial_wait_transmit dev t)"

definition serial_is_data_available :: "device \<Rightarrow> io \<Rightarrow> bool \<times> io" where
  "serial_is_data_available dev t =
     (let (v, t) = inb dev (serial_port + 5) t in (v AND SERIAL_DATA_READY \<noteq> 0, t))"

definition serial_getchar :: "device \<Rightarrow> io \<Rightarrow> u8 \<times> io" where
  "serial_getchar dev t =
     (let (available, t) = serial_is_data_available dev t
      in if available then inb dev serial_port t else (0, t))"

fun serial_puts :: "device \<Rightarrow> u8 list \<Rightarrow> io \<Rightarrow> io option" where
  "serial_puts dev [] t = Some t"
| "serial_puts dev (c # cs) t =
     Option.bind (if c = NEWLINE then serial_putchar dev CARRIAGE_RETURN t else Some t) (\<lambda>t.
     Option.bind (serial_putchar dev c t) (serial_puts dev cs))"

fun serial_put_all :: "device \<Rightarrow> u8 list \<Rightarrow> io \<Rightarrow> io option" where
  "serial_put_all dev [] t = Some t"
| "serial_put_all dev (c # cs) t = Option.bind (serial_putchar dev c t) (serial_put_all dev cs)"

definition serial_putdec :: "device \<Rightarrow> u32 \<Rightarrow> io \<Rightarrow> io option" where
  "serial_putdec dev n t =
     (if n = 0 then serial_putchar dev (of_char CHR ''0'') t
      else Option.bind (digits_loop dec_digit 10 n) (\<lambda>buffer. serial_put_all dev (rev buffer) t))"

text \<open>The loop takes the low four bits and shifts by four: the remainder and quotient by 16.\<close>

definition serial_puthex :: "device \<Rightarrow> u32 \<Rightarrow> io \<Rightarrow> io option" where
  "serial_puthex dev n t =
     Option.bind (serial_puts dev (str ''0x'') t) (\<lambda>t.
       if n = 0 then serial_putchar dev (of_char CHR ''0'') t
       else Option.bind (digits_loop hex_digit 16 n) (\<lambda>buffer. serial_put_all dev (rev buffer) t))"

section \<open>The screen\<close>

definition vga_init :: "'a console_state_scheme \<Rightarrow> 'a console_state_scheme" where
  "vga_init s = s\<lparr>cursor_x := 0, cursor_y := 0, current_color := VGA_COLOR_WHITE OR push_bit 4 VGA_COLOR_BLACK\<rparr>"

definition vga_set_color :: "u8 \<Rightarrow> u8 \<Rightarrow> 'a console_state_scheme \<Rightarrow> 'a console_state_scheme" where
  "vga_set_color fg bg s = s\<lparr>current_color := fg OR push_bit 4 bg\<rparr>"

definition vga_store :: "int \<Rightarrow> u8 \<Rightarrow> 'a console_state_scheme \<Rightarrow> 'a console_state_scheme" where
  "vga_store index v s = s\<lparr>vmem := (vmem s)(VGA_MEMORY + word_of_int index := v)\<rparr>"

definition vga_load :: "int \<Rightarrow> 'a console_state_scheme \<Rightarrow> u8" where
  "vga_load index s = vmem s (VGA_MEMORY + word_of_int index)"

definition vga_blank :: "int \<Rightarrow> int \<Rightarrow> 'a console_state_scheme \<Rightarrow> 'a console_state_scheme" where
  "vga_blank y x s =
     (let index = (y * VGA_WIDTH + x) * 2
      in vga_store (index + 1) (current_color s) (vga_store index (of_char CHR '' '') s))"

definition vga_clear :: "'a console_state_scheme \<Rightarrow> 'a console_state_scheme" where
  "vga_clear s = (fold (\<lambda>y. fold (vga_blank y) [0..VGA_WIDTH - 1]) [0..VGA_HEIGHT - 1] s)\<lparr>cursor_x := 0, cursor_y := 0\<rparr>"

definition vga_copy_up :: "int \<Rightarrow> int \<Rightarrow> 'a console_state_scheme \<Rightarrow> 'a console_state_scheme" where
  "vga_copy_up y x s =
     (let src_index = (y * VGA_WIDTH + x) * 2;
          dst_index = ((y - 1) * VGA_WIDTH + x) * 2;
          s = vga_store dst_index (vga_load src_index s) s
      in vga_store (dst_index + 1) (vga_load (src_index + 1) s) s)"

definition vga_scroll :: "'a console_state_scheme \<Rightarrow> 'a console_state_scheme" where
  "vga_scroll s =
     (let s = fold (\<lambda>y. fold (vga_copy_up y) [0..VGA_WIDTH - 1]) [1..VGA_HEIGHT - 1] s;
          s = fold (vga_blank (VGA_HEIGHT - 1)) [0..VGA_WIDTH - 1] s
      in s\<lparr>cursor_y := VGA_HEIGHT - 1\<rparr>)"

definition vga_putchar :: "u8 \<Rightarrow> 'a console_state_scheme \<Rightarrow> 'a console_state_scheme" where
  "vga_putchar c s =
     (let s = (if c = NEWLINE then s\<lparr>cursor_x := 0, cursor_y := cursor_y s + 1\<rparr>
               else if c = CARRIAGE_RETURN then s\<lparr>cursor_x := 0\<rparr>
               else if c = TAB then s\<lparr>cursor_x := (cursor_x s + 4) AND NOT (4 - 1)\<rparr>
               else let index = (cursor_y s * VGA_WIDTH + cursor_x s) * 2;
                        s = vga_store index c s;
                        s = vga_store (index + 1) (current_color s) s
                    in s\<lparr>cursor_x := cursor_x s + 1\<rparr>);
          s = (if VGA_WIDTH \<le> cursor_x s then s\<lparr>cursor_x := 0, cursor_y := cursor_y s + 1\<rparr> else s)
      in if VGA_HEIGHT \<le> cursor_y s then vga_scroll s else s)"

definition vga_puts :: "u8 list \<Rightarrow> 'a console_state_scheme \<Rightarrow> 'a console_state_scheme" where
  "vga_puts cs s = fold vga_putchar cs s"

definition vga_putdec :: "u32 \<Rightarrow> 'a console_state_scheme \<Rightarrow> 'a console_state_scheme option" where
  "vga_putdec num s =
     (if num = 0 then Some (vga_putchar (of_char CHR ''0'') s)
      else map_option (\<lambda>buffer. fold vga_putchar (rev buffer) s) (digits_loop dec_digit 10 num))"

definition vga_puthex :: "u32 \<Rightarrow> 'a console_state_scheme \<Rightarrow> 'a console_state_scheme option" where
  "vga_puthex num s =
     (let s = vga_puts (str ''0x'') s
      in if num = 0 then Some (vga_putchar (of_char CHR ''0'') s)
         else map_option (\<lambda>buffer. fold vga_putchar (rev buffer) s) (digits_loop hex_digit 16 num))"

section \<open>Formatted output\<close>

definition itoa :: "u32 \<Rightarrow> u32 \<Rightarrow> u8 list option" where
  "itoa base n = (if n = 0 then Some [of_char CHR ''0''] else map_option rev (digits_loop hex_chars base n))"

text \<open>An argument is a number or a string, \<open>None\<close> for \<^verbatim>\<open>NULL\<close>. Taking an argument of the wrong kind, or one
  that is not there, has no defined result; neither has a format that ends with a percent sign, after
  which the loop steps over the terminator.\<close>

datatype vararg = ArgInt u32 | ArgStr "u8 list option"

fun va_int :: "vararg list \<Rightarrow> (u32 \<times> vararg list) option" where
  "va_int (ArgInt n # args) = Some (n, args)"
| "va_int _ = None"

fun va_str :: "vararg list \<Rightarrow> (u8 list option \<times> vararg list) option" where
  "va_str (ArgStr s # args) = Some (s, args)"
| "va_str _ = None"

definition format_one :: "u8 \<Rightarrow> vararg list \<Rightarrow> (u8 list \<times> vararg list) option" where
  "format_one f args =
     (if f = of_char CHR ''s''
      then map_option (\<lambda>(s, args). (case s of None \<Rightarrow> str ''(null)'' | Some s \<Rightarrow> s, args)) (va_str args)
      else if f = of_char CHR ''d''
      then Option.bind (va_int args) (\<lambda>(n, args).
             let (sign, n) = (if n <s 0 then (str ''-'', - n) else ([], n))
             in map_option (\<lambda>tmp. (sign @ tmp, args)) (itoa 10 n))
      else if f = of_char CHR ''x'' \<or> f = of_char CHR ''p''
      then Option.bind (va_int args) (\<lambda>(n, args). map_option (\<lambda>tmp. (tmp, args)) (itoa 16 n))
      else if f = of_char CHR ''c'' then map_option (\<lambda>(n, args). ([ucast n], args)) (va_int args)
      else if f = of_char CHR ''%'' then Some (str ''%'', args)
      else Some ([f], args))"

fun vsprintf :: "u8 list \<Rightarrow> vararg list \<Rightarrow> u8 list option" where
  "vsprintf [] args = Some []"
| "vsprintf (f # fs) args =
     (if f = of_char CHR ''%''
      then case fs of [] \<Rightarrow> None
           | f # fs \<Rightarrow> Option.bind (format_one f args) (\<lambda>(out, args). map_option (append out) (vsprintf fs args))
      else map_option (Cons f) (vsprintf fs args))"

text \<open>The buffer is printed up to its first zero byte.\<close>

definition kprintf :: "device \<Rightarrow> u8 list \<Rightarrow> vararg list \<Rightarrow> 'a console_state_scheme \<Rightarrow> 'a console_state_scheme option" where
  "kprintf dev format args s =
     Option.bind (vsprintf format args) (\<lambda>buf.
       let buf = takeWhile (\<lambda>c. c \<noteq> 0) buf
       in map_option (\<lambda>t. vga_puts buf (s\<lparr>io_trace := t\<rparr>)) (serial_puts dev buf (io_trace s)))"

section \<open>Digits\<close>

definition digit_value :: "u8 \<Rightarrow> nat" where
  "digit_value c = (if c < 58 then unat c - 48 else if c < 97 then unat c - 55 else unat c - 87)"

definition number_value :: "nat \<Rightarrow> u8 list \<Rightarrow> nat" where
  "number_value base cs = foldl (\<lambda>v c. v * base + digit_value c) 0 cs"

lemma less_16_cases: "(d :: u32) < 16 \<Longrightarrow> d \<in> {0, 1, 2, 3, 4, 5, 6, 7, 8, 9, 10, 11, 12, 13, 14, 15}"
proof -
  assume "d < 16"
  then have "unat d < 16" by (simp add: word_less_nat_alt)
  then have "unat d = 0 \<or> unat d = 1 \<or> unat d = 2 \<or> unat d = 3 \<or> unat d = 4 \<or> unat d = 5 \<or> unat d = 6 \<or> unat d = 7 \<or>
      unat d = 8 \<or> unat d = 9 \<or> unat d = 10 \<or> unat d = 11 \<or> unat d = 12 \<or> unat d = 13 \<or> unat d = 14 \<or> unat d = 15"
    by presburger
  then show ?thesis by (auto simp: u32_eq_unat)
qed

lemma digit_chars:
  "(d :: u32) < 16 \<Longrightarrow> digit_value (hex_chars d) = unat d" "d < 16 \<Longrightarrow> digit_value (hex_digit d) = unat d"
  "d < 10 \<Longrightarrow> dec_digit d = hex_chars d" "d < 16 \<Longrightarrow> hex_chars d = of_char CHR ''0'' \<longleftrightarrow> d = 0"
proof -
  show "digit_value (hex_chars d) = unat d" "digit_value (hex_digit d) = unat d"
    "hex_chars d = of_char CHR ''0'' \<longleftrightarrow> d = 0" if "d < 16"
    using less_16_cases [OF that] by (auto simp: hex_chars_def hex_digit_def digit_value_def)
  assume d: "d < 10"
  then have "d < 16" by (simp add: word_less_nat_alt)
  from less_16_cases [OF this] d show "dec_digit d = hex_chars d" by (auto simp: hex_chars_def dec_digit_def)
qed

lemma digits_loop_returns:
  assumes base: "2 \<le> base" and digit: "\<And>d. d < base \<Longrightarrow> digit_value (digit d) = unat d"
  shows "\<exists>ds. digits_loop digit base n = Some ds \<and> number_value (unat base) (rev ds) = unat n \<and>
    (\<forall>k. unat n < unat base ^ k \<longrightarrow> length ds \<le> k) \<and> (\<forall>d \<in> set ds. \<exists>i < base. d = digit i) \<and>
    (n \<noteq> 0 \<longrightarrow> ds \<noteq> [] \<and> digit_value (last ds) \<noteq> 0)"
proof (induction "unat n" arbitrary: n rule: less_induct)
  case less
  show ?case
  proof (cases "n = 0")
    case True
    then show ?thesis by (subst digits_loop.simps) (simp add: number_value_def)
  next
    case False
    have b: "2 \<le> unat base" using base by (simp add: word_le_nat_alt)
    have q: "unat (n div base) = unat n div unat base" "unat (n mod base) = unat n mod unat base"
      by (simp_all add: unat_div unat_mod)
    have n: "0 < unat n" using False by (simp add: unat_gt_0)
    then have "unat (n div base) < unat n" using b q by simp
    from less [OF this] obtain ds where ds: "digits_loop digit base (n div base) = Some ds"
        "number_value (unat base) (rev ds) = unat n div unat base"
        "\<forall>k. unat n div unat base < unat base ^ k \<longrightarrow> length ds \<le> k" "\<forall>d \<in> set ds. \<exists>i < base. d = digit i"
        "n div base \<noteq> 0 \<longrightarrow> ds \<noteq> [] \<and> digit_value (last ds) \<noteq> 0"
      using q by auto
    have m: "n mod base < base" using b q(2) by (simp add: word_less_nat_alt)
    have "digits_loop digit base n = Some (digit (n mod base) # ds)"
      using ds(1) False by (subst digits_loop.simps) (simp add: word_gt_0)
    moreover have "number_value (unat base) (rev (digit (n mod base) # ds)) = unat n"
      using ds(2) digit [OF m] q(2) by (simp add: number_value_def)
    moreover have "length (digit (n mod base) # ds) \<le> k" if "unat n < unat base ^ k" for k
    proof (cases k)
      case 0
      then show ?thesis using that n by simp
    next
      case (Suc j)
      then have "unat n div unat base < unat base ^ j" using that b by (intro less_mult_imp_div_less) (simp add: mult.commute)
      then show ?thesis using ds(3) Suc by simp
    qed
    moreover have "digit_value (last (digit (n mod base) # ds)) \<noteq> 0"
    proof (cases "n div base = 0")
      case True
      then have "unat n div unat base = 0" using q(1) by simp
      then have "unat n mod unat base = unat n" using b by (simp add: div_eq_0_iff)
      moreover have "ds = []" using ds(1) True by (simp add: digits_loop.simps [of digit base 0])
      ultimately show ?thesis using digit [OF m] q(2) n by simp
    qed (use ds(5) in simp)
    ultimately show ?thesis using ds(4) m by (intro exI [of _ "digit (n mod base) # ds"]) auto
  qed
qed

lemma digits_loop_cong:
  assumes "\<And>d. d < base \<Longrightarrow> f d = g d" and "2 \<le> base"
  shows "digits_loop f base n = digits_loop g base n"
proof (induction "unat n" arbitrary: n rule: less_induct)
  case less
  have b: "2 \<le> unat base" using assms(2) by (simp add: word_le_nat_alt)
  show ?case
  proof (cases "n = 0")
    case False
    then have "unat (n div base) < unat n" using b by (simp add: unat_div unat_gt_0)
    moreover have "n mod base < base" using b by (simp add: word_less_nat_alt unat_mod)
    ultimately show ?thesis
      using less [of "n div base"] assms(1) by (simp add: digits_loop.simps [of f base n] digits_loop.simps [of g base n])
  qed (simp add: digits_loop.simps)
qed

section \<open>Screen memory\<close>

definition on_screen :: "'a console_state_scheme \<Rightarrow> bool" where
  "on_screen s \<longleftrightarrow> 0 \<le> cursor_x s \<and> cursor_x s < VGA_WIDTH \<and> 0 \<le> cursor_y s \<and> cursor_y s < VGA_HEIGHT"

text \<open>What the screen routines may change: the cursor and the 4000 bytes of the screen.\<close>

definition screen_only :: "'a console_state_scheme \<Rightarrow> 'a console_state_scheme \<Rightarrow> bool" where
  "screen_only s s' \<longleftrightarrow> s' = s\<lparr>vmem := vmem s', cursor_x := cursor_x s', cursor_y := cursor_y s'\<rparr> \<and>
     (\<forall>a. 4000 \<le> unat (a - VGA_MEMORY) \<longrightarrow> vmem s' a = vmem s a)"

lemma screen_only_refl [simp]: "screen_only s s"
  by (simp add: screen_only_def)

lemma screen_only_trans: "screen_only s s1 \<Longrightarrow> screen_only s1 s2 \<Longrightarrow> screen_only s s2"
  by (cases s; cases s1; cases s2) (simp add: screen_only_def)

lemma screen_only_cursor [simp]: "screen_only s (s\<lparr>cursor_x := x\<rparr>)" "screen_only s (s\<lparr>cursor_y := y\<rparr>)"
  "screen_only s (s\<lparr>cursor_x := x, cursor_y := y\<rparr>)"
  by (simp_all add: screen_only_def)

lemma screen_address: "0 \<le> i \<Longrightarrow> i < 4000 \<Longrightarrow> unat (word_of_int i :: u32) = nat i"
  by (simp add: unat_eq_nat_uint uint_word_of_int)

lemma screen_only_store [simp]: "0 \<le> i \<Longrightarrow> i < 4000 \<Longrightarrow> screen_only s (vga_store i v s)"
  by (auto simp: screen_only_def vga_store_def screen_address)

lemma vga_store_fields [simp]:
  "cursor_x (vga_store i v s) = cursor_x s" "cursor_y (vga_store i v s) = cursor_y s"
  "current_color (vga_store i v s) = current_color s"
  by (simp_all add: vga_store_def)

lemma screen_index:
  assumes "0 \<le> y" and "y < VGA_HEIGHT" and "0 \<le> x" and "x < VGA_WIDTH"
  shows "0 \<le> (y * VGA_WIDTH + x) * 2" "(y * VGA_WIDTH + x) * 2 + 1 < 4000"
proof -
  show "0 \<le> (y * VGA_WIDTH + x) * 2" using assms by simp
  show "(y * VGA_WIDTH + x) * 2 + 1 < 4000" using assms by (simp add: distrib_right)
qed

text \<open>Loops over the screen stay on it and leave the cursor alone.\<close>

definition quiet :: "'a console_state_scheme \<Rightarrow> 'a console_state_scheme \<Rightarrow> bool" where
  "quiet s s' \<longleftrightarrow> screen_only s s' \<and> cursor_x s' = cursor_x s \<and> cursor_y s' = cursor_y s"

lemma quiet_trans: "quiet s s1 \<Longrightarrow> quiet s1 s2 \<Longrightarrow> quiet s s2"
  using screen_only_trans by (simp add: quiet_def) blast

lemma quiet_fold:
  assumes "\<And>x s. x \<in> set xs \<Longrightarrow> quiet s (f x s)"
  shows "quiet s (fold f xs s)"
  using assms
proof (induction xs arbitrary: s)
  case (Cons x xs)
  have "quiet (f x s) (fold f xs (f x s))" by (rule Cons.IH) (use Cons.prems in simp)
  then show ?case using Cons.prems [of x s] quiet_trans by simp
qed (simp add: quiet_def)

lemma quiet_store2:
  assumes "0 \<le> i" and "i + 1 < 4000"
  shows "quiet s (vga_store (i + 1) w (vga_store i v s))"
  by (rule quiet_trans [of _ "vga_store i v s"]) (use assms in \<open>simp_all add: quiet_def\<close>)

lemma quiet_blank: "0 \<le> y \<Longrightarrow> y < VGA_HEIGHT \<Longrightarrow> 0 \<le> x \<Longrightarrow> x < VGA_WIDTH \<Longrightarrow> quiet s (vga_blank y x s)"
  unfolding vga_blank_def Let_def by (intro quiet_store2 screen_index)

lemma quiet_copy_up: "1 \<le> y \<Longrightarrow> y < VGA_HEIGHT \<Longrightarrow> 0 \<le> x \<Longrightarrow> x < VGA_WIDTH \<Longrightarrow> quiet s (vga_copy_up y x s)"
  unfolding vga_copy_up_def Let_def by (intro quiet_store2 screen_index) simp_all

lemma scroll_screen: "screen_only s (vga_scroll s)" "cursor_x (vga_scroll s) = cursor_x s" "cursor_y (vga_scroll s) = 24"
proof -
  define s1 where "s1 = fold (\<lambda>y. fold (vga_copy_up y) [0..VGA_WIDTH - 1]) [1..VGA_HEIGHT - 1] s"
  define s2 where "s2 = fold (vga_blank (VGA_HEIGHT - 1)) [0..VGA_WIDTH - 1] s1"
  have "quiet s s1" unfolding s1_def
    by (intro quiet_fold quiet_copy_up; simp only: set_upto atLeastAtMost_iff; linarith)
  moreover have "quiet s1 s2" unfolding s2_def
    by (intro quiet_fold quiet_blank; (simp only: set_upto atLeastAtMost_iff)?; linarith)
  ultimately have q: "screen_only s s2" "cursor_x s2 = cursor_x s" using quiet_trans [of s s1 s2] by (simp_all add: quiet_def)
  have "vga_scroll s = s2\<lparr>cursor_y := VGA_HEIGHT - 1\<rparr>" unfolding s2_def s1_def vga_scroll_def Let_def by (rule refl)
  then show "screen_only s (vga_scroll s)" "cursor_x (vga_scroll s) = cursor_x s" "cursor_y (vga_scroll s) = 24"
    using screen_only_trans [OF q(1) screen_only_cursor(2)] q(2) by simp_all
qed

lemma clear_screen: "screen_only s (vga_clear s)" "on_screen (vga_clear s)"
proof -
  define s1 where "s1 = fold (\<lambda>y. fold (vga_blank y) [0..VGA_WIDTH - 1]) [0..VGA_HEIGHT - 1] s"
  have "quiet s s1" unfolding s1_def
    by (intro quiet_fold quiet_blank; simp only: set_upto atLeastAtMost_iff; linarith)
  then have q: "screen_only s s1" unfolding quiet_def by blast
  have "vga_clear s = s1\<lparr>cursor_x := 0, cursor_y := 0\<rparr>" unfolding s1_def vga_clear_def by (rule refl)
  then show "screen_only s (vga_clear s)" "on_screen (vga_clear s)"
    using screen_only_trans [OF q screen_only_cursor(3)] by (simp_all add: on_screen_def)
qed

lemma putchar_screen:
  assumes "on_screen s"
  shows "screen_only s (vga_putchar c s) \<and> on_screen (vga_putchar c s)"
proof -
  define s1 where "s1 = (if c = NEWLINE then s\<lparr>cursor_x := 0, cursor_y := cursor_y s + 1\<rparr>
               else if c = CARRIAGE_RETURN then s\<lparr>cursor_x := 0\<rparr>
               else if c = TAB then s\<lparr>cursor_x := (cursor_x s + 4) AND NOT (4 - 1)\<rparr>
               else let index = (cursor_y s * VGA_WIDTH + cursor_x s) * 2;
                        s = vga_store index c s;
                        s = vga_store (index + 1) (current_color s) s
                    in s\<lparr>cursor_x := cursor_x s + 1\<rparr>)"
  define s2 where "s2 = (if VGA_WIDTH \<le> cursor_x s1 then s1\<lparr>cursor_x := 0, cursor_y := cursor_y s1 + 1\<rparr> else s1)"
  have i: "0 \<le> (cursor_y s * VGA_WIDTH + cursor_x s) * 2" "(cursor_y s * VGA_WIDTH + cursor_x s) * 2 + 1 < 4000"
    using assms screen_index [of "cursor_y s" "cursor_x s"] by (auto simp: on_screen_def)
  have "screen_only s s1"
    using screen_only_trans [OF quiet_store2 [OF i, of s "current_color s" c, unfolded quiet_def, THEN conjunct1]
        screen_only_cursor(1)]
    by (auto simp: s1_def Let_def)
  moreover have x1: "0 \<le> cursor_x s1" "0 \<le> cursor_y s1"
    using assms by (auto simp: s1_def Let_def on_screen_def)
  moreover have "screen_only s1 s2" by (simp add: s2_def)
  moreover have "0 \<le> cursor_x s2" "cursor_x s2 < VGA_WIDTH" "0 \<le> cursor_y s2" using x1 by (auto simp: s2_def)
  moreover have "vga_putchar c s = (if VGA_HEIGHT \<le> cursor_y s2 then vga_scroll s2 else s2)"
    by (simp add: vga_putchar_def s1_def [symmetric] s2_def [symmetric] Let_def)
  ultimately show ?thesis
    using screen_only_trans [of s s1 s2] screen_only_trans [of s s2 "vga_scroll s2"] scroll_screen [of s2]
    by (cases "VGA_HEIGHT \<le> cursor_y s2") (simp_all add: on_screen_def)
qed

lemma puts_screen: "on_screen s \<Longrightarrow> screen_only s (vga_puts cs s) \<and> on_screen (vga_puts cs s)"
  unfolding vga_puts_def
proof (induction cs arbitrary: s)
  case (Cons c cs)
  have p: "screen_only s (vga_putchar c s)" "on_screen (vga_putchar c s)" using putchar_screen [OF Cons.prems] by auto
  from Cons.IH [OF p(2)] show ?case using screen_only_trans [OF p(1)] by simp
qed simp

section \<open>Properties\<close>

text \<open>A console on the example machine.\<close>

definition console_example :: console_state where
  "console_example = sync_state.extend (sync_example 1) (console_state.fields 79 24 0x0F)"

text \<open>C39: printing text never leaves the screen: from a cursor on the screen \<open>vga_puts\<close> of any text keeps the
  cursor inside 80 by 25, and changes nothing of the kernel state but the cursor and the 4000 bytes
  of screen memory; so does \<open>vga_clear\<close>, from any cursor.\<close>

theorem vga_output_bounds:
  assumes "on_screen s"
  shows "screen_only s (vga_puts cs s) \<and> on_screen (vga_puts cs s) \<and>
    screen_only s' (vga_clear s') \<and> on_screen (vga_clear s')"
  using puts_screen [OF assms] clear_screen by blast

theorem vga_output_bounds_witness:
  "on_screen (vga_puts (str ''ab'') console_example)"
proof -
  have "on_screen console_example" by (simp add: console_example_def on_screen_def console_state.defs sync_state.defs)
  from vga_output_bounds [OF this] show ?thesis by blast
qed

text \<open>C40: numbers are printed right: \<open>itoa\<close> in base 10 and 16 returns the digits of its argument without
  leading zeros, within 10 and 8 characters, so the buffers of the callers suffice; and
  \<open>vga_putdec\<close> and \<open>serial_putdec\<close> print the same digits.\<close>

theorem number_output:
  "(\<exists>ds. itoa 10 n = Some ds \<and> number_value 10 ds = unat n \<and> length ds \<le> 10 \<and> (n \<noteq> 0 \<longrightarrow> digit_value (hd ds) \<noteq> 0) \<and>
     vga_putdec n s = Some (vga_puts ds s) \<and> serial_putdec dev n t = serial_put_all dev ds t) \<and>
   (\<exists>ds. itoa 16 n = Some ds \<and> number_value 16 ds = unat n \<and> length ds \<le> 8 \<and> (n \<noteq> 0 \<longrightarrow> digit_value (hd ds) \<noteq> 0))"
proof -
  have c10: "digit_value (hex_chars d) = unat d" if "d < 10" for d
    using that by (intro digit_chars(1)) (simp add: word_less_nat_alt)
  obtain ds where ds: "digits_loop hex_chars 10 n = Some ds" "number_value 10 (rev ds) = unat n"
      "\<forall>k. unat n < 10 ^ k \<longrightarrow> length ds \<le> k" "n \<noteq> 0 \<longrightarrow> ds \<noteq> [] \<and> digit_value (last ds) \<noteq> 0"
    using digits_loop_returns [of 10 hex_chars n] c10 by auto
  obtain hs where hs: "digits_loop hex_chars 16 n = Some hs" "number_value 16 (rev hs) = unat n"
      "\<forall>k. unat n < 16 ^ k \<longrightarrow> length hs \<le> k" "n \<noteq> 0 \<longrightarrow> hs \<noteq> [] \<and> digit_value (last hs) \<noteq> 0"
    using digits_loop_returns [of 16 hex_chars n] digit_chars(1) by auto
  have l: "length ds \<le> 10" "length hs \<le> 8"
    using ds(3) [rule_format, of 10] hs(3) [rule_format, of 8] unat_u32_less [of n] by (simp_all add: order.strict_trans2)
  have eq: "digits_loop dec_digit 10 n = Some ds" using ds(1) digits_loop_cong [of 10 dec_digit hex_chars n] digit_chars(3) by simp
  have z: "number_value 10 [of_char CHR ''0''] = 0" "number_value 16 [of_char CHR ''0''] = 0"
    by (simp_all add: number_value_def digit_value_def)
  show ?thesis
  proof (cases "n = 0")
    case True
    have "serial_put_all dev [] = Some" by (rule ext) simp
    then show ?thesis using True z by (simp add: itoa_def vga_putdec_def vga_puts_def serial_putdec_def)
  next
    case False
    then show ?thesis using ds hs l eq
      by (simp add: itoa_def vga_putdec_def vga_puts_def serial_putdec_def hd_rev)
  qed
qed

theorem number_output_witness:
  "(\<exists>ds. itoa 10 4096 = Some ds \<and> number_value 10 ds = 4096 \<and> vga_putdec 4096 console_example = Some (vga_puts ds console_example)) \<and>
   (\<exists>ds. itoa 16 4096 = Some ds \<and> number_value 16 ds = 4096 \<and> digit_value (hd ds) \<noteq> 0)"
  using number_output [of 4096 console_example "\<lambda>_ _. 0" "[]"] by auto

end
