(* ===== verification/Keyboard.thy ===== *)
theory Keyboard
  imports Console
begin

text \<open>
  The keyboard: \<^verbatim>\<open>src/kernel/drivers/keyboard.c\<close>. Scan codes come from the data port, by interrupt or by
  polling; the tables translate them to characters according to the shift and caps lock state.
\<close>

section \<open>Model\<close>

record keyboard_state = console_state +
  last_key :: u8
  key_available :: bool
  keyboard_callback :: u32
  shift_pressed :: bool
  caps_lock :: bool

abbreviation (input) KEYBOARD_DATA_PORT :: u16 where "KEYBOARD_DATA_PORT \<equiv> 0x60"
abbreviation (input) KEYBOARD_STATUS_PORT :: u16 where "KEYBOARD_STATUS_PORT \<equiv> 0x64"
abbreviation (input) KEYBOARD_STATUS_OUTPUT_FULL :: u8 where "KEYBOARD_STATUS_OUTPUT_FULL \<equiv> 0x01"

text \<open>The tables; the characters 8, 9, 10, 39, 92, 34 are backspace, tab, newline, quote, backslash and
  double quote.\<close>

definition keyboard_map :: "u8 list" where
  "keyboard_map = [0, 27] @ str ''1234567890-='' @ [8, 9] @ str ''qwertyuiop[]'' @ [10, 0] @ str ''asdfghjkl;'' @ [39] @
     str ''`'' @ [0, 92] @ str ''zxcvbnm,./'' @ [0] @ str ''*'' @ [0] @ str '' '' @ replicate 16 0 @ str ''-'' @
     replicate 3 0 @ str ''+'' @ replicate 49 0"

definition keyboard_map_shift :: "u8 list" where
  "keyboard_map_shift = [0, 27] @ str ''!@#$%^&*()_+'' @ [8, 9] @ str ''QWERTYUIOP{}'' @ [10, 0] @ str ''ASDFGHJKL:'' @ [34] @
     str ''~'' @ [0] @ str ''|ZXCVBNM<>?'' @ [0] @ str ''*'' @ [0] @ str '' '' @ replicate 16 0 @ str ''-'' @
     replicate 3 0 @ str ''+'' @ replicate 49 0"

definition keyboard_scancode_to_ascii :: "u8 \<Rightarrow> 'a keyboard_state_scheme \<Rightarrow> u8" where
  "keyboard_scancode_to_ascii scancode s =
     (if 128 \<le> scancode then 0
      else let use_shift = (shift_pressed s \<noteq> caps_lock s);
               map = (if use_shift then keyboard_map_shift else keyboard_map)
           in map ! unat scancode)"

text \<open>\<open>call\<close> stands for the call of the registered function.\<close>

definition keyboard_handler ::
  "(u32 \<Rightarrow> u8 \<Rightarrow> u8 \<Rightarrow> 'a keyboard_state_scheme \<Rightarrow> 'a keyboard_state_scheme) \<Rightarrow> device \<Rightarrow>
     'a keyboard_state_scheme \<Rightarrow> 'a keyboard_state_scheme" where
  "keyboard_handler call dev s =
     (let (scancode, t) = inb dev KEYBOARD_DATA_PORT (io_trace s);
          s = s\<lparr>io_trace := t\<rparr>
      in if scancode = 0x2A \<or> scancode = 0x36 then s\<lparr>shift_pressed := True\<rparr>
         else if scancode = 0xAA \<or> scancode = 0xB6 then s\<lparr>shift_pressed := False\<rparr>
         else if scancode = 0x3A then s\<lparr>caps_lock := \<not> caps_lock s\<rparr>
         else if scancode AND 0x80 \<noteq> 0 then s
         else let character = keyboard_scancode_to_ascii scancode s
              in if character \<noteq> 0
                 then let s = s\<lparr>last_key := character, key_available := True\<rparr>
                      in if keyboard_callback s \<noteq> 0 then call (keyboard_callback s) scancode character s else s
                 else s)"

definition keyboard_init :: "device \<Rightarrow> 'a keyboard_state_scheme \<Rightarrow> 'a keyboard_state_scheme" where
  "keyboard_init dev s = s\<lparr>last_key := 0, key_available := False, shift_pressed := False, caps_lock := False,
     io_trace := pic_unmask_irq dev 1 (io_trace s)\<rparr>"

definition keyboard_poll :: "device \<Rightarrow> 'a keyboard_state_scheme \<Rightarrow> u8 \<times> 'a keyboard_state_scheme" where
  "keyboard_poll dev s =
     (let (status, t) = inb dev KEYBOARD_STATUS_PORT (io_trace s);
          s = s\<lparr>io_trace := t\<rparr>
      in if status AND KEYBOARD_STATUS_OUTPUT_FULL \<noteq> 0
         then let (scancode, t) = inb dev KEYBOARD_DATA_PORT (io_trace s);
                  s = s\<lparr>io_trace := t\<rparr>
              in if scancode = 0x2A \<or> scancode = 0x36 then (0, s\<lparr>shift_pressed := True\<rparr>)
                 else if scancode = 0xAA \<or> scancode = 0xB6 then (0, s\<lparr>shift_pressed := False\<rparr>)
                 else if scancode = 0x3A then (0, s\<lparr>caps_lock := \<not> caps_lock s\<rparr>)
                 else if scancode AND 0x80 \<noteq> 0 then (0, s)
                 else (keyboard_scancode_to_ascii scancode s, s)
         else (0, s))"

definition keyboard_get_key :: "'a keyboard_state_scheme \<Rightarrow> u8 \<times> 'a keyboard_state_scheme" where
  "keyboard_get_key s = (if key_available s then (last_key s, s\<lparr>key_available := False\<rparr>) else (0, s))"

definition keyboard_is_key_available :: "device \<Rightarrow> 'a keyboard_state_scheme \<Rightarrow> bool \<times> 'a keyboard_state_scheme" where
  "keyboard_is_key_available dev s =
     (let (key, s) = keyboard_poll dev s
      in if key \<noteq> 0 then (True, s\<lparr>last_key := key, key_available := True\<rparr>) else (False, s))"

definition keyboard_register_callback :: "u32 \<Rightarrow> 'a keyboard_state_scheme \<Rightarrow> 'a keyboard_state_scheme" where
  "keyboard_register_callback callback s = s\<lparr>keyboard_callback := callback\<rparr>"

section \<open>Properties\<close>

lemma keyboard_map_length: "length keyboard_map = 128" "length keyboard_map_shift = 128"
  by (simp_all add: keyboard_map_def keyboard_map_shift_def)

lemma ascii_trace [simp]: "keyboard_scancode_to_ascii c (s\<lparr>io_trace := t\<rparr>) = keyboard_scancode_to_ascii c s"
  by (simp add: keyboard_scancode_to_ascii_def)

definition keyboard_example :: keyboard_state where
  "keyboard_example = console_state.extend console_example (keyboard_state.fields 0 False 0 False False)"

text \<open>A keyboard that always has the scan code of the key \<^verbatim>\<open>A\<close> in its buffer.\<close>

definition keyboard_a :: device where
  "keyboard_a t port = (if port = KEYBOARD_STATUS_PORT then 1 else if port = KEYBOARD_DATA_PORT then 0x1E else 0)"

text \<open>Polling does what the interrupt handler does: for the same scan code, \<open>keyboard_is_key_available\<close>
  leaves the same key, shift and caps lock state as \<open>keyboard_handler\<close> without a callback, and
  announces a key exactly when the handler stores one; \<open>keyboard_get_key\<close> then returns it once.\<close>

theorem keyboard_poll_agrees:
  assumes "keyboard_callback s = 0" and "dev (io_trace s) KEYBOARD_STATUS_PORT AND KEYBOARD_STATUS_OUTPUT_FULL \<noteq> 0"
    and "dev (In KEYBOARD_STATUS_PORT (dev (io_trace s) KEYBOARD_STATUS_PORT) # io_trace s) KEYBOARD_DATA_PORT =
      dev (io_trace s) KEYBOARD_DATA_PORT"
  shows "\<exists>b s1 t. keyboard_is_key_available dev s = (b, s1) \<and> keyboard_handler call dev s = s1\<lparr>io_trace := t\<rparr> \<and>
    (b \<longrightarrow> keyboard_get_key s1 = (last_key s1, s1\<lparr>key_available := False\<rparr>) \<and> last_key s1 \<noteq> 0 \<and>
       fst (keyboard_get_key (snd (keyboard_get_key s1))) = 0) \<and>
    (\<not> b \<longrightarrow> last_key s1 = last_key s \<and> key_available s1 = key_available s)"
proof -
  define sc where "sc = dev (io_trace s) KEYBOARD_DATA_PORT"
  define t1 where "t1 = In KEYBOARD_STATUS_PORT (dev (io_trace s) KEYBOARD_STATUS_PORT) # io_trace s"
  define c where "c = keyboard_scancode_to_ascii sc s"
  have h: "keyboard_handler call dev s = (let s = s\<lparr>io_trace := In KEYBOARD_DATA_PORT sc # io_trace s\<rparr>
      in if sc = 0x2A \<or> sc = 0x36 then s\<lparr>shift_pressed := True\<rparr>
         else if sc = 0xAA \<or> sc = 0xB6 then s\<lparr>shift_pressed := False\<rparr>
         else if sc = 0x3A then s\<lparr>caps_lock := \<not> caps_lock s\<rparr>
         else if sc AND 0x80 \<noteq> 0 \<or> c = 0 then s else s\<lparr>last_key := c, key_available := True\<rparr>)"
    using assms(1) by (simp add: keyboard_handler_def inb_def Let_def sc_def c_def)
  have p: "keyboard_is_key_available dev s = (let s = s\<lparr>io_trace := In KEYBOARD_DATA_PORT sc # t1\<rparr>
      in if sc = 0x2A \<or> sc = 0x36 then (False, s\<lparr>shift_pressed := True\<rparr>)
         else if sc = 0xAA \<or> sc = 0xB6 then (False, s\<lparr>shift_pressed := False\<rparr>)
         else if sc = 0x3A then (False, s\<lparr>caps_lock := \<not> caps_lock s\<rparr>)
         else if sc AND 0x80 \<noteq> 0 \<or> c = 0 then (False, s) else (True, s\<lparr>last_key := c, key_available := True\<rparr>))"
    using assms(2,3) by (simp add: keyboard_is_key_available_def keyboard_poll_def inb_def Let_def sc_def c_def t1_def)
  show ?thesis
    unfolding h p Let_def keyboard_get_key_def
    by (intro exI [of _ "In KEYBOARD_DATA_PORT sc # io_trace s"] exI conjI, rule surjective_pairing)
      (auto simp: keyboard_state.defs)
qed

theorem keyboard_poll_agrees_witness:
  "\<exists>s1. keyboard_is_key_available keyboard_a keyboard_example = (True, s1) \<and> fst (keyboard_get_key s1) = of_char CHR ''a''"
proof -
  have e: "keyboard_callback keyboard_example = 0" "shift_pressed keyboard_example = False" "caps_lock keyboard_example = False"
    by (simp_all add: keyboard_example_def keyboard_state.defs console_state.defs)
  have a: "keyboard_scancode_to_ascii 0x1E keyboard_example = of_char CHR ''a''"
    by (simp add: keyboard_scancode_to_ascii_def e keyboard_map_def)
  have k: "keyboard_is_key_available keyboard_a keyboard_example = (True, keyboard_example\<lparr>io_trace :=
      In 0x60 0x1E # In 0x64 1 # io_trace keyboard_example, last_key := of_char CHR ''a'', key_available := True\<rparr>)"
    using a by (simp add: keyboard_is_key_available_def keyboard_poll_def inb_def keyboard_a_def Let_def)
  show ?thesis
    using keyboard_poll_agrees [of keyboard_example keyboard_a "\<lambda>_ _ _ s. s"] e
    by (auto simp: k keyboard_a_def keyboard_get_key_def)
qed

end
