(* ===== verification/FS.thy ===== *)
theory FS
  imports Keyboard
begin

text \<open>
  The file system in memory: the first part of \<^verbatim>\<open>src/kernel/fs/fs.c\<close>. Inodes lie in a static array of 320
  structures; the model keeps them in a typed store indexed by their address, with the address of the
  array as part of the state. A directory's field \<^verbatim>\<open>data\<close> points to its first child, the children are
  linked through \<^verbatim>\<open>next\<close>; a file's field \<^verbatim>\<open>data\<close> points to 64 KB from the kernel heap. Paths are lists of bytes
  without their terminator, \<open>None\<close> for \<^verbatim>\<open>NULL\<close>. Walking along \<^verbatim>\<open>next\<close> may not end, which is the result \<open>None\<close>.
\<close>

section \<open>State\<close>

abbreviation (input) FS_TYPE_FILE :: u32 where "FS_TYPE_FILE \<equiv> 1"
abbreviation (input) FS_TYPE_DIR :: u32 where "FS_TYPE_DIR \<equiv> 2"
abbreviation (input) FS_MODE_READ :: u32 where "FS_MODE_READ \<equiv> 1"
abbreviation (input) FS_MODE_WRITE :: u32 where "FS_MODE_WRITE \<equiv> 2"
abbreviation (input) FS_MODE_APPEND :: u32 where "FS_MODE_APPEND \<equiv> 4"
abbreviation (input) MAX_FILE_DESCRIPTORS :: nat where "MAX_FILE_DESCRIPTORS \<equiv> 64"
abbreviation (input) MAX_INODES :: nat where "MAX_INODES \<equiv> 320"
abbreviation (input) MAX_FILE_SIZE :: u32 where "MAX_FILE_SIZE \<equiv> 65536"
abbreviation (input) MAX_PATH_LENGTH :: int where "MAX_PATH_LENGTH \<equiv> 256"
abbreviation (input) SLASH :: u8 where "SLASH \<equiv> 47"
abbreviation (input) DOT :: u8 where "DOT \<equiv> 46"

record file_descriptor =
  fd_inode :: u32
  fd_position :: u32
  fd_mode :: u32
  fd_size :: u32
  fd_valid :: bool

record dirent =
  d_name :: "u8 list"
  d_inode :: u32
  d_type :: u32
  d_size :: u32

record inode =
  i_name :: "u8 list"
  i_type :: u32
  i_size :: u32
  i_data :: u32
  i_valid :: bool
  i_parent :: u32
  i_next :: u32
  i_num :: u32

record fs_state = keyboard_state +
  file_descriptors :: "file_descriptor list"
  inodes_addr :: u32
  inodes :: "u32 \<Rightarrow> inode"
  root_dir :: u32
  current_dir :: u32
  fs_initialized :: bool
  next_inode :: u32

text \<open>\<^verbatim>\<open>&inodes[i]\<close>: the structure has 284 bytes.\<close>

definition inode_ptr :: "'a fs_state_scheme \<Rightarrow> nat \<Rightarrow> u32" where
  "inode_ptr s i = inodes_addr s + word_of_nat (284 * i)"

definition upd_inode :: "u32 \<Rightarrow> (inode \<Rightarrow> inode) \<Rightarrow> 'a fs_state_scheme \<Rightarrow> 'a fs_state_scheme" where
  "upd_inode p f s = s\<lparr>inodes := (inodes s)(p := f (inodes s p))\<rparr>"

definition upd_fd :: "nat \<Rightarrow> (file_descriptor \<Rightarrow> file_descriptor) \<Rightarrow> 'a fs_state_scheme \<Rightarrow> 'a fs_state_scheme" where
  "upd_fd i f s = s\<lparr>file_descriptors := (file_descriptors s)[i := f (file_descriptors s ! i)]\<rparr>"

section \<open>Directories and paths\<close>

definition fs_get_current_dir :: "'a fs_state_scheme \<Rightarrow> u32" where
  "fs_get_current_dir s = (if current_dir s \<noteq> 0 then current_dir s else root_dir s)"

definition fs_set_current_dir :: "u32 \<Rightarrow> 'a fs_state_scheme \<Rightarrow> int \<times> 'a fs_state_scheme" where
  "fs_set_current_dir dir s =
     (if dir \<noteq> 0 \<and> i_type (inodes s dir) = FS_TYPE_DIR then (0, s\<lparr>current_dir := dir\<rparr>) else (- 1, s))"

text \<open>The loop of \<open>fs_get_current_path\<close>: \<open>path\<close> is the text from \<open>pos\<close> on in the buffer.\<close>

function current_path_loop :: "'a fs_state_scheme \<Rightarrow> u32 \<Rightarrow> int \<Rightarrow> u8 list \<Rightarrow> int \<times> u8 list" where
  "current_path_loop s node pos path =
     (if node \<noteq> 0 \<and> node \<noteq> root_dir s
      then let name_len = int (length (i_name (inodes s node)));
               pos = pos - name_len
           in if pos < 0 then (pos, path)
              else let path = i_name (inodes s node) @ path;
                       pos = pos - 1;
                       path = (if 0 \<le> pos then SLASH # path else path)
                   in current_path_loop s (i_parent (inodes s node)) pos path
      else (pos, path))"
  by pat_completeness auto
termination
  by (relation "measure (\<lambda>(s, node, pos, path). nat (pos + 1))") auto

definition fs_get_current_path :: "'a fs_state_scheme \<Rightarrow> u8 list" where
  "fs_get_current_path s =
     (if current_dir s = 0 \<or> current_dir s = root_dir s then [SLASH]
      else let (pos, path) = current_path_loop s (current_dir s) (MAX_PATH_LENGTH - 1) []
           in if pos < 0 then [SLASH] else path)"

partial_function (option) find_child :: "'a fs_state_scheme \<Rightarrow> u8 list \<Rightarrow> u32 \<Rightarrow> u32 option" where
  "find_child s name child =
     (if child \<noteq> 0
      then if i_name (inodes s child) = name then Some child else find_child s name (i_next (inodes s child))
      else Some 0)"

definition fs_find_inode_in_dir :: "'a fs_state_scheme \<Rightarrow> u32 \<Rightarrow> u8 list \<Rightarrow> u32 option" where
  "fs_find_inode_in_dir s dir name =
     (if dir = 0 \<or> i_type (inodes s dir) \<noteq> FS_TYPE_DIR then Some 0
      else find_child s name (i_data (inodes s dir)))"

text \<open>One component of a path, at most 255 bytes, and the rest.\<close>

fun path_component :: "nat \<Rightarrow> u8 list \<Rightarrow> u8 list \<times> u8 list" where
  "path_component i [] = ([], [])"
| "path_component i (c # p) =
     (if c \<noteq> SLASH \<and> i < 255 then let (component, rest) = path_component (i + 1) p in (c # component, rest)
      else ([], c # p))"

lemma path_component_length: "length (snd (path_component i p)) \<le> length p"
  by (induction i p rule: path_component.induct) (auto simp: Let_def split_beta)

lemma path_component_less:
  assumes "(component, rest) = path_component 0 (c # q)" and "dropWhile (\<lambda>c. c = SLASH) p = c # q"
  shows "length rest < length p"
proof -
  have "c \<noteq> SLASH" using hd_dropWhile [of "\<lambda>c. c = SLASH" p] assms(2) by auto
  moreover have "length (c # q) \<le> length p" using length_dropWhile_le [of "\<lambda>c. c = SLASH" p] assms(2) by simp
  ultimately show ?thesis using assms(1) path_component_length [of 1 q] by (simp add: Let_def split_beta)
qed

definition parent_or_root :: "'a fs_state_scheme \<Rightarrow> u32 \<Rightarrow> u32" where
  "parent_or_root s node = (if i_parent (inodes s node) \<noteq> 0 then i_parent (inodes s node) else root_dir s)"

function resolve_loop :: "'a fs_state_scheme \<Rightarrow> u8 list \<Rightarrow> u32 \<Rightarrow> u32 option" where
  "resolve_loop s path node =
     (case dropWhile (\<lambda>c. c = SLASH) path of [] \<Rightarrow> Some node
      | c # p \<Rightarrow>
          (case path_component 0 (c # p) of (component, rest) \<Rightarrow>
             if component = [DOT] then resolve_loop s rest node
             else if component = [DOT, DOT] then resolve_loop s rest (parent_or_root s node)
             else (case fs_find_inode_in_dir s node component of None \<Rightarrow> None
                   | Some child \<Rightarrow> if child = 0 then Some 0 else resolve_loop s rest child)))"
  by pat_completeness auto
termination
  by (relation "measure (\<lambda>(s, path, node). length path)")
    (auto simp del: path_component.simps dest: path_component_less)

declare resolve_loop.simps [simp del] current_path_loop.simps [simp del]

definition fs_resolve_path :: "u8 list option \<Rightarrow> 'a fs_state_scheme \<Rightarrow> u32 option" where
  "fs_resolve_path path s =
     (case path of None \<Rightarrow> Some (fs_get_current_dir s)
      | Some [] \<Rightarrow> Some (fs_get_current_dir s)
      | Some (c # p) \<Rightarrow>
          if c = SLASH then if p = [] then Some (root_dir s) else resolve_loop s p (root_dir s)
          else let node = fs_get_current_dir s
               in if c # p = [DOT] then Some node
                  else if c # p = [DOT, DOT] then Some (parent_or_root s node)
                  else resolve_loop s (c # p) node)"

text \<open>The part of a path after its last slash: the loops of \<open>fs_open\<close> and \<open>fs_mkdir\<close>, which leave the
  pointer \<^verbatim>\<open>path\<close> at the terminator.\<close>

fun after_last_slash :: "u8 list \<Rightarrow> u8 list \<Rightarrow> u8 list \<times> u8 list" where
  "after_last_slash last_slash [] = (last_slash, [])"
| "after_last_slash last_slash (c # path) = after_last_slash (if c = SLASH then path else last_slash) path"

section \<open>Inodes\<close>

definition fs_alloc_data :: "u32 \<Rightarrow> u32 \<Rightarrow> 'a fs_state_scheme \<Rightarrow> (bool \<times> 'a fs_state_scheme) option" where
  "fs_alloc_data node typ s =
     (if typ = FS_TYPE_FILE
      then map_option (\<lambda>(data, s).
             let s = upd_inode node (\<lambda>n. n\<lparr>i_data := data\<rparr>) s
             in if data = 0 then (False, upd_inode node (\<lambda>n. n\<lparr>i_valid := False\<rparr>) s)
                else (True, s\<lparr>vmem := snd (memset data 0 MAX_FILE_SIZE (vmem s))\<rparr>)) (kmalloc MAX_FILE_SIZE s)
      else Some (True, upd_inode node (\<lambda>n. n\<lparr>i_data := 0\<rparr>) s))"

definition fs_link_child :: "u32 \<Rightarrow> u32 \<Rightarrow> 'a fs_state_scheme \<Rightarrow> 'a fs_state_scheme" where
  "fs_link_child node parent s =
     (if parent \<noteq> 0 \<and> i_type (inodes s parent) = FS_TYPE_DIR
      then let s = upd_inode node (\<lambda>n. n\<lparr>i_next := i_data (inodes s parent)\<rparr>) s
           in upd_inode parent (\<lambda>n. n\<lparr>i_data := node\<rparr>) s
      else s)"

definition free_inode :: "'a fs_state_scheme \<Rightarrow> nat option" where
  "free_inode s = for_find (\<lambda>i. \<not> i_valid (inodes s (inode_ptr s i))) 0 MAX_INODES"

definition fs_create_inode ::
  "u8 list \<Rightarrow> u32 \<Rightarrow> u32 \<Rightarrow> 'a fs_state_scheme \<Rightarrow> (u32 \<times> 'a fs_state_scheme) option" where
  "fs_create_inode name typ parent s =
     (case free_inode s of None \<Rightarrow> Some (0, s)
      | Some i \<Rightarrow>
          let node = inode_ptr s i;
              s = upd_inode node (\<lambda>n. n\<lparr>i_valid := True, i_num := next_inode s, i_name := take 255 name,
                    i_type := typ, i_size := 0, i_parent := parent, i_next := 0\<rparr>)
                    (s\<lparr>next_inode := next_inode s + 1\<rparr>)
          in map_option (\<lambda>(ok, s). if ok then (node, fs_link_child node parent s) else (0, s))
               (fs_alloc_data node typ s))"

definition find_inode_by_num :: "'a fs_state_scheme \<Rightarrow> u32 \<Rightarrow> u32" where
  "find_inode_by_num s num =
     (case for_find (\<lambda>i. i_valid (inodes s (inode_ptr s i)) \<and> i_num (inodes s (inode_ptr s i)) = num) 0 MAX_INODES of
        None \<Rightarrow> 0 | Some i \<Rightarrow> inode_ptr s i)"

section \<open>Files\<close>

definition free_fd :: "'a fs_state_scheme \<Rightarrow> nat option" where
  "free_fd s = for_find (\<lambda>i. \<not> fd_valid (file_descriptors s ! i)) 0 MAX_FILE_DESCRIPTORS"

definition fs_open_node :: "u32 \<Rightarrow> u32 \<Rightarrow> 'a fs_state_scheme \<Rightarrow> int \<times> 'a fs_state_scheme" where
  "fs_open_node node mode s =
     (if node = 0 \<or> i_type (inodes s node) \<noteq> FS_TYPE_FILE then (- 1, s)
      else case free_fd s of None \<Rightarrow> (- 1, s)
           | Some fd \<Rightarrow> (int fd, upd_fd fd (\<lambda>_. \<lparr>fd_inode = i_num (inodes s node),
               fd_position = (if mode AND FS_MODE_APPEND \<noteq> 0 then i_size (inodes s node) else 0),
               fd_mode = mode, fd_size = i_size (inodes s node), fd_valid = True\<rparr>) s))"

definition fs_open :: "u8 list option \<Rightarrow> u32 \<Rightarrow> 'a fs_state_scheme \<Rightarrow> (int \<times> 'a fs_state_scheme) option" where
  "fs_open path mode s =
     (case path of None \<Rightarrow> Some (- 1, s)
      | Some path \<Rightarrow>
          if \<not> fs_initialized s then Some (- 1, s)
          else Option.bind (fs_resolve_path (Some path) s) (\<lambda>node.
            if node = 0 \<and> mode AND FS_MODE_WRITE \<noteq> 0
            then let (filename, path) = after_last_slash path path;
                     parent = fs_get_current_dir s
                 in map_option (\<lambda>(node, s). if node = 0 then (- 1, s) else fs_open_node node mode s)
                      (fs_create_inode filename FS_TYPE_FILE parent s)
            else Some (fs_open_node node mode s)))"

definition fd_ok :: "int \<Rightarrow> 'a fs_state_scheme \<Rightarrow> bool" where
  "fd_ok fd s \<longleftrightarrow> 0 \<le> fd \<and> fd < int MAX_FILE_DESCRIPTORS \<and> fd_valid (file_descriptors s ! nat fd)"

definition fs_close :: "int \<Rightarrow> 'a fs_state_scheme \<Rightarrow> int \<times> 'a fs_state_scheme" where
  "fs_close fd s =
     (if \<not> fd_ok fd s then (- 1, s) else (0, upd_fd (nat fd) (\<lambda>f. f\<lparr>fd_valid := False\<rparr>) s))"

text \<open>The byte counts that are returned are converted from \<^verbatim>\<open>uint32_t\<close> to \<^verbatim>\<open>int32_t\<close>.\<close>

definition fs_read :: "int \<Rightarrow> u32 \<Rightarrow> u32 \<Rightarrow> 'a fs_state_scheme \<Rightarrow> int \<times> 'a fs_state_scheme" where
  "fs_read fd buffer sz s =
     (if \<not> fd_ok fd s \<or> buffer = 0 then (- 1, s)
      else let f = file_descriptors s ! nat fd
           in if fd_mode f AND FS_MODE_READ = 0 then (- 1, s)
              else let node = find_inode_by_num s (fd_inode f)
                   in if node = 0 \<or> i_type (inodes s node) \<noteq> FS_TYPE_FILE then (- 1, s)
                      else let available = i_size (inodes s node) - fd_position f;
                               sz = (if available < sz then available else sz)
                           in if sz = 0 then (0, s)
                              else (sint sz, upd_fd (nat fd) (\<lambda>f. f\<lparr>fd_position := fd_position f + sz\<rparr>)
                                (s\<lparr>vmem := snd (memcpy buffer (i_data (inodes s node) + fd_position f) sz (vmem s))\<rparr>)))"

definition fs_write :: "int \<Rightarrow> u32 \<Rightarrow> u32 \<Rightarrow> 'a fs_state_scheme \<Rightarrow> int \<times> 'a fs_state_scheme" where
  "fs_write fd buffer sz s =
     (if \<not> fd_ok fd s \<or> buffer = 0 then (- 1, s)
      else let f = file_descriptors s ! nat fd
           in if fd_mode f AND FS_MODE_WRITE = 0 then (- 1, s)
              else let node = find_inode_by_num s (fd_inode f)
                   in if node = 0 \<or> i_type (inodes s node) \<noteq> FS_TYPE_FILE then (- 1, s)
                      else let new_size = fd_position f + sz;
                               (sz, new_size) = (if MAX_FILE_SIZE < new_size
                                  then (MAX_FILE_SIZE - fd_position f, MAX_FILE_SIZE) else (sz, new_size));
                               s = s\<lparr>vmem := snd (memcpy (i_data (inodes s node) + fd_position f) buffer sz (vmem s))\<rparr>;
                               s = upd_fd (nat fd) (\<lambda>f. f\<lparr>fd_position := fd_position f + sz\<rparr>) s;
                               s = (if i_size (inodes s node) < new_size
                                    then upd_fd (nat fd) (\<lambda>f. f\<lparr>fd_size := new_size\<rparr>)
                                           (upd_inode node (\<lambda>n. n\<lparr>i_size := new_size\<rparr>) s)
                                    else s)
                           in (sint sz, s))"

definition fs_seek :: "int \<Rightarrow> u32 \<Rightarrow> u32 \<Rightarrow> 'a fs_state_scheme \<Rightarrow> int \<times> 'a fs_state_scheme" where
  "fs_seek fd offset whence s =
     (if \<not> fd_ok fd s then (- 1, s)
      else let f = file_descriptors s ! nat fd
           in if whence \<notin> {0, 1, 2} then (- 1, s)
              else let new_position = (if whence = 0 then offset
                         else if whence = 1 then fd_position f + offset else fd_size f + offset);
                       new_position = (if fd_size f < new_position then fd_size f else new_position)
                   in (sint new_position, upd_fd (nat fd) (\<lambda>f. f\<lparr>fd_position := new_position\<rparr>) s))"

definition fs_size :: "int \<Rightarrow> 'a fs_state_scheme \<Rightarrow> u32" where
  "fs_size fd s = (if \<not> fd_ok fd s then 0 else fd_size (file_descriptors s ! nat fd))"

section \<open>Directory operations\<close>

text \<open>\<open>n\<close> is the number of entries for which there is still room.\<close>

fun readdir_loop :: "nat \<Rightarrow> 'a fs_state_scheme \<Rightarrow> u32 \<Rightarrow> dirent list" where
  "readdir_loop 0 s child = []"
| "readdir_loop (Suc n) s child =
     (if child \<noteq> 0
      then \<lparr>d_name = take 255 (i_name (inodes s child)), d_inode = i_num (inodes s child),
             d_type = i_type (inodes s child), d_size = i_size (inodes s child)\<rparr> #
           readdir_loop n s (i_next (inodes s child))
      else [])"

text \<open>The entries that are stored and the result; \<open>entries\<close> is whether the array is not \<^verbatim>\<open>NULL\<close>.\<close>

definition fs_readdir :: "u8 list option \<Rightarrow> bool \<Rightarrow> u32 \<Rightarrow> 'a fs_state_scheme \<Rightarrow> (int \<times> dirent list) option" where
  "fs_readdir path entries max_entries s =
     (if \<not> entries \<or> max_entries = 0 then Some (- 1, [])
      else map_option (\<lambda>dir.
             if dir = 0 \<or> i_type (inodes s dir) \<noteq> FS_TYPE_DIR then (- 1, [])
             else let es = readdir_loop (unat max_entries) s (i_data (inodes s dir)) in (int (length es), es))
             (fs_resolve_path path s))"

definition fs_exists :: "u8 list option \<Rightarrow> 'a fs_state_scheme \<Rightarrow> int option" where
  "fs_exists path s = map_option (\<lambda>node. if node \<noteq> 0 then 1 else 0) (fs_resolve_path path s)"

definition fs_type :: "u8 list option \<Rightarrow> 'a fs_state_scheme \<Rightarrow> u32 option" where
  "fs_type path s = map_option (\<lambda>node. if node = 0 then 0 else i_type (inodes s node)) (fs_resolve_path path s)"

definition fs_mkdir :: "u8 list option \<Rightarrow> 'a fs_state_scheme \<Rightarrow> (int \<times> 'a fs_state_scheme) option" where
  "fs_mkdir path s =
     (case path of None \<Rightarrow> Some (- 1, s)
      | Some path \<Rightarrow>
          let (dirname, path) = after_last_slash path path;
              parent = fs_get_current_dir s;
              parent = (case path of c # _ \<Rightarrow> if c = SLASH then root_dir s else parent | [] \<Rightarrow> parent)
          in Option.bind (fs_find_inode_in_dir s parent dirname) (\<lambda>node.
               if node \<noteq> 0 then Some (- 1, s)
               else map_option (\<lambda>(dir, s). (if dir \<noteq> 0 then 0 else - 1, s))
                      (fs_create_inode dirname FS_TYPE_DIR parent s)))"

text \<open>The predecessor of a node among the children of its parent.\<close>

partial_function (option) find_before_node :: "'a fs_state_scheme \<Rightarrow> u32 \<Rightarrow> u32 \<Rightarrow> u32 option" where
  "find_before_node s node child =
     (if child \<noteq> 0 \<and> i_next (inodes s child) \<noteq> node
      then find_before_node s node (i_next (inodes s child)) else Some child)"

definition fs_unlink :: "u32 \<Rightarrow> 'a fs_state_scheme \<Rightarrow> 'a fs_state_scheme option" where
  "fs_unlink node s =
     (let parent = i_parent (inodes s node); child = i_data (inodes s parent)
      in if parent = 0 then Some s
         else if child = node then Some (upd_inode parent (\<lambda>n. n\<lparr>i_data := i_next (inodes s node)\<rparr>) s)
         else map_option (\<lambda>child.
                if child \<noteq> 0 then upd_inode child (\<lambda>n. n\<lparr>i_next := i_next (inodes s node)\<rparr>) s else s)
                (find_before_node s node child))"

definition fs_remove :: "u8 list option \<Rightarrow> 'a fs_state_scheme \<Rightarrow> (int \<times> 'a fs_state_scheme) option" where
  "fs_remove path s =
     Option.bind (fs_resolve_path path s) (\<lambda>node.
       if node = 0 \<or> node = root_dir s then Some (- 1, s)
       else if i_type (inodes s node) = FS_TYPE_DIR \<and> i_data (inodes s node) \<noteq> 0 then Some (- 1, s)
       else map_option (\<lambda>s.
              let s = (if i_type (inodes s node) = FS_TYPE_FILE \<and> i_data (inodes s node) \<noteq> 0
                       then kfree (i_data (inodes s node)) s else s)
              in (0, upd_inode node (\<lambda>n. n\<lparr>i_valid := False\<rparr>) s)) (fs_unlink node s))"

end
