(* ===== verification/FSTree.thy ===== *)
theory FSTree
  imports FS
begin

text \<open>
  The directory tree of the file system: which inodes are in use, that the linked lists of children
  and the parent pointers form a tree, how a lookup and a path walk see it, and how creating,
  linking and unlinking an inode changes it.
\<close>

section \<open>Inodes in use\<close>

definition inode_space :: "'a fs_state_scheme \<Rightarrow> bool" where
  "inode_space s \<longleftrightarrow> 0 < unat (inodes_addr s) \<and> unat (inodes_addr s) + 284 * MAX_INODES \<le> 4294967296"

lemma inode_ptr_unat: "inode_space s \<Longrightarrow> i < MAX_INODES \<Longrightarrow> unat (inode_ptr s i) = unat (inodes_addr s) + 284 * i"
  unfolding inode_space_def inode_ptr_def by (subst unat_u32_add; subst unat_u32_of_nat) auto

lemma inode_ptr_inj: "inode_space s \<Longrightarrow> i < MAX_INODES \<Longrightarrow> j < MAX_INODES \<Longrightarrow> inode_ptr s i = inode_ptr s j \<longleftrightarrow> i = j"
  by (simp add: u32_eq_unat inode_ptr_unat)

lemma inode_ptr_nonzero: "inode_space s \<Longrightarrow> i < MAX_INODES \<Longrightarrow> inode_ptr s i \<noteq> 0"
  by (simp add: u32_eq_unat inode_ptr_unat) (simp add: inode_space_def)

definition nodes :: "'a fs_state_scheme \<Rightarrow> u32 set" where
  "nodes s = {p. i_valid (inodes s p) \<and> (\<exists>i < MAX_INODES. p = inode_ptr s i)}"

definition dirs :: "'a fs_state_scheme \<Rightarrow> u32 set" where
  "dirs s = {p \<in> nodes s. i_type (inodes s p) = FS_TYPE_DIR}"

definition files :: "'a fs_state_scheme \<Rightarrow> u32 set" where
  "files s = {p \<in> nodes s. i_type (inodes s p) = FS_TYPE_FILE}"

lemma nodes_nonzero: "inode_space s \<Longrightarrow> p \<in> nodes s \<Longrightarrow> p \<noteq> 0"
  using inode_ptr_nonzero by (auto simp: nodes_def)

lemma upd_inode_fields [simp]:
  "inodes (upd_inode p f s) q = (if q = p then f (inodes s p) else inodes s q)"
  "inodes_addr (upd_inode p f s) = inodes_addr s" "root_dir (upd_inode p f s) = root_dir s"
  "current_dir (upd_inode p f s) = current_dir s" "vmem (upd_inode p f s) = vmem s"
  "file_descriptors (upd_inode p f s) = file_descriptors s" "next_inode (upd_inode p f s) = next_inode s"
  "fs_initialized (upd_inode p f s) = fs_initialized s" "inode_ptr (upd_inode p f s) = inode_ptr s"
  "inode_space (upd_inode p f s) = inode_space s"
  by (simp_all add: upd_inode_def inode_ptr_def inode_space_def fun_eq_iff)

section \<open>The tree\<close>

text \<open>\<open>tree s K\<close>: the inodes in use form a tree in which the directory \<open>d\<close> has the children \<open>K d\<close>.\<close>

definition tree :: "'a fs_state_scheme \<Rightarrow> (u32 \<Rightarrow> u32 list) \<Rightarrow> bool" where
  "tree s K \<longleftrightarrow> inode_space s \<and> root_dir s \<in> dirs s \<and> i_parent (inodes s (root_dir s)) = 0 \<and>
     (\<forall>d \<in> dirs s. chain (\<lambda>p. i_next (inodes s p)) (i_data (inodes s d)) (K d) 0 \<and> distinct (K d) \<and>
        (\<forall>c \<in> set (K d). c \<in> nodes s \<and> i_parent (inodes s c) = d)) \<and>
     (\<forall>c \<in> nodes s. c \<noteq> root_dir s \<longrightarrow> i_parent (inodes s c) \<in> dirs s \<and> c \<in> set (K (i_parent (inodes s c))))"

lemma tree_child:
  assumes "tree s K" and "d \<in> dirs s" and "c \<in> set (K d)"
  shows "c \<in> nodes s" "i_parent (inodes s c) = d" "c \<noteq> 0" "c \<noteq> root_dir s" "d \<noteq> 0"
proof -
  show c: "c \<in> nodes s" "i_parent (inodes s c) = d" using assms by (auto simp: tree_def)
  show "c \<noteq> 0" "d \<noteq> 0" using nodes_nonzero assms(1,2) c by (auto simp: tree_def dirs_def)
  then show "c \<noteq> root_dir s" using assms(1) c by (auto simp: tree_def)
qed

lemma tree_dir:
  assumes "tree s K" and "d \<in> dirs s"
  shows "chain (\<lambda>p. i_next (inodes s p)) (i_data (inodes s d)) (K d) 0" "distinct (K d)"
  using assms by (simp_all add: tree_def)

lemma tree_parent:
  assumes "tree s K" and "c \<in> nodes s" and "c \<noteq> root_dir s"
  shows "i_parent (inodes s c) \<in> dirs s" "c \<in> set (K (i_parent (inodes s c)))"
  using assms by (simp_all add: tree_def)

lemma find_child_chain:
  "chain (\<lambda>p. i_next (inodes s p)) a cs 0 \<Longrightarrow> 0 \<notin> set cs \<Longrightarrow>
     find_child s name a = Some (case find (\<lambda>c. i_name (inodes s c) = name) cs of None \<Rightarrow> 0 | Some c \<Rightarrow> c)"
proof (induction cs arbitrary: a)
  case Nil
  then show ?case by (subst find_child.simps) simp
next
  case (Cons c cs)
  then show ?case by (subst find_child.simps) auto
qed

text \<open>Looking up a name returns the first child of that name, or 0.\<close>

lemma find_in_dir:
  assumes t: "tree s K" and d: "d \<in> dirs s"
  shows "fs_find_inode_in_dir s d name =
    Some (case find (\<lambda>c. i_name (inodes s c) = name) (K d) of None \<Rightarrow> 0 | Some c \<Rightarrow> c)"
proof -
  have "chain (\<lambda>p. i_next (inodes s p)) (i_data (inodes s d)) (K d) 0" using t d by (simp add: tree_def)
  moreover have "0 \<notin> set (K d)" using tree_child(3) [OF t d] by blast
  moreover have "d \<noteq> 0" "i_type (inodes s d) = FS_TYPE_DIR" using t d nodes_nonzero by (auto simp: tree_def dirs_def)
  ultimately show ?thesis by (simp add: fs_find_inode_in_dir_def find_child_chain)
qed

lemma find_in_dir_found:
  assumes "tree s K" and "d \<in> dirs s" and "fs_find_inode_in_dir s d name = Some c" and "c \<noteq> 0"
  shows "c \<in> set (K d) \<and> i_name (inodes s c) = name"
  using assms(3,4) unfolding find_in_dir [OF assms(1,2)] by (auto split: option.splits simp: find_Some_iff)

section \<open>Paths\<close>

text \<open>Names that a path can address: not empty, at most 255 bytes, without a slash, and not one of the
  two special names.\<close>

definition plain_name :: "u8 list \<Rightarrow> bool" where
  "plain_name n \<longleftrightarrow> n \<noteq> [] \<and> length n \<le> 255 \<and> SLASH \<notin> set n \<and> n \<noteq> [DOT] \<and> n \<noteq> [DOT, DOT]"

fun walk :: "'a fs_state_scheme \<Rightarrow> u32 \<Rightarrow> u8 list list \<Rightarrow> u32 option" where
  "walk s d [] = Some d"
| "walk s d (n # ns) =
     (case fs_find_inode_in_dir s d n of Some c \<Rightarrow> if c = 0 then None else walk s c ns | None \<Rightarrow> None)"

definition join_path :: "u8 list list \<Rightarrow> u8 list" where
  "join_path ns = concat (map (\<lambda>n. SLASH # n) ns)"

lemma join_path_simps [simp]: "join_path [] = []" "join_path (n # ns) = SLASH # n @ join_path ns"
  "join_path (ms @ ns) = join_path ms @ join_path ns"
  by (simp_all add: join_path_def)

lemma path_component_name:
  "length n + i \<le> 255 \<Longrightarrow> SLASH \<notin> set n \<Longrightarrow> rest = [] \<or> (\<exists>q. rest = SLASH # q) \<Longrightarrow> path_component i (n @ rest) = (n, rest)"
proof (induction n arbitrary: i)
  case Nil
  then show ?case by auto
qed auto

lemma resolve_join:
  assumes "\<forall>n \<in> set ns. plain_name n" and "walk s d ns = Some q"
  shows "resolve_loop s (join_path ns) d = Some q"
  using assms
proof (induction ns arbitrary: d)
  case Nil
  then show ?case by (simp add: resolve_loop.simps)
next
  case (Cons n ns)
  then have n: "plain_name n" by simp
  then obtain c m where nm: "n = c # m" "c \<noteq> SLASH" by (cases n) (auto simp: plain_name_def)
  obtain x where x: "fs_find_inode_in_dir s d n = Some x" "x \<noteq> 0" "walk s x ns = Some q"
    using Cons.prems by (auto split: option.splits if_splits)
  have rest: "join_path ns = [] \<or> (\<exists>q. join_path ns = SLASH # q)" by (cases ns) auto
  have "path_component 0 (n @ join_path ns) = (n, join_path ns)"
    by (rule path_component_name) (use n rest in \<open>auto simp: plain_name_def\<close>)
  moreover have "resolve_loop s (join_path ns) x = Some q" using Cons x by simp
  moreover have "n \<noteq> [DOT]" "n \<noteq> [DOT, DOT]" using n by (auto simp: plain_name_def)
  ultimately show ?case using nm x by (subst resolve_loop.simps) (auto simp del: path_component.simps)
qed

lemma walk_snoc:
  "walk s d (ns @ [n]) = (case walk s d ns of None \<Rightarrow> None
     | Some e \<Rightarrow> (case fs_find_inode_in_dir s e n of Some c \<Rightarrow> if c = 0 then None else Some c | None \<Rightarrow> None))"
  by (induction ns arbitrary: d) (auto split: option.splits)

lemma walk_dirs:
  assumes t: "tree s K" and "walk s (root_dir s) ns = Some q"
  shows "q \<in> nodes s"
  using assms(2)
proof (induction ns arbitrary: q rule: rev_induct)
  case Nil
  then show ?case using t by (simp add: tree_def dirs_def)
next
  case (snoc n ns)
  then obtain e where e: "walk s (root_dir s) ns = Some e" "fs_find_inode_in_dir s e n = Some q" "q \<noteq> 0"
    by (auto simp: walk_snoc split: option.splits if_splits)
  have "e \<in> dirs s"
  proof (rule ccontr)
    assume "e \<notin> dirs s"
    then have "i_type (inodes s e) \<noteq> FS_TYPE_DIR" using snoc.IH [OF e(1)] by (simp add: dirs_def)
    then show False using e(2,3) by (simp add: fs_find_inode_in_dir_def)
  qed
  then show ?case using find_in_dir_found [OF t _ e(2,3)] tree_child(1) [OF t] by blast
qed

text \<open>The path that \<open>fs_get_current_path\<close> assembles from the end.\<close>

lemma current_path_walk:
  assumes t: "tree s K" and "walk s (root_dir s) ns = Some q" and "int (length (join_path ns)) \<le> pos"
  shows "current_path_loop s q pos path = (pos - int (length (join_path ns)), join_path ns @ path)"
  using assms(2,3)
proof (induction ns arbitrary: q pos path rule: rev_induct)
  case Nil
  then show ?case by (subst current_path_loop.simps) simp
next
  case (snoc n ns)
  then obtain e where e: "walk s (root_dir s) ns = Some e" "fs_find_inode_in_dir s e n = Some q" "q \<noteq> 0"
    by (auto simp: walk_snoc split: option.splits if_splits)
  have d: "e \<in> dirs s" using walk_dirs [OF t e(1)] e(2,3) by (auto simp: dirs_def fs_find_inode_in_dir_def split: if_splits)
  have c: "q \<in> set (K e)" "i_name (inodes s q) = n" using find_in_dir_found [OF t d e(2,3)] by auto
  have q: "q \<noteq> root_dir s" "i_parent (inodes s q) = e" using tree_child [OF t d c(1)] by auto
  show ?case
    using e(3) q c(2) snoc.IH [OF e(1), of "pos - int (length n) - 1" "SLASH # n @ path"] snoc.prems(2)
    by (subst current_path_loop.simps) (simp add: Let_def)
qed

text \<open>Walking back along the path that \<open>fs_get_current_path\<close> returns.\<close>

lemma current_path_roundtrip:
  assumes t: "tree s K" and w: "walk s (root_dir s) ns = Some (current_dir s)" and c: "current_dir s \<noteq> 0"
    and n: "\<forall>n \<in> set ns. plain_name n" and l: "length (join_path ns) \<le> 255"
  shows "fs_get_current_path s = (if ns = [] then [SLASH] else join_path ns) \<and>
    fs_resolve_path (Some (fs_get_current_path s)) s = Some (current_dir s)"
proof (cases ns rule: rev_cases)
  case Nil
  then show ?thesis using w by (simp add: fs_get_current_path_def fs_resolve_path_def)
next
  case (snoc ms m)
  have "current_dir s \<noteq> root_dir s"
  proof -
    obtain e where e: "walk s (root_dir s) ms = Some e" "fs_find_inode_in_dir s e m = Some (current_dir s)"
      using w snoc by (auto simp: walk_snoc split: option.splits if_splits)
    have d: "e \<in> dirs s" using walk_dirs [OF t e(1)] e(2) c by (auto simp: dirs_def fs_find_inode_in_dir_def split: if_splits)
    show ?thesis using tree_child(4) [OF t d] find_in_dir_found [OF t d e(2) c] by blast
  qed
  moreover have cp: "current_path_loop s (current_dir s) 255 [] = (255 - int (length (join_path ns)), join_path ns)"
    using current_path_walk [OF t w, of 255 "[]"] l by simp
  ultimately have p: "fs_get_current_path s = join_path ns" using c l by (simp add: fs_get_current_path_def)
  obtain n0 ns0 where ns: "ns = n0 # ns0" using snoc neq_Nil_conv [of ns] by auto
  have "resolve_loop s (join_path ns) (root_dir s) = Some (current_dir s)" by (rule resolve_join [OF n w])
  moreover have "resolve_loop s (SLASH # q) d = resolve_loop s q d" for q d
    by (simp add: resolve_loop.simps [of s "SLASH # q"] resolve_loop.simps [of s q])
  moreover have "n0 @ join_path ns0 \<noteq> []" using n ns by (auto simp: plain_name_def)
  ultimately show ?thesis using p ns by (auto simp: fs_resolve_path_def)
qed

section \<open>Growing and shrinking\<close>

text \<open>\<open>added s s' p d\<close>: the unused inode \<open>p\<close> became the first child of the directory \<open>d\<close>.\<close>

definition added :: "'a fs_state_scheme \<Rightarrow> 'a fs_state_scheme \<Rightarrow> u32 \<Rightarrow> u32 \<Rightarrow> bool" where
  "added s s' p d \<longleftrightarrow> inodes_addr s' = inodes_addr s \<and> root_dir s' = root_dir s \<and>
     (\<exists>i < MAX_INODES. p = inode_ptr s i) \<and> p \<notin> nodes s \<and> d \<in> dirs s \<and>
     i_valid (inodes s' p) \<and> i_parent (inodes s' p) = d \<and> i_next (inodes s' p) = i_data (inodes s d) \<and>
     (i_type (inodes s' p) = FS_TYPE_DIR \<longrightarrow> i_data (inodes s' p) = 0) \<and>
     inodes s' d = (inodes s d)\<lparr>i_data := p\<rparr> \<and> (\<forall>q. q \<noteq> p \<longrightarrow> q \<noteq> d \<longrightarrow> inodes s' q = inodes s q)"

lemma added_fields:
  assumes "added s s' p d" and "q \<noteq> p"
  shows "i_valid (inodes s' q) = i_valid (inodes s q)" "i_type (inodes s' q) = i_type (inodes s q)"
    "i_next (inodes s' q) = i_next (inodes s q)" "i_parent (inodes s' q) = i_parent (inodes s q)"
    "i_name (inodes s' q) = i_name (inodes s q)" "i_size (inodes s' q) = i_size (inodes s q)"
    "i_num (inodes s' q) = i_num (inodes s q)" "q \<noteq> d \<Longrightarrow> i_data (inodes s' q) = i_data (inodes s q)"
  using assms by (cases "q = d"; auto simp: added_def)+

lemma added_nodes:
  assumes "added s s' p d"
  shows "nodes s' = insert p (nodes s)" "dirs s' = (if i_type (inodes s' p) = FS_TYPE_DIR then insert p (dirs s) else dirs s)"
    "files s' = (if i_type (inodes s' p) = FS_TYPE_FILE then insert p (files s) else files s)"
proof -
  have ptr: "inode_ptr s' = inode_ptr s" using assms by (simp add: added_def inode_ptr_def fun_eq_iff)
  have v: "i_valid (inodes s' q) = i_valid (inodes s q)" "i_type (inodes s' q) = i_type (inodes s q)" if "q \<noteq> p" for q
    using added_fields [OF assms that] by auto
  have p: "i_valid (inodes s' p)" "\<exists>i < MAX_INODES. p = inode_ptr s i" "p \<notin> nodes s" using assms by (auto simp: added_def)
  show n: "nodes s' = insert p (nodes s)"
    unfolding nodes_def ptr using v(1) p(1,2) by (auto simp: set_eq_iff) metis+
  show "dirs s' = (if i_type (inodes s' p) = FS_TYPE_DIR then insert p (dirs s) else dirs s)"
    "files s' = (if i_type (inodes s' p) = FS_TYPE_FILE then insert p (files s) else files s)"
    unfolding dirs_def files_def n using v(2) p(3) by (auto simp: set_eq_iff) metis+
qed

lemma tree_added:
  assumes t: "tree s K" and a: "added s s' p d"
  shows "tree s' (K(d := p # K d, p := []))"
proof -
  note f = added_fields [OF a] and ns = added_nodes [OF a]
  have sp: "inode_space s'" and rt: "root_dir s' = root_dir s" and d: "d \<in> dirs s" and pn: "p \<notin> nodes s"
    and pp: "i_parent (inodes s' p) = d" "i_next (inodes s' p) = i_data (inodes s d)"
      "i_type (inodes s' p) = FS_TYPE_DIR \<longrightarrow> i_data (inodes s' p) = 0" "i_data (inodes s' d) = p"
    using t a by (auto simp: tree_def added_def inode_space_def)
  have pd: "p \<noteq> d" "p \<notin> dirs s" using d pn by (auto simp: dirs_def)
  have r: "root_dir s \<in> dirs s" "i_parent (inodes s (root_dir s)) = 0" "root_dir s \<noteq> p"
    using t pn by (auto simp: tree_def dirs_def)
  have old: "chain (\<lambda>q. i_next (inodes s' q)) a (K e) 0 = chain (\<lambda>q. i_next (inodes s q)) a (K e) 0" if "e \<in> dirs s" for a e
    by (rule chain_cong) (use f(3) tree_child(1) [OF t that] pn in metis)
  have "chain (\<lambda>q. i_next (inodes s' q)) (i_data (inodes s' e)) ((K(d := p # K d, p := [])) e) 0 \<and>
      distinct ((K(d := p # K d, p := [])) e) \<and>
      (\<forall>c \<in> set ((K(d := p # K d, p := [])) e). c \<in> nodes s' \<and> i_parent (inodes s' c) = e)" if e: "e \<in> dirs s'" for e
  proof -
    consider "e = p" "i_type (inodes s' p) = FS_TYPE_DIR" | "e = d" | "e \<noteq> p" "e \<noteq> d" "e \<in> dirs s"
      using e ns(2) pd(2) by (cases "e = d"; cases "e = p") (auto split: if_splits)
    then show ?thesis
    proof cases
      case 1
      then show ?thesis using pp by simp
    next
      case 2
      have "p \<notin> set (K d)" using tree_child(1) [OF t d] pn by blast
      moreover have "i_parent (inodes s' c) = d" if "c \<in> set (K d)" for c
        using tree_child(1,2) [OF t d that] f(4) [of c] pn by auto
      ultimately show ?thesis using 2 pd pp old [OF d] t d ns(1) by (auto simp: tree_def)
    next
      case 3
      have "c \<in> nodes s' \<and> i_parent (inodes s' c) = e" if "c \<in> set (K e)" for c
        using tree_child(1,2) [OF t 3(3) that] f(4) [of c] pn ns(1) by auto
      then show ?thesis using 3 old [OF 3(3)] f(8) [of e] t by (simp add: tree_def)
    qed
  qed
  moreover have "i_parent (inodes s' c) \<in> dirs s' \<and> c \<in> set ((K(d := p # K d, p := [])) (i_parent (inodes s' c)))"
    if "c \<in> nodes s'" "c \<noteq> root_dir s'" for c
  proof (cases "c = p")
    case True
    then show ?thesis using pp pd d ns(2) by auto
  next
    case False
    then have "i_parent (inodes s c) \<in> dirs s" "c \<in> set (K (i_parent (inodes s c)))" "i_parent (inodes s' c) = i_parent (inodes s c)"
      using t that ns(1) rt f(4) by (auto simp: tree_def)
    then show ?thesis using ns(2) pd by auto
  qed
  ultimately show ?thesis using sp rt r ns(2) f(4) [of "root_dir s"] by (simp add: tree_def)
qed

text \<open>\<open>removed s s' p d xs ys\<close>: the node \<open>p\<close> without children was taken out between \<open>xs\<close> and \<open>ys\<close>, the other
  children of \<open>d\<close>.\<close>

definition removed :: "'a fs_state_scheme \<Rightarrow> 'a fs_state_scheme \<Rightarrow> u32 \<Rightarrow> u32 \<Rightarrow> u32 list \<Rightarrow> bool" where
  "removed s s' p d xs \<longleftrightarrow> inodes_addr s' = inodes_addr s \<and> root_dir s' = root_dir s \<and> \<not> i_valid (inodes s' p) \<and>
     (i_type (inodes s p) = FS_TYPE_DIR \<longrightarrow> i_data (inodes s p) = 0) \<and>
     (\<forall>q. q \<noteq> p \<longrightarrow> inodes s' q = (inodes s q)\<lparr>
        i_data := (if q = d \<and> xs = [] then i_next (inodes s p) else i_data (inodes s q)),
        i_next := (if xs \<noteq> [] \<and> q = last xs then i_next (inodes s p) else i_next (inodes s q))\<rparr>)"

lemma removed_nodes:
  assumes "removed s s' p d xs"
  shows "nodes s' = nodes s - {p}" "dirs s' = dirs s - {p}" "files s' = files s - {p}"
proof -
  have ptr: "inode_ptr s' = inode_ptr s" using assms by (simp add: removed_def inode_ptr_def fun_eq_iff)
  have v: "i_valid (inodes s' q) = (i_valid (inodes s q) \<and> q \<noteq> p)" for q
    using assms by (cases "q = p") (auto simp: removed_def)
  have t: "i_type (inodes s' q) = i_type (inodes s q)" if "q \<noteq> p" for q using assms that by (auto simp: removed_def)
  show n: "nodes s' = nodes s - {p}" unfolding nodes_def ptr v by auto
  show "dirs s' = dirs s - {p}" "files s' = files s - {p}" unfolding dirs_def files_def n using t by auto
qed

lemma chain_remove:
  assumes c: "chain nx a (xs @ p # ys) z" and d: "distinct (xs @ p # ys)"
    and nx: "\<And>q. q \<noteq> p \<Longrightarrow> nx' q = (if xs \<noteq> [] \<and> q = last xs then nx p else nx q)"
  shows "chain nx' (if xs = [] then nx p else a) (xs @ ys) z"
proof -
  have ys: "chain nx' (nx p) ys z"
  proof -
    have "chain nx' (nx p) ys z = chain nx (nx p) ys z"
    proof (rule chain_cong)
      fix u assume "u \<in> set ys"
      then have "u \<noteq> p" "xs \<noteq> [] \<longrightarrow> u \<noteq> last xs" using d by (auto dest: last_in_set)
      then show "nx' u = nx u" using nx [of u] by auto
    qed
    then show ?thesis using c by (auto simp: chain_append)
  qed
  show ?thesis
  proof (cases xs rule: rev_cases)
    case Nil
    then show ?thesis using ys by simp
  next
    case (snoc zs w)
    have "chain nx' a zs w = chain nx a zs w"
    proof (rule chain_cong)
      fix u assume "u \<in> set zs"
      then have "u \<noteq> p" "u \<noteq> w" using d snoc by auto
      then show "nx' u = nx u" using nx [of u] snoc by auto
    qed
    moreover have "nx' w = nx p" using nx [of w] d snoc by auto
    ultimately show ?thesis using c ys snoc by (auto simp: chain_append)
  qed
qed

lemma tree_removed:
  assumes t: "tree s K" and r: "removed s s' p d xs" and d: "d \<in> dirs s" and k: "K d = xs @ p # ys"
  shows "tree s' (K(d := xs @ ys))"
proof -
  note ns = removed_nodes [OF r]
  have pk: "p \<in> set (K d)" using k by simp
  note p = tree_child [OF t d pk]
  have f: "i_parent (inodes s' q) = i_parent (inodes s q)" "i_next (inodes s' q) = (if xs \<noteq> [] \<and> q = last xs then i_next (inodes s p) else i_next (inodes s q))"
    "i_data (inodes s' q) = (if q = d \<and> xs = [] then i_next (inodes s p) else i_data (inodes s q))" if "q \<noteq> p" for q
    using r that by (auto simp: removed_def)
  have ch: "chain (\<lambda>q. i_next (inodes s q)) (i_data (inodes s e)) (K e) 0" "distinct (K e)" if "e \<in> dirs s" for e
    using t that by (auto simp: tree_def)
  have none: "i_parent (inodes s c) \<noteq> p" if "c \<in> nodes s" "c \<noteq> root_dir s" for c
  proof
    assume a: "i_parent (inodes s c) = p"
    then have "p \<in> dirs s" "c \<in> set (K p)" using t that by (auto simp: tree_def)
    moreover have "i_data (inodes s p) = 0" using r \<open>p \<in> dirs s\<close> by (simp add: removed_def dirs_def)
    ultimately show False using ch(1) [of p] tree_child(3) [OF t, of p "hd (K p)"] by (cases "K p") auto
  qed
  have "chain (\<lambda>q. i_next (inodes s' q)) (i_data (inodes s' e)) ((K(d := xs @ ys)) e) 0 \<and> distinct ((K(d := xs @ ys)) e) \<and>
      (\<forall>c \<in> set ((K(d := xs @ ys)) e). c \<in> nodes s' \<and> i_parent (inodes s' c) = e)" if e: "e \<in> dirs s'" for e
  proof (cases "e = d")
    case True
    have pd: "d \<noteq> p" using True e ns by auto
    have "chain (\<lambda>q. i_next (inodes s' q)) (if xs = [] then i_next (inodes s p) else i_data (inodes s d)) (xs @ ys) 0"
      by (rule chain_remove [where nx = "\<lambda>q. i_next (inodes s q)"]) (use ch [OF d] k f(2) in auto)
    moreover have "c \<in> nodes s' \<and> i_parent (inodes s' c) = d" if "c \<in> set (xs @ ys)" for c
    proof -
      have "c \<noteq> p" "c \<in> set (K d)" using that ch(2) [OF d] k by auto
      then show ?thesis using tree_child(1,2) [OF t d, of c] f(1) [of c] ns(1) by auto
    qed
    ultimately show ?thesis using True ch(2) [OF d] k f(3) [OF pd] by (auto split: if_splits)
  next
    case False
    have ed: "e \<in> dirs s" "e \<noteq> p" using e ns by auto
    have out: "c \<noteq> p \<and> (xs \<noteq> [] \<longrightarrow> c \<noteq> last xs)" if "c \<in> set (K e)" for c
    proof -
      have "i_parent (inodes s c) = e" using tree_child(2) [OF t ed(1) that] .
      moreover have "xs \<noteq> [] \<longrightarrow> i_parent (inodes s (last xs)) = d" using tree_child(2) [OF t d] k by simp
      ultimately show ?thesis using p(2) False by auto
    qed
    have "chain (\<lambda>q. i_next (inodes s' q)) (i_data (inodes s e)) (K e) 0 = chain (\<lambda>q. i_next (inodes s q)) (i_data (inodes s e)) (K e) 0"
      by (rule chain_cong) (use out f(2) in auto)
    moreover have "c \<in> nodes s' \<and> i_parent (inodes s' c) = e" if "c \<in> set (K e)" for c
      using tree_child(1,2) [OF t ed(1) that] out [OF that] f(1) [of c] ns(1) by auto
    ultimately show ?thesis using False ch [OF ed(1)] f(3) [OF ed(2)] by auto
  qed
  moreover have "i_parent (inodes s' c) \<in> dirs s' \<and> c \<in> set ((K(d := xs @ ys)) (i_parent (inodes s' c)))"
    if "c \<in> nodes s'" "c \<noteq> root_dir s'" for c
  proof -
    have c: "c \<in> nodes s" "c \<noteq> p" "c \<noteq> root_dir s" using that ns r by (auto simp: removed_def)
    then have q: "i_parent (inodes s c) \<in> dirs s" "c \<in> set (K (i_parent (inodes s c)))" using t by (auto simp: tree_def)
    show ?thesis
    proof (cases "i_parent (inodes s c) = d")
      case True
      then have "c \<in> set (xs @ ys)" using q(2) k c(2) by simp
      then show ?thesis using True q(1) none [OF c(1,3)] ns(2) by (simp add: f(1) [OF c(2)])
    qed (use q none [OF c(1,3)] ns(2) in \<open>simp add: f(1) [OF c(2)]\<close>)
  qed
  moreover have "inode_space s'" "root_dir s' = root_dir s" "root_dir s \<in> dirs s" "i_parent (inodes s (root_dir s)) = 0"
    using t r by (auto simp: tree_def removed_def inode_space_def)
  ultimately show ?thesis using ns(2) p(4) f(1) [of "root_dir s"] by (auto simp: tree_def)
qed

lemma find_before_chain:
  "chain (\<lambda>q. i_next (inodes s q)) a (xs @ p # ys) 0 \<Longrightarrow> xs \<noteq> [] \<Longrightarrow> distinct (xs @ p # ys) \<Longrightarrow> 0 \<notin> set xs \<Longrightarrow>
     find_before_node s p a = Some (last xs)"
proof (induction xs arbitrary: a)
  case (Cons x xs)
  show ?case
  proof (cases "xs = []")
    case True
    then show ?thesis using Cons.prems by (subst find_before_node.simps) auto
  next
    case False
    then have "i_next (inodes s x) \<noteq> p" using Cons.prems by (cases xs) auto
    moreover have "find_before_node s p (i_next (inodes s x)) = Some (last xs)" using Cons False by auto
    ultimately show ?thesis using Cons.prems False by (subst find_before_node.simps) auto
  qed
qed simp

lemma unlink_removed:
  assumes "i_type (inodes s p) = FS_TYPE_DIR \<longrightarrow> i_data (inodes s p) = 0" and "p \<noteq> d"
  shows "removed s (upd_inode p (\<lambda>n. n\<lparr>i_valid := False\<rparr>)
      (upd_inode d (\<lambda>n. n\<lparr>i_data := i_next (inodes s p)\<rparr>) s)) p d []"
    "xs \<noteq> [] \<Longrightarrow> last xs \<noteq> p \<Longrightarrow> removed s (upd_inode p (\<lambda>n. n\<lparr>i_valid := False\<rparr>)
      (upd_inode (last xs) (\<lambda>n. n\<lparr>i_next := i_next (inodes s p)\<rparr>) s)) p d xs"
  using assms by (auto simp: removed_def upd_inode_def)

lemma unlink_result:
  assumes t: "tree s K" and p: "p \<in> nodes s" "p \<noteq> root_dir s"
    and e: "i_type (inodes s p) = FS_TYPE_DIR \<longrightarrow> i_data (inodes s p) = 0"
  obtains d xs ys q g where "d = i_parent (inodes s p)" "d \<in> dirs s" "K d = xs @ p # ys" "p \<noteq> d" "q \<noteq> p"
    "fs_unlink p s = Some (upd_inode q g s)" "removed s (upd_inode p (\<lambda>n. n\<lparr>i_valid := False\<rparr>) (upd_inode q g s)) p d xs"
proof -
  obtain d where dd: "d = i_parent (inodes s p)" by simp
  note d = tree_parent [OF t p, folded dd]
  then obtain xs ys where k: "K d = xs @ p # ys" using split_list by metis
  have ch: "chain (\<lambda>q. i_next (inodes s q)) (i_data (inodes s d)) (xs @ p # ys) 0" "distinct (xs @ p # ys)"
    using tree_dir [OF t d(1)] unfolding k by blast+
  have nz: "0 \<notin> set xs" "d \<noteq> 0" "p \<noteq> 0"
    using tree_child(3) [OF t d(1), of 0] tree_child(3,5) [OF t d] unfolding k by auto
  have "i_data (inodes s d) \<noteq> 0" using ch(1) nz(1,3) by (cases xs) auto
  then have pd: "p \<noteq> d" using e d(1) by (auto simp: dirs_def)
  show ?thesis
  proof (cases "xs = []")
    case True
    then have "i_data (inodes s d) = p" using ch(1) by simp
    then have u: "fs_unlink p s = Some (upd_inode d (\<lambda>n. n\<lparr>i_data := i_next (inodes s p)\<rparr>) s)"
      using nz by (simp add: fs_unlink_def dd [symmetric])
    show ?thesis by (rule that [OF dd d(1) k pd pd [symmetric] u]) (use unlink_removed(1) [OF e pd] True in simp)
  next
    case False
    then have "i_data (inodes s d) \<noteq> p" using ch by (cases xs) auto
    moreover have "find_before_node s p (i_data (inodes s d)) = Some (last xs)"
      using find_before_chain [OF ch(1) False ch(2)] nz by simp
    moreover have l: "last xs \<noteq> 0" "last xs \<noteq> p" using False nz(1) ch(2) by (induction xs) auto
    ultimately have u: "fs_unlink p s = Some (upd_inode (last xs) (\<lambda>n. n\<lparr>i_next := i_next (inodes s p)\<rparr>) s)"
      using nz by (simp add: fs_unlink_def dd [symmetric])
    show ?thesis by (rule that [OF dd d(1) k pd l(2) u unlink_removed(2) [OF e pd False l(2)]])
  qed
qed

end
