(* ===== verification/FSSpec.thy ===== *)
theory FSSpec
  imports FSTree
begin

text \<open>
  The contract of the file system: the invariant that ties directories, file data on the heap, inode
  numbers and descriptors together, the contents of a file as a list of bytes, and what every
  operation of \<open>FS\<close> does to them.
\<close>

section \<open>The invariant\<close>

text \<open>The part of the state that belongs to the file system itself.\<close>

definition fs_view :: "'a fs_state_scheme \<Rightarrow>
    u32 \<times> (u32 \<Rightarrow> inode) \<times> u32 \<times> u32 \<times> file_descriptor list \<times> bool \<times> u32" where
  "fs_view s = (inodes_addr s, inodes s, root_dir s, current_dir s, file_descriptors s, fs_initialized s, next_inode s)"

lemma more_fs_view: "heap_state.more s' = heap_state.more s \<Longrightarrow> fs_view s' = fs_view s"
  by (cases s; cases s') (simp add: fs_view_def)

lemma fs_view_vmem [simp]: "fs_view (s\<lparr>vmem := m\<rparr>) = fs_view s"
  by (simp add: fs_view_def)

lemma fs_view_eqD:
  assumes "fs_view s' = fs_view s"
  shows "inodes_addr s' = inodes_addr s" "inodes s' = inodes s" "root_dir s' = root_dir s" "current_dir s' = current_dir s"
    "file_descriptors s' = file_descriptors s" "fs_initialized s' = fs_initialized s" "next_inode s' = next_inode s"
    "inode_ptr s' = inode_ptr s" "inode_space s' = inode_space s" "nodes s' = nodes s" "dirs s' = dirs s" "files s' = files s"
    "tree s' = tree s" "free_inode s' = free_inode s"
  using assms by (auto simp: fs_view_def inode_ptr_def inode_space_def nodes_def dirs_def files_def tree_def fun_eq_iff free_inode_def)

text \<open>Every file has its own 64 KB on the heap, in use, and is not larger.\<close>

definition data_ok :: "'a fs_state_scheme \<Rightarrow> (nat \<times> nat) set \<Rightarrow> bool" where
  "data_ok s U \<longleftrightarrow> inj_on (\<lambda>p. i_data (inodes s p)) (files s) \<and>
     (\<forall>p \<in> files s. i_size (inodes s p) \<le> MAX_FILE_SIZE \<and> (\<exists>n \<ge> 65536. (unat (i_data (inodes s p)), n) \<in> U))"

text \<open>Inode numbers are unique and were handed out in order.\<close>

definition nums_ok :: "'a fs_state_scheme \<Rightarrow> bool" where
  "nums_ok s \<longleftrightarrow> inj_on (\<lambda>p. i_num (inodes s p)) (nodes s) \<and> (\<forall>p \<in> nodes s. i_num (inodes s p) < next_inode s)"

text \<open>An open descriptor refers to a file, if to anything, and its position and size do not exceed the
  size of the file.\<close>

definition fd_fits :: "'a fs_state_scheme \<Rightarrow> file_descriptor \<Rightarrow> bool" where
  "fd_fits s f \<longleftrightarrow> fd_inode f < next_inode s \<and> (\<forall>p \<in> nodes s. i_num (inodes s p) = fd_inode f \<longrightarrow>
     p \<in> files s \<and> fd_position f \<le> i_size (inodes s p) \<and> fd_size f \<le> i_size (inodes s p))"

definition fds_ok :: "'a fs_state_scheme \<Rightarrow> bool" where
  "fds_ok s \<longleftrightarrow> length (file_descriptors s) = MAX_FILE_DESCRIPTORS \<and>
     (\<forall>f \<in> set (file_descriptors s). fd_valid f \<longrightarrow> fd_fits s f)"

definition fs_inv :: "'a fs_state_scheme \<Rightarrow> (u32 \<Rightarrow> u32 list) \<Rightarrow> blocks \<Rightarrow> bool" where
  "fs_inv s K bs \<longleftrightarrow> heap_rel s bs \<and> tree s K \<and> nodes s \<subseteq> dirs s \<union> files s \<and> current_dir s \<in> dirs s \<and>
     data_ok s (live 0x400000 bs) \<and> nums_ok s \<and> fds_ok s"

text \<open>The contents of a file.\<close>

definition bytes_at :: "mem \<Rightarrow> u32 \<Rightarrow> nat \<Rightarrow> u8 list" where
  "bytes_at m a n = map (\<lambda>i. m (a + word_of_nat i)) [0..<n]"

definition file_bytes :: "'a fs_state_scheme \<Rightarrow> u32 \<Rightarrow> u8 list" where
  "file_bytes s p = bytes_at (vmem s) (i_data (inodes s p)) (unat (i_size (inodes s p)))"

lemma length_bytes_at [simp]: "length (bytes_at m a n) = n"
  by (simp add: bytes_at_def)

lemma length_file_bytes [simp]: "length (file_bytes s p) = unat (i_size (inodes s p))"
  by (simp add: file_bytes_def)

lemma bytes_at_cong: "(\<And>i. i < n \<Longrightarrow> m' (a + word_of_nat i) = m (a + word_of_nat i)) \<Longrightarrow> bytes_at m' a n = bytes_at m a n"
  by (simp add: bytes_at_def)

lemma keeps_bytes:
  assumes "keeps U m m'" and "(unat a, k) \<in> U" and "n \<le> k"
  shows "bytes_at m' a n = bytes_at m a n"
proof (rule bytes_at_cong)
  fix i assume "i < n"
  then have "m' (word_of_nat (unat a + i)) = m (word_of_nat (unat a + i))" using assms by (auto simp: keeps_def)
  then show "m' (a + word_of_nat i) = m (a + word_of_nat i)" by simp
qed

lemma fs_inv_file:
  assumes "fs_inv s K bs" and "p \<in> files s"
  obtains n where "65536 \<le> n" "(unat (i_data (inodes s p)), n) \<in> live 0x400000 bs" "unat (i_size (inodes s p)) \<le> 65536"
  using assms unfolding fs_inv_def data_ok_def word_le_nat_alt by force

section \<open>Creating\<close>

text \<open>\<open>created s s' p d name typ data\<close>: the free inode \<open>p\<close> was filled in and put in front of the children of \<open>d\<close>.\<close>

definition created ::
  "'a fs_state_scheme \<Rightarrow> 'a fs_state_scheme \<Rightarrow> u32 \<Rightarrow> u32 \<Rightarrow> u8 list \<Rightarrow> u32 \<Rightarrow> u32 \<Rightarrow> bool" where
  "created s s' p d name typ data \<longleftrightarrow> inodes_addr s' = inodes_addr s \<and> root_dir s' = root_dir s \<and>
     current_dir s' = current_dir s \<and> file_descriptors s' = file_descriptors s \<and>
     fs_initialized s' = fs_initialized s \<and> next_inode s' = next_inode s + 1 \<and>
     (\<exists>i < MAX_INODES. p = inode_ptr s i) \<and> \<not> i_valid (inodes s p) \<and>
     inodes s' = (inodes s)(p := \<lparr>i_name = take 255 name, i_type = typ, i_size = 0, i_data = data, i_valid = True,
        i_parent = d, i_next = i_data (inodes s d), i_num = next_inode s\<rparr>, d := (inodes s d)\<lparr>i_data := p\<rparr>)"

lemma created_added:
  assumes "created s s' p d name typ data" and "d \<in> dirs s" and "typ = FS_TYPE_DIR \<longrightarrow> data = 0"
  shows "added s s' p d" "p \<noteq> d"
proof -
  have "p \<notin> nodes s" using assms(1) by (simp add: created_def nodes_def)
  then show pd: "p \<noteq> d" using assms(2) by (auto simp: dirs_def)
  then show "added s s' p d" using assms \<open>p \<notin> nodes s\<close> by (auto simp: added_def created_def)
qed

lemma created_node:
  assumes "created s s' p d name typ data" and "p \<noteq> d"
  shows "i_name (inodes s' p) = take 255 name" "i_type (inodes s' p) = typ" "i_size (inodes s' p) = 0"
    "i_data (inodes s' p) = data" "i_num (inodes s' p) = next_inode s" "p \<notin> nodes s"
  using assms by (auto simp: created_def nodes_def)

lemma next_inode_less:
  fixes n :: u32
  assumes "n + 1 \<noteq> 0"
  shows "x < n \<Longrightarrow> x < n + 1" "n < n + 1"
proof -
  have "unat (n + 1) = unat n + 1" using assms unatSuc [of n] by (simp add: add.commute)
  then show "x < n \<Longrightarrow> x < n + 1" "n < n + 1" by (simp_all add: word_less_nat_alt)
qed

lemma created_inv:
  assumes inv: "fs_inv s K bs" and d: "d \<in> dirs s" and c: "created s s' p d name typ data" and n: "next_inode s + 1 \<noteq> 0"
    and h: "heap_rel s' bs'" and sub: "live 0x400000 bs \<subseteq> live 0x400000 bs'"
    and ty: "typ = FS_TYPE_DIR \<and> data = 0 \<or>
      typ = FS_TYPE_FILE \<and> unat data \<notin> fst ` live 0x400000 bs \<and> (\<exists>k \<ge> 65536. (unat data, k) \<in> live 0x400000 bs')"
  shows "fs_inv s' (K(d := p # K d, p := [])) bs'"
proof -
  have td: "typ = FS_TYPE_DIR \<longrightarrow> data = 0" using ty by auto
  note a = created_added [OF c d td]
  note ns = added_nodes [OF a(1)] and f = added_fields [OF a(1)] and pn = created_node [OF c a(2)]
  have nx: "next_inode s' = next_inode s + 1" "file_descriptors s' = file_descriptors s" "current_dir s' = current_dir s"
    using c by (auto simp: created_def)
  have np: "q \<noteq> p" if "q \<in> nodes s" for q using that pn(6) by auto
  have fd: "q \<noteq> p \<and> q \<noteq> d \<and> q \<in> nodes s" if "q \<in> files s" for q using that d np by (auto simp: files_def dirs_def)
  have ok: "data_ok s (live 0x400000 bs)" "nums_ok s" "fds_ok s" "tree s K" "nodes s \<subseteq> dirs s \<union> files s" "current_dir s \<in> dirs s"
    using inv by (simp_all add: fs_inv_def)
  have "data_ok s' (live 0x400000 bs')"
  proof -
    have old: "i_data (inodes s' q) = i_data (inodes s q)" "i_size (inodes s' q) = i_size (inodes s q)"
      "\<exists>k \<ge> 65536. (unat (i_data (inodes s q)), k) \<in> live 0x400000 bs'"
      "\<exists>k. (unat (i_data (inodes s q)), k) \<in> live 0x400000 bs" if "q \<in> files s" for q
      using f fd [OF that] that ok(1) sub unfolding data_ok_def by blast+
    have inj: "inj_on (\<lambda>p. i_data (inodes s' p)) (files s)" and sz: "\<forall>q \<in> files s. i_size (inodes s' q) \<le> MAX_FILE_SIZE"
      using ok(1) old(1,2) by (auto simp: data_ok_def inj_on_def)
    show ?thesis
    proof (cases "typ = FS_TYPE_FILE")
      case True
      then have t: "unat data \<notin> fst ` live 0x400000 bs" "\<exists>k \<ge> 65536. (unat data, k) \<in> live 0x400000 bs'" using ty by auto
      have "i_data (inodes s q) \<noteq> data" if "q \<in> files s" for q using old(4) [OF that] t(1) by (metis fst_conv image_eqI)
      then have "data \<notin> (\<lambda>p. i_data (inodes s' p)) ` (files s - {p})" using old(1) by auto
      then have "inj_on (\<lambda>p. i_data (inodes s' p)) (insert p (files s))" using inj pn(4) by simp
      then show ?thesis using True t(2) sz old(1,3) by (auto simp: data_ok_def ns(3) pn)
    next
      case False
      then show ?thesis using inj sz old(1,3) by (auto simp: data_ok_def ns(3) pn)
    qed
  qed
  moreover have num: "i_num (inodes s' q) = i_num (inodes s q)" "i_num (inodes s q) < next_inode s" if "q \<in> nodes s" for q
    using f(7) [OF np [OF that]] that ok(2) by (auto simp: nums_ok_def)
  have "nums_ok s'"
  proof -
    have "inj_on (\<lambda>p. i_num (inodes s' p)) (nodes s)" using ok(2) num(1) by (auto simp: nums_ok_def inj_on_def)
    moreover have "next_inode s \<notin> (\<lambda>p. i_num (inodes s' p)) ` (nodes s - {p})" using num by force
    ultimately show ?thesis using num next_inode_less [OF n] by (simp add: nums_ok_def ns(1) pn nx)
  qed
  moreover have "fds_ok s'"
  proof -
    have "fd_fits s' g" if g: "fd_fits s g" for g
    proof -
      have lt: "fd_inode g < next_inode s" using g by (simp add: fd_fits_def)
      have "q \<in> files s' \<and> fd_position g \<le> i_size (inodes s' q) \<and> fd_size g \<le> i_size (inodes s' q)"
        if q: "q \<in> nodes s" "i_num (inodes s q) = fd_inode g" for q
        using g q f(6) [OF np [OF q(1)]] by (auto simp: fd_fits_def ns(3))
      then show ?thesis using lt next_inode_less(1) [OF n] num(1) unfolding fd_fits_def ns(1) by (auto simp: pn nx)
    qed
    then show ?thesis using ok(3) by (auto simp: fds_ok_def nx)
  qed
  moreover have "nodes s' \<subseteq> dirs s' \<union> files s'" "current_dir s' \<in> dirs s'"
    using ok(5,6) ty unfolding ns nx pn(2) by auto
  ultimately show ?thesis using h tree_added [OF ok(4) a(1)] by (simp add: fs_inv_def)
qed

text \<open>Changing inodes that are not in use changes nothing.\<close>

lemma same_nodes_tree:
  assumes t: "tree s K" and n: "nodes s' = nodes s" "\<And>q. q \<in> nodes s \<Longrightarrow> inodes s' q = inodes s q"
    and a: "inodes_addr s' = inodes_addr s" "root_dir s' = root_dir s"
  shows "tree s' K" "dirs s' = dirs s" "files s' = files s"
proof -
  show ds: "dirs s' = dirs s" and "files s' = files s" using n by (auto simp: dirs_def files_def)
  have dn: "d \<in> nodes s" if "d \<in> dirs s" for d using that by (simp add: dirs_def)
  have "chain (\<lambda>p. i_next (inodes s' p)) (i_data (inodes s' d)) (K d) 0 \<and> distinct (K d) \<and>
        (\<forall>c \<in> set (K d). c \<in> nodes s \<and> i_parent (inodes s c) = d)" if d: "d \<in> dirs s" for d
  proof -
    have k: "\<forall>c \<in> set (K d). c \<in> nodes s \<and> i_parent (inodes s c) = d" using tree_child(1,2) [OF t d] by blast
    then have "chain (\<lambda>p. i_next (inodes s' p)) (i_data (inodes s d)) (K d) 0"
      using tree_dir(1) [OF t d] by (subst chain_cong [of _ _ "\<lambda>p. i_next (inodes s p)"]) (simp_all add: n(2))
    then show ?thesis using k tree_dir(2) [OF t d] n(2) dn [OF d] by simp
  qed
  moreover have "root_dir s \<in> dirs s" "i_parent (inodes s (root_dir s)) = 0" "inode_space s"
    using t by (simp_all add: tree_def)
  ultimately show "tree s' K"
    using tree_parent [OF t] a n dn unfolding tree_def ds n(1) by (simp add: inode_space_def)
qed

lemma same_nodes_inv:
  assumes inv: "fs_inv s K bs" and n: "nodes s' = nodes s" "\<And>q. q \<in> nodes s \<Longrightarrow> inodes s' q = inodes s q"
    and a: "inodes_addr s' = inodes_addr s" "root_dir s' = root_dir s" "current_dir s' = current_dir s"
    and fd: "file_descriptors s' = file_descriptors s" and x: "next_inode s \<le> next_inode s'"
    and h: "heap_rel s' bs'" "live 0x400000 bs \<subseteq> live 0x400000 bs'"
  shows "fs_inv s' K bs'"
proof -
  note i = inv [unfolded fs_inv_def]
  have t: "tree s' K" "dirs s' = dirs s" "files s' = files s"
    by (rule same_nodes_tree [of s K s'], use i n a in simp_all)+
  have f: "q \<in> nodes s" if "q \<in> files s" for q using that by (simp add: files_def)
  have "data_ok s' (live 0x400000 bs')"
    using i h(2) n(2) [OF f] unfolding data_ok_def t(3) by (auto simp: inj_on_def) blast
  moreover have "nums_ok s'" using i n(2) x unfolding nums_ok_def n(1) by (auto simp: inj_on_def)
  moreover have "fd_fits s' g" if "fd_fits s g" for g using that n(2) x unfolding fd_fits_def n(1) t(3) by auto
  then have "fds_ok s'" using i by (auto simp: fds_ok_def fd)
  ultimately show ?thesis using i t(1) h(1) unfolding fs_inv_def t(2,3) a(3) n(1) by simp
qed

lemma inode_ptr_fields [simp]:
  "inode_ptr (s\<lparr>next_inode := n\<rparr>) = inode_ptr s" "inode_ptr (s\<lparr>file_descriptors := fs\<rparr>) = inode_ptr s"
  "inode_ptr (s\<lparr>root_dir := d\<rparr>) = inode_ptr s" "inode_ptr (s\<lparr>current_dir := d\<rparr>) = inode_ptr s"
  "inode_ptr (s\<lparr>vmem := m\<rparr>) = inode_ptr s" "inode_ptr (s\<lparr>fs_initialized := b\<rparr>) = inode_ptr s"
  by (simp_all add: inode_ptr_def fun_eq_iff)

text \<open>The heap does not see the file system's own variables.\<close>

lemma heap_rel_fs_fields [simp]:
  "heap_rel (upd_inode p f s) bs = heap_rel s bs" "heap_rel (s\<lparr>next_inode := n\<rparr>) bs = heap_rel s bs"
  "heap_rel (s\<lparr>file_descriptors := fs\<rparr>) bs = heap_rel s bs" "heap_rel (s\<lparr>root_dir := d\<rparr>) bs = heap_rel s bs"
  "heap_rel (s\<lparr>current_dir := d\<rparr>) bs = heap_rel s bs" "heap_rel (s\<lparr>fs_initialized := b\<rparr>) bs = heap_rel s bs"
  by (simp_all add: heap_rel_def upd_inode_def paging_inv_def pmm_inv_def pmm_wf_def pmm_shape_def used_frames_def
      page_used_def tables_wf_def free_frames_def)

text \<open>Writing inside one allocation keeps the others.\<close>

lemma keeps_others:
  assumes rel: "heap_rel s bs" and l: "(q, n) \<in> live 0x400000 bs"
    and m: "\<And>x. x < 4294967296 \<Longrightarrow> x < q \<or> q + n \<le> x \<Longrightarrow> m' (word_of_nat x) = m (word_of_nat x)"
  shows "keeps (live 0x400000 bs - {(q, n)}) m m'"
proof -
  have "m' (word_of_nat (r + i)) = m (word_of_nat (r + i))"
    if r: "(r, k) \<in> live 0x400000 bs" "(r, k) \<noteq> (q, n)" and i: "i < k" for r k i
  proof -
    have "r + i < q \<or> q + n \<le> r + i" using live_disjoint [OF r(1) l] r(2) i by auto
    moreover have "r + i < 4294967296" using live_range [OF r(1)] heap_rel_limit [OF rel] i by linarith
    ultimately show ?thesis using m by blast
  qed
  then show ?thesis by (auto simp: keeps_def)
qed

lemma fill_bytes_outside:
  assumes "unat a + n \<le> 4294967296" and "unat x < unat a \<or> unat a + n \<le> unat x"
  shows "fill_bytes a v n m x = m x"
proof -
  have "unat (x - a) = (if unat a \<le> unat x then unat x - unat a else unat x + 4294967296 - unat a)"
    by (subst unat_sub_if_size) (simp add: word_size)
  then have "n \<le> unat (x - a)" using assms by auto
  then show ?thesis by (simp add: fill_bytes_def)
qed

lemma memset_zero: "memset a 0 n m = (a, fill_bytes a 0 (unat n) m)"
  using memset_fill [of 0 a n m] by simp

text \<open>Allocation of the data of a new file. It fails only when no free block is large enough.\<close>

lemma amalloc_address: "amalloc k a bs = Some (q, bs') \<Longrightarrow> a + 16 \<le> q"
  by (induction k a bs arbitrary: q bs' rule: amalloc.induct) (fastforce split: if_splits)+

lemma kmalloc_fits:
  assumes "heap_rel s bs" and "first_fit 65536 0x400000 bs \<noteq> None" and "kmalloc MAX_FILE_SIZE s = Some (p, s')"
  shows "p \<noteq> 0"
proof -
  have "align4 65536 = 65536" by (simp add: align4_def)
  then show ?thesis using kmalloc_refines [OF assms(1), of MAX_FILE_SIZE] assms(2,3)
    by (auto simp: allocated_def dest!: amalloc_address)
qed

lemma alloc_data_file:
  assumes h: "heap_rel s bs"
  obtains (fail) h' bs' where "fs_alloc_data p FS_TYPE_FILE s =
      Some (False, upd_inode p (\<lambda>n. n\<lparr>i_valid := False\<rparr>) (upd_inode p (\<lambda>n. n\<lparr>i_data := 0\<rparr>) h'))"
      "heap_state.more h' = heap_state.more s" "heap_rel h' bs'" "live 0x400000 bs' = live 0x400000 bs"
      "keeps (live 0x400000 bs) (vmem s) (vmem h')" "first_fit 65536 0x400000 bs = None"
  | (ok) h' bs' data m where "fs_alloc_data p FS_TYPE_FILE s = Some (True, upd_inode p (\<lambda>n. n\<lparr>i_data := data\<rparr>) h')"
      "fs_view h' = fs_view s" "heap_rel h' bs'" "65536 \<le> m"
      "live 0x400000 bs' = insert (unat data, m) (live 0x400000 bs)" "unat data \<notin> fst ` live 0x400000 bs"
      "keeps (live 0x400000 bs) (vmem s) (vmem h')"
proof -
  obtain data h1 b1 where k: "kmalloc MAX_FILE_SIZE s = Some (data, h1)" "heap_state.more h1 = heap_state.more s"
      "heap_rel h1 b1" "keeps (live 0x400000 bs) (vmem s) (vmem h1)"
    and res: "data = 0 \<and> live 0x400000 b1 = live 0x400000 bs \<or>
      (\<exists>m. 65536 \<le> m \<and> live 0x400000 b1 = insert (unat data, m) (live 0x400000 bs) \<and> unat data \<notin> fst ` live 0x400000 bs)"
    using kmalloc_result [OF h, of MAX_FILE_SIZE] by (auto simp: unat_eq_zero)
  show ?thesis
  proof (cases "data = 0")
    case True
    have "live 0x400000 b1 = live 0x400000 bs"
    proof (rule ccontr)
      assume "live 0x400000 b1 \<noteq> live 0x400000 bs"
      then obtain m where "(unat data, m) \<in> live 0x400000 b1" using res by blast
      then show False using live_range True by fastforce
    qed
    then show ?thesis using fail [of h1 b1] k True kmalloc_fits [OF h _ k(1)] by (auto simp: fs_alloc_data_def)
  next
    case False
    then obtain m where m: "65536 \<le> m" "live 0x400000 b1 = insert (unat data, m) (live 0x400000 bs)"
        "unat data \<notin> fst ` live 0x400000 bs" using res by blast
    define f where "f = fill_bytes data 0 65536 (vmem h1)"
    have l: "(unat data, m) \<in> live 0x400000 b1" using m(2) by simp
    have out: "f (word_of_nat x) = vmem h1 (word_of_nat x)"
      if "x < 4294967296" "x < unat data \<or> unat data + m \<le> x" for x
      unfolding f_def using that m(1) live_range [OF l] heap_rel_limit [OF k(3)]
      by (intro fill_bytes_outside) (auto simp: unat_u32_of_nat)
    have "live 0x400000 bs \<subseteq> live 0x400000 b1 - {(unat data, m)}" using m(2,3) by force
    then have "keeps (live 0x400000 bs) (vmem h1) f"
      using keeps_mono [OF keeps_others [OF k(3) l, of f "vmem h1"]] out by blast
    then have kp: "keeps (live 0x400000 bs) (vmem s) f" using keeps_trans [OF k(4)] by blast
    have "heap_rel (h1\<lparr>vmem := f\<rparr>) b1" using client_write [OF k(3) l, of f] out by blast
    moreover have "fs_alloc_data p FS_TYPE_FILE s = Some (True, upd_inode p (\<lambda>n. n\<lparr>i_data := data\<rparr>) (h1\<lparr>vmem := f\<rparr>))"
      using False k(1) by (simp add: fs_alloc_data_def memset_zero f_def upd_inode_def)
    ultimately show ?thesis using ok [of data "h1\<lparr>vmem := f\<rparr>" b1 m] m kp more_fs_view [OF k(2)] by simp
  qed
qed

lemma link_created:
  assumes "fs_view h = fs_view (upd_inode p (\<lambda>n. n\<lparr>i_valid := True, i_num := next_inode s, i_name := take 255 name,
      i_type := typ, i_size := 0, i_parent := d, i_next := 0\<rparr>) (s\<lparr>next_inode := next_inode s + 1\<rparr>))"
    and "i < MAX_INODES" "p = inode_ptr s i" "\<not> i_valid (inodes s p)" and d: "d \<in> dirs s" "d \<noteq> 0"
  shows "created s (fs_link_child p d (upd_inode p (\<lambda>n. n\<lparr>i_data := data\<rparr>) h)) p d name typ data"
proof -
  note v = fs_view_eqD [OF assms(1)]
  have pd: "p \<noteq> d" using assms(4) d by (auto simp: dirs_def nodes_def)
  have "i_type (inodes s d) = FS_TYPE_DIR" using d by (simp add: dirs_def)
  then show ?thesis using assms(2-4) pd d(2) v(1-7)
    by (auto simp: created_def fs_link_child_def Let_def fun_eq_iff)
qed

lemma fs_create_result:
  assumes inv: "fs_inv s K bs" and d: "d \<in> dirs s" and n: "next_inode s + 1 \<noteq> 0"
    and ty: "typ = FS_TYPE_FILE \<or> typ = FS_TYPE_DIR"
  obtains (fail) s' bs' where "fs_create_inode name typ d s = Some (0, s')" "fs_inv s' K bs'" "nodes s' = nodes s"
      "\<And>q. q \<in> nodes s \<Longrightarrow> inodes s' q = inodes s q" "keeps (live 0x400000 bs) (vmem s) (vmem s')"
      "file_descriptors s' = file_descriptors s" "current_dir s' = current_dir s" 
      "free_inode s = None \<or> typ = FS_TYPE_FILE \<and> first_fit 65536 0x400000 bs = None"
  | (ok) p s' data bs' where "fs_create_inode name typ d s = Some (p, s')" "created s s' p d name typ data" "p \<noteq> 0"
      "typ = FS_TYPE_DIR \<longrightarrow> data = 0" "fs_inv s' (K(d := p # K d, p := [])) bs'" "keeps (live 0x400000 bs) (vmem s) (vmem s')"
      "free_inode s \<noteq> None"
proof (cases "free_inode s")
  case None
  then show ?thesis using fail [of s bs] inv by (simp add: fs_create_inode_def)
next
  case (Some i)
  define p where "p = inode_ptr s i"
  let ?s = "upd_inode p (\<lambda>n. n\<lparr>i_valid := True, i_num := next_inode s, i_name := take 255 name,
      i_type := typ, i_size := 0, i_parent := d, i_next := 0\<rparr>) (s\<lparr>next_inode := next_inode s + 1\<rparr>)"
  have i: "i < MAX_INODES" "\<not> i_valid (inodes s p)" using Some for_find_SomeD by (auto simp: free_inode_def p_def)
  have h: "heap_rel s bs" and t: "inode_space s" "tree s K" using inv by (auto simp: fs_inv_def tree_def)
  have d0: "d \<noteq> 0" using nodes_nonzero [OF t(1)] d by (auto simp: dirs_def)
  have p0: "p \<noteq> 0" using inode_ptr_nonzero [OF t(1) i(1)] by (simp add: p_def)
  have c: "fs_create_inode name typ d s =
      map_option (\<lambda>(ok, s). if ok then (p, fs_link_child p d s) else (0, s)) (fs_alloc_data p typ ?s)"
    unfolding p_def using Some by (simp add: fs_create_inode_def Let_def)
  note cr = link_created [OF _ i(1) p_def i(2) d d0]
  show ?thesis
  proof (cases "typ = FS_TYPE_DIR")
    case True
    let ?s' = "fs_link_child p d (upd_inode p (\<lambda>n. n\<lparr>i_data := 0\<rparr>) ?s)"
    have cd: "created s ?s' p d name typ 0" by (rule cr) simp
    have "heap_rel ?s' bs" using h by (simp add: fs_link_child_def Let_def)
    then have "fs_inv ?s' (K(d := p # K d, p := [])) bs" using created_inv [OF inv d cd n, of bs] True by simp
    moreover have "fs_create_inode name typ d s = Some (p, ?s')" using c True by (simp add: fs_alloc_data_def)
    moreover have "vmem ?s' = vmem s" by (simp add: fs_link_child_def Let_def)
    ultimately show ?thesis using ok [of p ?s' 0 bs] cd p0 Some by simp
  next
    case False
    then have tf: "typ = FS_TYPE_FILE" using ty by simp
    have hs: "heap_rel ?s bs" using h by simp
    show ?thesis
    proof (cases rule: alloc_data_file [OF hs, of p])
      case fail: (1 h' bs')
      let ?s' = "upd_inode p (\<lambda>n. n\<lparr>i_valid := False\<rparr>) (upd_inode p (\<lambda>n. n\<lparr>i_data := 0\<rparr>) h')"
      note v = fs_view_eqD [OF more_fs_view [OF fail(2)]]
      have pn: "q \<noteq> p" if "q \<in> nodes s" for q using that i(2) by (auto simp: nodes_def)
      have ns: "nodes ?s' = nodes s" using i(2) v(1,2,8) by (auto simp: nodes_def)
      have kp: "inodes ?s' q = inodes s q" if "q \<in> nodes s" for q using pn [OF that] v(2) by simp
      have "fs_inv ?s' K bs'"
        by (rule same_nodes_inv [OF inv ns kp])
          (use v(1-7) fail(3,4) next_inode_less(2) [OF n] in \<open>simp_all add: less_imp_le\<close>)
      moreover have "fs_create_inode name typ d s = Some (0, ?s')" using c fail(1) tf by simp
      ultimately show ?thesis using that(1) [of ?s' bs'] ns kp fail(5,6) v(4,5) tf by simp
    next
      case ok: (2 h' bs' data m)
      let ?s' = "fs_link_child p d (upd_inode p (\<lambda>n. n\<lparr>i_data := data\<rparr>) h')"
      have cd: "created s ?s' p d name typ data" by (rule cr [OF ok(2)])
      have "heap_rel ?s' bs'" using ok(3) by (simp add: fs_link_child_def Let_def)
      then have "fs_inv ?s' (K(d := p # K d, p := [])) bs'"
        using created_inv [OF inv d cd n, of bs'] tf ok(4-6) by blast
      moreover have "fs_create_inode name typ d s = Some (p, ?s')" using c tf ok(1) by simp
      moreover have "vmem ?s' = vmem h'" by (simp add: fs_link_child_def Let_def)
      ultimately show ?thesis using that(2) [of p ?s' data bs'] cd p0 tf ok(7) Some by simp
    qed
  qed
qed

section \<open>Paths and directories\<close>

definition base_name :: "u8 list \<Rightarrow> u8 list" where
  "base_name path = rev (takeWhile (\<lambda>c. c \<noteq> SLASH) (rev path))"

lemma base_name_no_slash: "SLASH \<notin> set p \<Longrightarrow> base_name p = p"
  unfolding base_name_def by (subst takeWhile_eq_all_conv [THEN iffD2]) auto

lemma base_name_Cons: "base_name (c # p) = (if SLASH \<in> set p then base_name p else if c = SLASH then p else c # p)"
proof (cases "SLASH \<in> set p")
  case True
  then show ?thesis by (simp add: base_name_def takeWhile_append1 [of SLASH "rev p"])
next
  case False
  then have "takeWhile (\<lambda>c. c \<noteq> SLASH) (rev p @ [c]) = rev p @ takeWhile (\<lambda>c. c \<noteq> SLASH) [c]"
    by (intro takeWhile_append2) auto
  then show ?thesis using False by (simp add: base_name_def)
qed

lemma after_last_slash_base:
  "after_last_slash l p = (if SLASH \<in> set p then base_name p else l, [])"
  by (induction l p rule: after_last_slash.induct) (auto simp: base_name_Cons)

lemma after_last_slash_same: "after_last_slash p p = (base_name p, [])"
  by (simp add: after_last_slash_base base_name_no_slash)

lemma parent_or_root_node:
  assumes "tree s K" and "node \<in> nodes s"
  shows "parent_or_root s node \<in> dirs s"
  using assms tree_parent(1) [OF assms] by (auto simp: parent_or_root_def tree_def)

lemma find_in_dir_node:
  assumes t: "tree s K" and n: "node \<in> nodes s"
  obtains c where "fs_find_inode_in_dir s node name = Some c" "c = 0 \<or> c \<in> nodes s"
proof (cases "node \<in> dirs s")
  case True
  then show ?thesis
    using that find_in_dir [OF t True, of name] find_in_dir_found [OF t True, of name] tree_child(1) [OF t True] by metis
next
  case False
  then show ?thesis using that [of 0] n by (auto simp: fs_find_inode_in_dir_def dirs_def)
qed

text \<open>Resolving a path always ends, with an inode in use or 0.\<close>

lemma resolve_total:
  "tree s K \<Longrightarrow> node \<in> nodes s \<Longrightarrow> \<exists>q \<in> insert 0 (nodes s). resolve_loop s path node = Some q"
proof (induction s path node rule: resolve_loop.induct)
  case (1 s path node)
  show ?case
  proof (cases "dropWhile (\<lambda>c. c = SLASH) path")
    case Nil
    have "resolve_loop s path node = Some node" by (subst resolve_loop.simps) (simp only: Nil list.case)
    then show ?thesis using 1(5) by simp
  next
    case (Cons c p)
    obtain component rest where pc: "path_component 0 (c # p) = (component, rest)" by fastforce
    note ih = 1(1-3) [OF Cons pc [symmetric]]
    obtain x where x: "fs_find_inode_in_dir s node component = Some x" "x = 0 \<or> x \<in> nodes s"
      by (rule find_in_dir_node [OF 1(4,5)])
    have "parent_or_root s node \<in> nodes s" using parent_or_root_node [OF 1(4,5)] by (simp add: dirs_def)
    then show ?thesis using ih x 1(4,5) by (subst resolve_loop.simps) (auto simp: Cons pc simp del: path_component.simps)
  qed
qed

lemma fs_inv_current [simp]: "fs_inv s K bs \<Longrightarrow> fs_get_current_dir s = current_dir s"
  using nodes_nonzero by (auto simp: fs_inv_def fs_get_current_dir_def dirs_def tree_def)

lemma resolve_path_total:
  assumes inv: "fs_inv s K bs"
  obtains q where "fs_resolve_path path s = Some q" "q = 0 \<or> q \<in> nodes s"
proof -
  have t: "tree s K" and r: "root_dir s \<in> nodes s" "current_dir s \<in> nodes s" and i: "inode_space s"
    using inv by (auto simp: fs_inv_def tree_def dirs_def)
  have "\<exists>q. fs_resolve_path path s = Some q \<and> (q = 0 \<or> q \<in> nodes s)"
    using resolve_total [OF t r(1)] resolve_total [OF t r(2)] r parent_or_root_node [OF t r(2)] inv
    by (auto simp: fs_resolve_path_def Let_def dirs_def split: option.splits list.splits)
  then show ?thesis using that by blast
qed

lemma keeps_file:
  assumes inv: "fs_inv s K bs" and q: "q \<in> files s" and k: "keeps (live 0x400000 bs) (vmem s) (vmem s')"
    and f: "i_data (inodes s' q) = i_data (inodes s q)" "i_size (inodes s' q) = i_size (inodes s q)"
  shows "file_bytes s' q = file_bytes s q"
proof -
  obtain n where n: "65536 \<le> n" "(unat (i_data (inodes s q)), n) \<in> live 0x400000 bs" "unat (i_size (inodes s q)) \<le> 65536"
    by (rule fs_inv_file [OF inv q])
  then show ?thesis unfolding file_bytes_def f by (intro keeps_bytes [OF k n(2)]) linarith
qed

text \<open>What a new entry \<open>p\<close> named \<open>name\<close> in the directory \<open>d\<close> looks like; all that was there before is kept.\<close>

definition new_entry ::
  "'a fs_state_scheme \<Rightarrow> 'a fs_state_scheme \<Rightarrow> (u32 \<Rightarrow> u32 list) \<Rightarrow> (u32 \<Rightarrow> u32 list) \<Rightarrow> u32 \<Rightarrow> u32 \<Rightarrow> u8 list \<Rightarrow> u32 \<Rightarrow> bool" where
  "new_entry s s' K K' p d name typ \<longleftrightarrow> p \<notin> nodes s \<and> nodes s' = insert p (nodes s) \<and> K' = K(d := p # K d, p := []) \<and>
     root_dir s' = root_dir s \<and> current_dir s' = current_dir s \<and> i_type (inodes s' p) = typ \<and> i_name (inodes s' p) = name \<and> i_size (inodes s' p) = 0 \<and>
     fs_find_inode_in_dir s' d name = Some p \<and>
     (\<forall>q \<in> nodes s. i_name (inodes s' q) = i_name (inodes s q) \<and> i_type (inodes s' q) = i_type (inodes s q))"

lemma created_new_entry:
  assumes inv: "fs_inv s K bs" "fs_inv s' (K(d := p # K d, p := [])) bs'" and d: "d \<in> dirs s"
    and c: "created s s' p d name typ data" "typ = FS_TYPE_DIR \<longrightarrow> data = 0"
    and k: "keeps (live 0x400000 bs) (vmem s) (vmem s')"
  shows "new_entry s s' K (K(d := p # K d, p := [])) p d (take 255 name) typ"
    and "\<And>q. q \<in> files s \<Longrightarrow> file_bytes s' q = file_bytes s q"
proof -
  note a = created_added [OF c(1) d c(2)]
  note pn = created_node [OF c(1) a(2)] and ns = added_nodes [OF a(1)] and f = added_fields [OF a(1)]
  have ne: "q \<noteq> p" if "q \<in> nodes s" for q using that pn(6) by auto
  have "tree s' (K(d := p # K d, p := []))" "d \<in> dirs s'" using inv(2) d by (simp_all add: fs_inv_def ns)
  from find_in_dir [OF this, of "take 255 name"]
  show "new_entry s s' K (K(d := p # K d, p := [])) p d (take 255 name) typ"
    using a(2) pn f ns(1) ne c(1) by (simp add: new_entry_def) (simp add: created_def)
  fix q assume q: "q \<in> files s"
  then have "q \<noteq> p" "q \<noteq> d" using d ne by (auto simp: files_def dirs_def)
  then show "file_bytes s' q = file_bytes s q" using keeps_file [OF inv(1) q k] f by simp
qed

text \<open>Making a directory.\<close>

lemma fs_mkdir_result:
  assumes inv: "fs_inv s K bs" and n: "next_inode s + 1 \<noteq> 0"
  shows "\<exists>r s' K' bs'. fs_mkdir (Some path) s = Some (r, s') \<and> fs_inv s' K' bs' \<and>
    (\<forall>q \<in> files s. file_bytes s' q = file_bytes s q) \<and>
    (if fs_find_inode_in_dir s (current_dir s) (base_name path) \<noteq> Some 0 then r = - 1 \<and> s' = s
     else if free_inode s = None then r = - 1 \<and> nodes s' = nodes s \<and> K' = K
     else r = 0 \<and> (\<exists>p. new_entry s s' K K' p (current_dir s) (take 255 (base_name path)) FS_TYPE_DIR))"
proof -
  have t: "tree s K" and cd: "current_dir s \<in> dirs s" "current_dir s \<in> nodes s" using inv by (auto simp: fs_inv_def dirs_def)
  obtain c where c: "fs_find_inode_in_dir s (current_dir s) (base_name path) = Some c"
    by (rule find_in_dir_node [OF t cd(2), of "base_name path"])
  have m: "fs_mkdir (Some path) s = (if c \<noteq> 0 then Some (- 1, s)
      else map_option (\<lambda>(dir, s). (if dir \<noteq> 0 then 0 else - 1, s)) (fs_create_inode (base_name path) FS_TYPE_DIR (current_dir s) s))"
    using c inv by (simp add: fs_mkdir_def after_last_slash_same)
  show ?thesis
  proof (cases "c = 0")
    case False
    then show ?thesis using m c inv by auto
  next
    case True
    have ty: "FS_TYPE_DIR = FS_TYPE_FILE \<or> FS_TYPE_DIR = FS_TYPE_DIR" by simp
    show ?thesis
    proof (cases rule: fs_create_result [OF inv cd(1) n ty, of "base_name path"])
      case fail: (1 s' bs')
      have "file_bytes s' q = file_bytes s q" if "q \<in> files s" for q
        using keeps_file [OF inv that fail(5)] fail(4) [of q] that by (simp add: files_def)
      then show ?thesis using m True c fail(1-3,8) by auto
    next
      case ok: (2 p s' data bs')
      note e = created_new_entry [OF inv ok(5) cd(1) ok(2,4,6)]
      then have "new_entry s s' K (K(current_dir s := p # K (current_dir s), p := [])) p (current_dir s) (take 255 (base_name path)) FS_TYPE_DIR"
        by blast
      then show ?thesis using m True c ok(1,3,5,7) e(2) by auto
    qed
  qed
qed

section \<open>Descriptors\<close>

lemma find_inode_by_num_node:
  assumes inv: "fs_inv s K bs" and p: "p \<in> nodes s"
  shows "find_inode_by_num s (i_num (inodes s p)) = p"
proof -
  let ?P = "\<lambda>i. i_valid (inodes s (inode_ptr s i)) \<and> i_num (inodes s (inode_ptr s i)) = i_num (inodes s p)"
  obtain i where i: "i < MAX_INODES" "p = inode_ptr s i" "i_valid (inodes s p)" using p by (auto simp: nodes_def)
  then have "?P i" by simp
  then obtain j where j: "for_find ?P 0 MAX_INODES = Some j" using for_find_ex [of 0 i MAX_INODES ?P] i(1) by blast
  then have "j < MAX_INODES" "?P j" using for_find_SomeD [OF j] by blast+
  then have "inode_ptr s j \<in> nodes s" "i_num (inodes s (inode_ptr s j)) = i_num (inodes s p)" by (auto simp: nodes_def)
  then have "inode_ptr s j = p" using inv p by (auto simp: fs_inv_def nums_ok_def inj_on_def)
  then show ?thesis using j by (simp add: find_inode_by_num_def)
qed

lemma find_inode_by_num_none:
  assumes "\<And>p. p \<in> nodes s \<Longrightarrow> i_num (inodes s p) \<noteq> n"
  shows "find_inode_by_num s n = 0"
proof -
  have "for_find (\<lambda>i. i_valid (inodes s (inode_ptr s i)) \<and> i_num (inodes s (inode_ptr s i)) = n) 0 MAX_INODES = None"
    using assms by (auto simp: for_find_None nodes_def)
  then show ?thesis by (simp add: find_inode_by_num_def)
qed

lemma upd_fd_view [simp]:
  "nodes (upd_fd i f s) = nodes s" "dirs (upd_fd i f s) = dirs s" "files (upd_fd i f s) = files s"
  "inodes (upd_fd i f s) = inodes s" "tree (upd_fd i f s) = tree s" "vmem (upd_fd i f s) = vmem s"
  "current_dir (upd_fd i f s) = current_dir s" "root_dir (upd_fd i f s) = root_dir s" "next_inode (upd_fd i f s) = next_inode s"
  "data_ok (upd_fd i f s) = data_ok s" "nums_ok (upd_fd i f s) = nums_ok s" "fd_fits (upd_fd i f s) = fd_fits s"
  "heap_rel (upd_fd i f s) bs = heap_rel s bs" "file_bytes (upd_fd i f s) = file_bytes s"
  "file_descriptors (upd_fd i f s) = (file_descriptors s)[i := f (file_descriptors s ! i)]"
  by (simp_all add: upd_fd_def nodes_def dirs_def files_def tree_def inode_space_def data_ok_def nums_ok_def fd_fits_def
      file_bytes_def fun_eq_iff)

lemma upd_fd_inv:
  assumes "fs_inv s K bs" and "fd_valid (f (file_descriptors s ! i)) \<Longrightarrow> fd_fits s (f (file_descriptors s ! i))"
  shows "fs_inv (upd_fd i f s) K bs"
  using assms set_update_subset_insert [of "file_descriptors s" i "f (file_descriptors s ! i)"]
  by (auto simp: fs_inv_def fds_ok_def)

lemma find_in_dir_upd_fd:
  assumes "fs_inv s K bs" and "d \<in> dirs s"
  shows "fs_find_inode_in_dir (upd_fd i f s) d name = fs_find_inode_in_dir s d name"
  using assms by (simp add: fs_inv_def find_in_dir [of _ K])

lemma fd_fitsD:
  assumes "fs_inv s K bs" and "fd_ok fd s"
  shows "nat fd < length (file_descriptors s)" "fd_fits s (file_descriptors s ! nat fd)"
  using assms by (auto simp: fs_inv_def fds_ok_def fd_ok_def)

text \<open>The file that an open descriptor refers to, if it still exists.\<close>

lemma fd_file:
  assumes inv: "fs_inv s K bs" and fd: "fd_ok fd s"
  obtains (gone) "find_inode_by_num s (fd_inode (file_descriptors s ! nat fd)) = 0"
  | (found) p where "p \<in> files s" "p \<noteq> 0" "find_inode_by_num s (fd_inode (file_descriptors s ! nat fd)) = p"
      "i_num (inodes s p) = fd_inode (file_descriptors s ! nat fd)"
      "fd_position (file_descriptors s ! nat fd) \<le> i_size (inodes s p)" "fd_size (file_descriptors s ! nat fd) \<le> i_size (inodes s p)"
proof (cases "\<exists>p \<in> nodes s. i_num (inodes s p) = fd_inode (file_descriptors s ! nat fd)")
  case False
  then show ?thesis using gone find_inode_by_num_none by blast
next
  case True
  then obtain p where p: "p \<in> nodes s" "i_num (inodes s p) = fd_inode (file_descriptors s ! nat fd)" by blast
  moreover have "p \<noteq> 0" using nodes_nonzero p(1) inv by (auto simp: fs_inv_def tree_def)
  ultimately show ?thesis using found [of p] find_inode_by_num_node [OF inv p(1)] fd_fitsD(2) [OF inv fd] by (auto simp: fd_fits_def)
qed

section \<open>Opening\<close>

definition new_fd :: "'a fs_state_scheme \<Rightarrow> u32 \<Rightarrow> u32 \<Rightarrow> file_descriptor" where
  "new_fd s mode p = \<lparr>fd_inode = i_num (inodes s p),
     fd_position = (if mode AND FS_MODE_APPEND \<noteq> 0 then i_size (inodes s p) else 0),
     fd_mode = mode, fd_size = i_size (inodes s p), fd_valid = True\<rparr>"

lemma new_fd_fits:
  assumes inv: "fs_inv s K bs" and p: "p \<in> files s"
  shows "fd_fits s (new_fd s mode p)"
proof -
  have "q = p" if "q \<in> nodes s" "i_num (inodes s q) = i_num (inodes s p)" for q
    using that inv p by (auto simp: fs_inv_def nums_ok_def inj_on_def files_def)
  then show ?thesis using inv p by (auto simp: fd_fits_def new_fd_def fs_inv_def nums_ok_def files_def)
qed

lemma fs_open_node_result:
  assumes inv: "fs_inv s K bs" and p: "p \<in> nodes s"
  shows "fs_open_node p mode s = (if p \<in> files s then case free_fd s of None \<Rightarrow> (- 1, s)
      | Some i \<Rightarrow> (int i, upd_fd i (\<lambda>_. new_fd s mode p) s) else (- 1, s))"
    "free_fd s = Some i \<Longrightarrow> i < MAX_FILE_DESCRIPTORS \<and> \<not> fd_valid (file_descriptors s ! i)"
    "p \<in> files s \<Longrightarrow> fs_inv (upd_fd i (\<lambda>_. new_fd s mode p) s) K bs"
proof -
  have "p \<noteq> 0" using nodes_nonzero p inv by (auto simp: fs_inv_def tree_def)
  then show "fs_open_node p mode s = (if p \<in> files s then case free_fd s of None \<Rightarrow> (- 1, s)
      | Some i \<Rightarrow> (int i, upd_fd i (\<lambda>_. new_fd s mode p) s) else (- 1, s))"
    using p by (auto simp: fs_open_node_def files_def new_fd_def split: option.splits)
  show "free_fd s = Some i \<Longrightarrow> i < MAX_FILE_DESCRIPTORS \<and> \<not> fd_valid (file_descriptors s ! i)"
    using for_find_SomeD by (auto simp: free_fd_def)
  show "p \<in> files s \<Longrightarrow> fs_inv (upd_fd i (\<lambda>_. new_fd s mode p) s) K bs"
    by (rule upd_fd_inv [OF inv new_fd_fits [OF inv]])
qed

text \<open>Opening an existing file allocates the first free descriptor; opening for writing creates a file that
  does not exist in the current directory, whatever directory the path names.\<close>

lemma fs_open_result:
  assumes inv: "fs_inv s K bs" and n: "next_inode s + 1 \<noteq> 0" and i: "fs_initialized s"
    and r: "fs_resolve_path (Some path) s = Some node"
  shows "\<exists>r s' K' bs'. fs_open (Some path) mode s = Some (r, s') \<and> fs_inv s' K' bs' \<and>
    (\<forall>q \<in> files s. file_bytes s' q = file_bytes s q) \<and>
    (if node \<noteq> 0 \<or> mode AND FS_MODE_WRITE = 0
     then K' = K \<and> (if node \<in> files s \<and> free_fd s \<noteq> None
            then r = int (the (free_fd s)) \<and> s' = upd_fd (the (free_fd s)) (\<lambda>_. new_fd s mode node) s else r = - 1 \<and> s' = s)
     else r = - 1 \<and> file_descriptors s' = file_descriptors s \<and>
         (free_inode s = None \<or> free_fd s = None \<or> first_fit 65536 0x400000 bs = None) \<or>
       (\<exists>p. new_entry s s' K K' p (current_dir s) (take 255 (base_name path)) FS_TYPE_FILE \<and>
          free_fd s = Some (nat r) \<and> 0 \<le> r \<and> file_descriptors s' = (file_descriptors s)[nat r := new_fd s' mode p]))"
proof -
  have cd: "current_dir s \<in> dirs s" using inv by (simp add: fs_inv_def)
  have nd: "node = 0 \<or> node \<in> nodes s" using resolve_path_total [OF inv, of "Some path"] r by auto
  show ?thesis
  proof (cases "node \<noteq> 0 \<or> mode AND FS_MODE_WRITE = 0")
    case True
    then have o: "fs_open (Some path) mode s = Some (fs_open_node node mode s)" using i r by (auto simp: fs_open_def)
    show ?thesis
    proof (cases "node = 0")
      case True
      have "0 \<notin> files s" using nodes_nonzero inv by (auto simp: fs_inv_def tree_def files_def)
      then have "mode AND FS_MODE_WRITE = 0 \<Longrightarrow> ?thesis" using o True inv by (auto simp: fs_open_node_def)
      then show ?thesis using \<open>node \<noteq> 0 \<or> mode AND FS_MODE_WRITE = 0\<close> True by blast
    next
      case False
      then show ?thesis using o nd fs_open_node_result [OF inv, of node] inv by (cases "free_fd s") auto
    qed
  next
    case False
    have o: "fs_open (Some path) mode s = map_option (\<lambda>(node, s). if node = 0 then (- 1, s) else fs_open_node node mode s)
        (fs_create_inode (base_name path) FS_TYPE_FILE (current_dir s) s)"
      using False i r inv by (simp add: fs_open_def after_last_slash_same)
    have ty: "FS_TYPE_FILE = FS_TYPE_FILE \<or> FS_TYPE_FILE = FS_TYPE_DIR" by simp
    show ?thesis
    proof (cases rule: fs_create_result [OF inv cd n ty, of "base_name path"])
      case fail: (1 s' bs')
      have "file_bytes s' q = file_bytes s q" if "q \<in> files s" for q
        using keeps_file [OF inv that fail(5)] fail(4) [of q] that by (simp add: files_def)
      then show ?thesis using o False fail(1,2,6,8) by auto
    next
      case ok: (2 p s' data bs')
      let ?K = "K(current_dir s := p # K (current_dir s), p := [])"
      note e = created_new_entry [OF inv ok(5) cd ok(2,4,6)]
      have pf: "p \<in> files s'" "p \<in> nodes s'" using e(1) by (auto simp: new_entry_def files_def)
      have fe: "free_fd s' = free_fd s" "file_descriptors s' = file_descriptors s" using ok(2) by (auto simp: created_def free_fd_def)
      note on = fs_open_node_result [OF ok(5) pf(2)]
      show ?thesis
      proof (cases "free_fd s")
        case None
        then show ?thesis using o ok(1,3,5) False e on(1) fe by auto
      next
        case (Some i)
        let ?t = "upd_fd i (\<lambda>_. new_fd s' mode p) s'"
        have ft: "fs_find_inode_in_dir ?t (current_dir s) nm = fs_find_inode_in_dir s' (current_dir s) nm" for nm
          by (rule find_in_dir_upd_fd [OF ok(5)]) (use cd e(1) in \<open>auto simp: dirs_def new_entry_def\<close>)
        have "new_entry s ?t K ?K p (current_dir s) (take 255 (base_name path)) FS_TYPE_FILE"
          using e(1) by (auto simp: new_entry_def ft)
        moreover have "fs_open (Some path) mode s = Some (int i, ?t)" using o ok(1,3) on(1) pf Some fe by simp
        moreover have "new_fd ?t mode p = new_fd s' mode p" by (simp add: new_fd_def)
        ultimately show ?thesis using on(3) [OF pf(1), of i mode] e(2) False Some fe
          by (intro exI [of _ "int i"] exI [of _ ?t] exI [of _ ?K] exI [of _ bs']) auto
      qed
    qed
  qed
qed

section \<open>Closing and positioning\<close>

lemma fs_close_result:
  assumes "fs_inv s K bs" and "fd_ok fd s"
  shows "fst (fs_close fd s) = 0 \<and> fs_inv (snd (fs_close fd s)) K bs \<and> \<not> fd_ok fd (snd (fs_close fd s)) \<and>
    file_bytes (snd (fs_close fd s)) = file_bytes s"
  using assms upd_fd_inv [OF assms(1), of "\<lambda>f. f\<lparr>fd_valid := False\<rparr>" "nat fd"] fd_fitsD(1) [OF assms]
  by (simp add: fs_close_def) (simp add: fd_ok_def)

lemma fs_seek_result:
  assumes inv: "fs_inv s K bs" and fd: "fd_ok fd s" and w: "whence \<in> {0, 1, 2}"
  shows "\<exists>pos. fs_seek fd offset whence s = (sint pos, upd_fd (nat fd) (\<lambda>f. f\<lparr>fd_position := pos\<rparr>) s) \<and>
    pos \<le> fd_size (file_descriptors s ! nat fd) \<and> fs_inv (upd_fd (nat fd) (\<lambda>f. f\<lparr>fd_position := pos\<rparr>) s) K bs \<and>
    (whence = 0 \<longrightarrow> offset \<le> fd_size (file_descriptors s ! nat fd) \<longrightarrow> pos = offset)"
proof -
  let ?f = "file_descriptors s ! nat fd"
  define q where "q = (if whence = 0 then offset else if whence = 1 then fd_position ?f + offset else fd_size ?f + offset)"
  define pos where "pos = (if fd_size ?f < q then fd_size ?f else q)"
  have le: "pos \<le> fd_size ?f" by (auto simp: pos_def)
  have "fd_fits s (?f\<lparr>fd_position := pos\<rparr>)"
    using fd_fitsD(2) [OF inv fd] le unfolding fd_fits_def by (auto intro: order_trans)
  then have "fs_inv (upd_fd (nat fd) (\<lambda>f. f\<lparr>fd_position := pos\<rparr>) s) K bs" by (intro upd_fd_inv [OF inv])
  moreover have "fs_seek fd offset whence s = (sint pos, upd_fd (nat fd) (\<lambda>f. f\<lparr>fd_position := pos\<rparr>) s)"
    using fd w by (auto simp: fs_seek_def pos_def q_def Let_def)
  ultimately show ?thesis using le by (auto simp: pos_def q_def)
qed

section \<open>Reading and writing\<close>

text \<open>A buffer of the caller: outside the heap, or inside an allocation that is not the data of a file.\<close>

definition client_buffer :: "'a fs_state_scheme \<Rightarrow> blocks \<Rightarrow> u32 \<Rightarrow> nat \<Rightarrow> bool" where
  "client_buffer s bs a n \<longleftrightarrow> a \<noteq> 0 \<and> unat a + n \<le> 4294967296 \<and>
     (unat a + n \<le> 0x400000 \<or> 0x400000 + tot bs \<le> unat a \<or>
      (\<exists>(q, m) \<in> live 0x400000 bs. q \<le> unat a \<and> unat a + n \<le> q + m \<and> (\<forall>p \<in> files s. unat (i_data (inodes s p)) \<noteq> q)))"

lemma client_buffer_apart:
  assumes b: "client_buffer s bs a n" and p: "p \<in> files s" and l: "(unat (i_data (inodes s p)), k) \<in> live 0x400000 bs"
  shows "unat a + n \<le> unat (i_data (inodes s p)) \<or> unat (i_data (inodes s p)) + k \<le> unat a"
proof -
  have "unat a + n \<le> 0x400000 \<or> 0x400000 + tot bs \<le> unat a \<Longrightarrow> ?thesis" using live_range [OF l] by auto
  moreover have ?thesis if "(q, m) \<in> live 0x400000 bs" "q \<le> unat a" "unat a + n \<le> q + m" "unat (i_data (inodes s p)) \<noteq> q" for q m
    using live_disjoint [OF l that(1)] that by auto
  ultimately show ?thesis using b p by (auto simp: client_buffer_def)
qed

lemma heap_rel_outside:
  assumes rel: "heap_rel s bs" and a: "unat a + n \<le> 0x400000 \<or> 0x400000 + tot bs \<le> unat a"
    and m: "\<And>x. unat x < unat a \<or> unat a + n \<le> unat x \<Longrightarrow> m' x = vmem s x"
  shows "heap_rel (s\<lparr>vmem := m'\<rparr>) bs"
proof -
  have "hdr m' (word_of_nat h) = hdr (vmem s) (word_of_nat h)" if h: "h \<in> header_addrs 0x400000 bs" for h
  proof (rule hdr_cong)
    fix i :: nat assume i: "i < 16"
    have "h + i < 4294967296" "h + i < unat a \<or> unat a + n \<le> h + i"
      using header_addrs_range [OF h] heap_rel_limit [OF rel] a i by linarith+
    then have "m' (word_of_nat (h + i)) = vmem s (word_of_nat (h + i))" by (intro m) (simp add: unat_u32_of_nat del: of_nat_add)
    then show "m' (word_of_nat h + word_of_nat i) = vmem s (word_of_nat h + word_of_nat i)" by simp
  qed
  moreover have "rep (vmem s) False 0 0x400000 bs" using rel by (simp add: heap_rel_def)
  ultimately have "rep m' False 0 0x400000 bs" by (rule rep_cong [rotated])
  then show ?thesis using rel by (simp add: heap_rel_def)
qed

lemma vmem_inv:
  assumes "fs_inv s K bs" and "heap_rel (s\<lparr>vmem := m\<rparr>) bs"
  shows "fs_inv (s\<lparr>vmem := m\<rparr>) K bs"
  by (rule same_nodes_inv [OF assms(1)]) (use assms(2) in \<open>simp_all add: nodes_def\<close>)

lemma client_buffer_write:
  assumes inv: "fs_inv s K bs" and b: "client_buffer s bs a n"
    and m: "\<And>x. unat x < unat a \<or> unat a + n \<le> unat x \<Longrightarrow> m' x = vmem s x"
  shows "fs_inv (s\<lparr>vmem := m'\<rparr>) K bs" "p \<in> files s \<Longrightarrow> file_bytes (s\<lparr>vmem := m'\<rparr>) p = file_bytes s p"
proof -
  have h: "heap_rel s bs" using inv by (simp add: fs_inv_def)
  have "heap_rel (s\<lparr>vmem := m'\<rparr>) bs"
  proof (cases "unat a + n \<le> 0x400000 \<or> 0x400000 + tot bs \<le> unat a")
    case True
    then show ?thesis by (rule heap_rel_outside [OF h]) (rule m)
  next
    case False
    then obtain q k where q: "(q, k) \<in> live 0x400000 bs" "q \<le> unat a" "unat a + n \<le> q + k"
      using b by (auto simp: client_buffer_def)
    have "m' (word_of_nat x) = vmem s (word_of_nat x)" if "x < 4294967296" "x < q \<or> q + k \<le> x" for x
      using that q by (intro m) (auto simp: unat_u32_of_nat)
    then show ?thesis by (rule client_write [OF h q(1)])
  qed
  then show "fs_inv (s\<lparr>vmem := m'\<rparr>) K bs" by (rule vmem_inv [OF inv])
  assume p: "p \<in> files s"
  obtain k where k: "65536 \<le> k" "(unat (i_data (inodes s p)), k) \<in> live 0x400000 bs" "unat (i_size (inodes s p)) \<le> 65536"
    by (rule fs_inv_file [OF inv p])
  have "m' (i_data (inodes s p) + word_of_nat i) = vmem s (i_data (inodes s p) + word_of_nat i)"
    if "i < unat (i_size (inodes s p))" for i
  proof (rule m)
    have lim: "unat (i_data (inodes s p)) + i < 4294967296" using live_range [OF k(2)] heap_rel_limit [OF h] k that by linarith
    have "unat (i_data (inodes s p) + word_of_nat i) = unat (i_data (inodes s p)) + i"
      using lim by (subst unat_u32_add; subst unat_u32_of_nat) auto
    then show "unat (i_data (inodes s p) + word_of_nat i) < unat a \<or> unat a + n \<le> unat (i_data (inodes s p) + word_of_nat i)"
      using client_buffer_apart [OF b p k(2)] k that by linarith
  qed
  then show "file_bytes (s\<lparr>vmem := m'\<rparr>) p = file_bytes s p" by (simp add: file_bytes_def bytes_at_def)
qed

lemma take_drop_bytes:
  assumes "pos + n \<le> k"
  shows "take n (drop pos (bytes_at m a k)) = bytes_at m (a + word_of_nat pos) n"
  by (rule nth_equalityI) (use assms in \<open>auto simp: bytes_at_def add.assoc\<close>)

lemma sint_small:
  assumes "unat (x :: u32) \<le> 65536"
  shows "sint x = int (unat x)"
proof -
  have "uint x \<le> 65536" "0 \<le> uint x" using assms uint_nat [of x] by linarith+
  then have "signed_take_bit 31 (uint x) = uint x" by (intro signed_take_bit_int_eq_self) (auto intro: order_trans [of _ 0])
  then show ?thesis by (simp add: sint_uint)
qed

text \<open>The bytes of a file between two positions, as addresses.\<close>

lemma file_range:
  assumes inv: "fs_inv s K bs" and p: "p \<in> files s" and r: "unat pos + n \<le> 65536"
  obtains k where "65536 \<le> k" "(unat (i_data (inodes s p)), k) \<in> live 0x400000 bs"
    "unat (i_data (inodes s p) + pos) = unat (i_data (inodes s p)) + unat pos"
    "unat (i_data (inodes s p) + pos) + n \<le> unat (i_data (inodes s p)) + k"
    "unat (i_data (inodes s p) + pos) + n < 4294967296"
proof -
  obtain k where k: "65536 \<le> k" "(unat (i_data (inodes s p)), k) \<in> live 0x400000 bs"
    by (rule fs_inv_file [OF inv p])
  have "unat (i_data (inodes s p)) + k < 4294967296"
    using live_range [OF k(2)] heap_rel_limit [of s bs] inv by (simp add: fs_inv_def)
  then show ?thesis using that [OF k] k(1) r by (simp add: unat_u32_add)
qed

lemma file_buffer_apart:
  assumes inv: "fs_inv s K bs" and p: "p \<in> files s" and r: "unat pos + unat n \<le> 65536" and b: "client_buffer s bs buffer (unat n)"
  shows "apart buffer (i_data (inodes s p) + pos) n" "apart (i_data (inodes s p) + pos) buffer n"
proof -
  obtain k where k: "65536 \<le> k" "(unat (i_data (inodes s p)), k) \<in> live 0x400000 bs"
    "unat (i_data (inodes s p) + pos) = unat (i_data (inodes s p)) + unat pos"
    "unat (i_data (inodes s p) + pos) + unat n \<le> unat (i_data (inodes s p)) + k"
    "unat (i_data (inodes s p) + pos) + unat n < 4294967296"
    by (rule file_range [OF inv p r])
  moreover have "unat buffer + unat n \<le> 4294967296" using b by (simp add: client_buffer_def)
  ultimately show "apart buffer (i_data (inodes s p) + pos) n" "apart (i_data (inodes s p) + pos) buffer n"
    using client_buffer_apart [OF b p k(2)] by (auto simp: apart_def)
qed

lemma fd_file_eq:
  assumes "fs_inv s K bs" and "p \<in> files s" and "i_num (inodes s p) = n"
  shows "find_inode_by_num s n = p" "p \<noteq> 0" "i_type (inodes s p) = FS_TYPE_FILE"
  using assms find_inode_by_num_node [OF assms(1), of p] nodes_nonzero [of s p] by (auto simp: files_def fs_inv_def tree_def)

lemma bytes_at_copied:
  assumes "apart d a n"
  shows "bytes_at (snd (memcpy d a n m)) d (unat n) = bytes_at m a (unat n)"
  using cpy.copy_inside [OF assms] by (auto simp: bytes_at_def)

lemma fs_read_result:
  fixes s :: "'a fs_state_scheme"
  assumes inv: "fs_inv s K bs" and fd: "fd_ok fd s" and f: "f = file_descriptors s ! nat fd"
    and p: "p \<in> files s" "i_num (inodes s p) = fd_inode f" and md: "fd_mode f AND FS_MODE_READ \<noteq> 0"
    and n: "n = min (unat sz) (unat (i_size (inodes s p)) - unat (fd_position f))" and b: "client_buffer s bs buffer n"
  shows "\<exists>s'. fs_read fd buffer sz s = (int n, s') \<and> fs_inv s' K bs \<and> inodes s' = inodes s \<and>
    bytes_at (vmem s') buffer n = take n (drop (unat (fd_position f)) (file_bytes s p)) \<and>
    (\<forall>q \<in> files s. file_bytes s' q = file_bytes s q) \<and>
    file_descriptors s' = (file_descriptors s)[nat fd := f\<lparr>fd_position := fd_position f + word_of_nat n\<rparr>]"
proof -
  let ?d = "i_data (inodes s p)" and ?pos = "fd_position f" and ?size = "i_size (inodes s p)"
  note node = fd_file_eq [OF inv p]
  have ft: "fd_fits s f" using fd_fitsD(2) [OF inv fd] f by simp
  then have pos: "?pos \<le> ?size" "fd_size f \<le> ?size" using p by (auto simp: fd_fits_def files_def)
  have sz: "unat ?size \<le> 65536" by (rule fs_inv_file [OF inv p(1)])
  define w where "w = (if ?size - ?pos < sz then ?size - ?pos else sz)"
  have w: "unat w = n" using pos(1) by (auto simp: w_def n word_less_nat_alt unat_sub)
  then have wn: "w = word_of_nat n" by auto
  have len: "unat ?pos + unat w \<le> unat ?size" using w n pos(1) by (simp add: word_le_nat_alt)
  define m where "m = snd (memcpy buffer (?d + ?pos) w (vmem s))"
  let ?s = "upd_fd (nat fd) (\<lambda>f. f\<lparr>fd_position := fd_position f + w\<rparr>) (s\<lparr>vmem := m\<rparr>)"
  have ap: "apart buffer (?d + ?pos) w" using file_buffer_apart [OF inv p(1)] len sz b w by auto
  have out: "m x = vmem s x" if "unat x < unat buffer \<or> unat buffer + n \<le> unat x" for x
    unfolding m_def using cpy.copy_outside [OF ap] that w by simp
  note cb = client_buffer_write [OF inv b, of m] 
  have inv1: "fs_inv (s\<lparr>vmem := m\<rparr>) K bs" using cb(1) out by blast
  have same: "file_bytes (s\<lparr>vmem := m\<rparr>) q = file_bytes s q" if "q \<in> files s" for q using cb(2) [of q] out that by blast
  have ns: "nodes (s\<lparr>vmem := m\<rparr>) = nodes s" "files (s\<lparr>vmem := m\<rparr>) = files s" by (simp_all add: nodes_def files_def)
  have "unat (?pos + w) = unat ?pos + unat w" using len sz by (intro unat_u32_add) linarith
  then have "fd_fits s (f\<lparr>fd_position := ?pos + w\<rparr>)"
    using ft p len inv unfolding fd_fits_def fs_inv_def nums_ok_def inj_on_def by (auto simp: word_le_nat_alt files_def)
  then have "fs_inv ?s K bs" using f by (intro upd_fd_inv [OF inv1]) (simp add: fd_fits_def ns)
  moreover have "bytes_at m buffer n = take n (drop (unat ?pos) (file_bytes s p))"
    using bytes_at_copied [OF ap] len w unfolding m_def by (simp add: file_bytes_def take_drop_bytes)
  moreover have "fs_read fd buffer sz s = (int n, if n = 0 then s else ?s)"
  proof -
    have "buffer \<noteq> 0" using b by (simp add: client_buffer_def)
    then have "fs_read fd buffer sz s = (if w = 0 then (0, s) else (sint w, ?s))"
      using fd md node word_neq_0_conv [of sz]
      unfolding fs_read_def Let_def f [symmetric] w_def m_def by auto
    moreover have "sint w = int n" using sint_small [of w] w len sz by simp
    moreover have "w = 0 \<longleftrightarrow> n = 0" using w unat_eq_zero [of w] by simp
    ultimately show ?thesis by simp
  qed
  ultimately show ?thesis using same inv f wn fd_fitsD(1) [OF inv fd]
    by (cases "n = 0") (auto simp: bytes_at_def)
qed

text \<open>A file may grow.\<close>

lemma size_view:
  fixes p z and s :: "'a fs_state_scheme"
  defines "g \<equiv> upd_inode p (\<lambda>n. n\<lparr>i_size := z\<rparr>)"
  shows "i_next (inodes (g s) q) = i_next (inodes s q)" "i_data (inodes (g s) q) = i_data (inodes s q)"
    "i_parent (inodes (g s) q) = i_parent (inodes s q)" "i_num (inodes (g s) q) = i_num (inodes s q)"
    "nodes (g s) = nodes s" "dirs (g s) = dirs s" "files (g s) = files s"
    "i_size (inodes (g s) q) = (if q = p then z else i_size (inodes s q))"
proof -
  show ns: "nodes (g s) = nodes s" by (auto simp: g_def nodes_def)
  then show "dirs (g s) = dirs s" "files (g s) = files s" by (auto simp: g_def dirs_def files_def)
qed (simp_all add: g_def)

lemma size_inv:
  assumes inv: "fs_inv s K bs" and p: "p \<in> files s" and z: "i_size (inodes s p) \<le> z" "z \<le> MAX_FILE_SIZE"
  shows "fs_inv (upd_inode p (\<lambda>n. n\<lparr>i_size := z\<rparr>) s) K bs"
proof -
  let ?s = "upd_inode p (\<lambda>n. n\<lparr>i_size := z\<rparr>) s"
  note v = size_view [of p z s]
  have "tree ?s K" using inv unfolding fs_inv_def tree_def v by simp
  moreover have "data_ok ?s (live 0x400000 bs)" using inv z(2) unfolding fs_inv_def data_ok_def v by simp
  moreover have "nums_ok ?s" using inv unfolding fs_inv_def nums_ok_def v by simp
  moreover have "fd_fits ?s f" if "fd_fits s f" for f
    using that z(1) unfolding fd_fits_def v by (auto intro: order_trans)
  then have "fds_ok ?s" using inv by (auto simp: fs_inv_def fds_ok_def)
  ultimately show ?thesis using inv unfolding fs_inv_def v by simp
qed

lemma overwrite_bytes:
  assumes ap: "apart (d + pos) a n" and d: "unat d + k < 4294967296" "unat pos + unat n \<le> k"
  shows "bytes_at (snd (memcpy (d + pos) a n m)) d k =
    take (unat pos) (bytes_at m d k) @ bytes_at m a (unat n) @ drop (unat pos + unat n) (bytes_at m d k)"
proof (rule nth_equalityI)
  fix i assume i: "i < length (bytes_at (snd (memcpy (d + pos) a n m)) d k)"
  have ud: "unat (d + word_of_nat i) = unat d + i" "unat (d + pos) = unat d + unat pos"
    using i d by (subst unat_u32_add; simp add: unat_u32_of_nat)+
  show "bytes_at (snd (memcpy (d + pos) a n m)) d k ! i =
      (take (unat pos) (bytes_at m d k) @ bytes_at m a (unat n) @ drop (unat pos + unat n) (bytes_at m d k)) ! i"
  proof (cases "i < unat pos \<or> unat pos + unat n \<le> i")
    case True
    then have "snd (memcpy (d + pos) a n m) (d + word_of_nat i) = m (d + word_of_nat i)"
      using ud by (intro cpy.copy_outside [OF ap]) linarith
    then show ?thesis using i d True by (auto simp: bytes_at_def nth_append)
  next
    case False
    then obtain j where j: "i = unat pos + j" "j < unat n" by (metis le_Suc_ex not_less nat_add_left_cancel_less)
    then have "snd (memcpy (d + pos) a n m) (d + word_of_nat i) = m (a + word_of_nat j)"
      using cpy.copy_inside [OF ap j(2), of m] by (simp add: add.assoc)
    then show ?thesis using i d j by (auto simp: bytes_at_def nth_append)
  qed
qed (use d in auto)

lemma fs_write_result:
  fixes s :: "'a fs_state_scheme"
  assumes inv: "fs_inv s K bs" and fd: "fd_ok fd s" and f: "f = file_descriptors s ! nat fd"
    and p: "p \<in> files s" "i_num (inodes s p) = fd_inode f" and md: "fd_mode f AND FS_MODE_WRITE \<noteq> 0"
    and small: "unat sz \<le> 0xFFFEFFFF" and n: "n = min (unat sz) (65536 - unat (fd_position f))" and b: "client_buffer s bs buffer n"
  shows "\<exists>s'. fs_write fd buffer sz s = (int n, s') \<and> fs_inv s' K bs \<and>
    file_bytes s' p = take (unat (fd_position f)) (file_bytes s p) @ bytes_at (vmem s) buffer n @
      drop (unat (fd_position f) + n) (file_bytes s p) \<and>
    (\<forall>q \<in> files s. q \<noteq> p \<longrightarrow> file_bytes s' q = file_bytes s q) \<and> files s' = files s \<and>
    (\<forall>q. i_num (inodes s' q) = i_num (inodes s q) \<and> i_data (inodes s' q) = i_data (inodes s q)) \<and>
    bytes_at (vmem s') buffer n = bytes_at (vmem s) buffer n \<and>
    file_descriptors s' = (file_descriptors s)[nat fd := f\<lparr>fd_position := fd_position f + word_of_nat n,
      fd_size := if unat (i_size (inodes s p)) < unat (fd_position f) + n then fd_position f + word_of_nat n else fd_size f\<rparr>]"
proof -
  let ?d = "i_data (inodes s p)" and ?pos = "fd_position f" and ?size = "i_size (inodes s p)"
  note node = fd_file_eq [OF inv p]
  have ft: "fd_fits s f" using fd_fitsD(2) [OF inv fd] f by simp
  then have pos: "?pos \<le> ?size" "fd_size f \<le> ?size" using p by (auto simp: fd_fits_def files_def)
  obtain k where k: "65536 \<le> k" "(unat ?d, k) \<in> live 0x400000 bs" "unat ?size \<le> 65536" by (rule fs_inv_file [OF inv p(1)])
  have h: "heap_rel s bs" using inv by (simp add: fs_inv_def)
  have lim: "unat ?d + k < 4294967296" using live_range [OF k(2)] heap_rel_limit [OF h] by linarith
  have up: "unat ?pos \<le> unat ?size" using pos(1) by (simp add: word_le_nat_alt)
  define w where "w = (if MAX_FILE_SIZE < ?pos + sz then MAX_FILE_SIZE - ?pos else sz)"
  have ps: "unat (?pos + sz) = unat ?pos + unat sz" using small up k(3) by (intro unat_u32_add) linarith
  have "unat (MAX_FILE_SIZE - ?pos) = 65536 - unat ?pos" using up k(3) by (subst unat_sub) (auto simp: word_le_nat_alt)
  then have w: "unat w = n" using ps up k(3) by (auto simp: w_def n word_less_nat_alt)
  then have wn: "w = word_of_nat n" by auto
  have len: "unat ?pos + unat w \<le> 65536" using w n up k(3) by simp
  have pw: "unat (?pos + w) = unat ?pos + n" using len w by (subst unat_u32_add) auto
  define m where "m = snd (memcpy (?d + ?pos) buffer w (vmem s))"
  define z where "z = (if ?size < ?pos + w then ?pos + w else ?size)"
  define g where "g = f\<lparr>fd_position := ?pos + w, fd_size := if ?size < ?pos + w then ?pos + w else fd_size f\<rparr>"
  define s1 where "s1 = s\<lparr>vmem := m\<rparr>"
  define s2 where "s2 = upd_inode p (\<lambda>n. n\<lparr>i_size := z\<rparr>) s1"
  have ap: "apart (?d + ?pos) buffer w" "apart buffer (?d + ?pos) w" using file_buffer_apart [OF inv p(1)] len b w by auto
  have dp: "unat (?d + ?pos) = unat ?d + unat ?pos" using up k lim by (intro unat_u32_add) linarith
  have out: "m x = vmem s x" if "unat x < unat ?d + unat ?pos \<or> unat ?d + unat ?pos + n \<le> unat x" for x
    unfolding m_def using cpy.copy_outside [OF ap(1)] that w dp by simp
  have blk: "m (word_of_nat x) = vmem s (word_of_nat x)" if "x < 4294967296" "x < unat ?d \<or> unat ?d + k \<le> x" for x
    using that len w k(1) by (intro out) (auto simp: unat_u32_of_nat)
  have "heap_rel s1 bs" unfolding s1_def by (rule client_write [OF h k(2)]) (rule blk)
  then have inv1: "fs_inv s1 K bs" unfolding s1_def by (rule vmem_inv [OF inv])
  have v1: "nodes s1 = nodes s" "files s1 = files s" "inodes s1 = inodes s" "file_descriptors s1 = file_descriptors s"
    by (simp_all add: s1_def nodes_def files_def)
  have z: "?size \<le> z" "z \<le> MAX_FILE_SIZE" using pw len w k(3) by (auto simp: z_def word_le_nat_alt word_less_nat_alt)
  have inv2: "fs_inv s2 K bs" unfolding s2_def by (rule size_inv [OF inv1]) (use p z v1 in auto)
  note v2 = size_view [of p z s1, folded s2_def]
  have "fd_fits s2 g"
  proof -
    have "q = p" if "q \<in> nodes s" "i_num (inodes s q) = fd_inode f" for q
      using that p inv by (auto simp: fs_inv_def nums_ok_def inj_on_def files_def)
    moreover have "?pos + w \<le> z" "fd_size f \<le> z" using pos(2) by (auto simp: z_def intro: order_trans)
    ultimately show ?thesis using ft p unfolding fd_fits_def v2 v1 by (auto simp: g_def s2_def s1_def z_def)
  qed
  then have inv3: "fs_inv (upd_fd (nat fd) (\<lambda>_. g) s2) K bs" by (intro upd_fd_inv [OF inv2])
  have call: "fs_write fd buffer sz s = (int n, upd_fd (nat fd) (\<lambda>_. g) s2)"
  proof -
    have "buffer \<noteq> 0" using b by (simp add: client_buffer_def)
    moreover have "sint w = int n" using sint_small [of w] w len by simp
    moreover have "fs_write fd buffer sz s = (sint w, let s' = upd_fd (nat fd) (\<lambda>f. f\<lparr>fd_position := fd_position f + w\<rparr>) s1
        in if ?size < ?pos + w then upd_fd (nat fd) (\<lambda>f. f\<lparr>fd_size := ?pos + w\<rparr>) (upd_inode p (\<lambda>n. n\<lparr>i_size := ?pos + w\<rparr>) s')
           else s')" if "buffer \<noteq> 0"
      using that fd md node unfolding fs_write_def Let_def f [symmetric] s1_def m_def w_def by simp
    moreover have "nat fd < length (file_descriptors s)" by (rule fd_fitsD(1) [OF inv fd])
    then have "(let s' = upd_fd (nat fd) (\<lambda>f. f\<lparr>fd_position := fd_position f + w\<rparr>) s1
        in if ?size < ?pos + w then upd_fd (nat fd) (\<lambda>f. f\<lparr>fd_size := ?pos + w\<rparr>) (upd_inode p (\<lambda>n. n\<lparr>i_size := ?pos + w\<rparr>) s')
           else s') = upd_fd (nat fd) (\<lambda>_. g) s2"
      by (simp add: upd_fd_def upd_inode_def s1_def s2_def z_def g_def f Let_def)
    ultimately show ?thesis by simp
  qed
  have sb: "bytes_at m ?d (unat z) = take (unat ?pos) (file_bytes s p) @ bytes_at (vmem s) buffer n @ drop (unat ?pos + n) (file_bytes s p)"
  proof -
    have uz: "unat z = max (unat ?size) (unat ?pos + n)" using pw by (auto simp: z_def word_less_nat_alt)
    have "take (unat ?pos) (bytes_at (vmem s) ?d (unat z)) = take (unat ?pos) (file_bytes s p)"
      using take_drop_bytes [of 0 "unat ?pos"] up uz by (simp add: file_bytes_def)
    moreover have "drop (unat ?pos + n) (bytes_at (vmem s) ?d (unat z)) = drop (unat ?pos + n) (file_bytes s p)"
      unfolding uz file_bytes_def by (cases "unat ?pos + n \<le> unat ?size") (auto simp: max_def)
    moreover have "unat ?d + unat z < 4294967296" using z(2) k(1) lim by (simp add: word_le_nat_alt)
    ultimately show ?thesis using overwrite_bytes [OF ap(1), of "unat z" "vmem s"] uz w unfolding m_def by simp
  qed
  have "bytes_at m buffer n = bytes_at (vmem s) buffer n"
  proof (rule bytes_at_cong, rule out)
    fix i assume i: "i < n"
    have "unat (buffer + word_of_nat i) = unat buffer + i"
      using b i by (subst unat_u32_add; simp add: client_buffer_def unat_u32_of_nat)
    then show "unat (buffer + word_of_nat i) < unat ?d + unat ?pos \<or> unat ?d + unat ?pos + n \<le> unat (buffer + word_of_nat i)"
      using ap(1) i dp w by (auto simp: apart_def)
  qed
  moreover have "file_bytes s2 q = file_bytes s q" if q: "q \<in> files s" "q \<noteq> p" for q
  proof -
    have "keeps (live 0x400000 bs - {(unat ?d, k)}) (vmem s) m" by (rule keeps_others [OF h k(2)]) (rule blk)
    moreover obtain j where j: "65536 \<le> j" "(unat (i_data (inodes s q)), j) \<in> live 0x400000 bs" "unat (i_size (inodes s q)) \<le> 65536"
      by (rule fs_inv_file [OF inv q(1)])
    moreover have "i_data (inodes s q) \<noteq> ?d" using inv q p(1) by (auto simp: fs_inv_def data_ok_def inj_on_def)
    ultimately have "bytes_at m (i_data (inodes s q)) (unat (i_size (inodes s q))) =
        bytes_at (vmem s) (i_data (inodes s q)) (unat (i_size (inodes s q)))"
      by (intro keeps_bytes [of "live 0x400000 bs - {(unat ?d, k)}" _ _ _ j]) (auto simp: u32_eq_unat)
    then show ?thesis using q(2) by (simp add: file_bytes_def s2_def s1_def)
  qed
  moreover have "file_bytes s2 p = bytes_at m ?d (unat z)" by (simp add: file_bytes_def s2_def s1_def)
  moreover have "vmem s2 = m" "file_descriptors s2 = file_descriptors s"
    by (simp_all add: s2_def s1_def)
  ultimately show ?thesis using call inv3 sb v2(2,4,7) v1(3) v1(2) wn pw
    by (intro exI [of _ "upd_fd (nat fd) (\<lambda>_. g) s2"]) (auto simp: g_def word_less_nat_alt)
qed

text \<open>What was written can be read back: at the position of the write, through the same descriptor.\<close>

lemma fs_write_seek_read:
  fixes s :: "'a fs_state_scheme"
  assumes inv: "fs_inv s K bs" and fd: "fd_ok fd s" and f: "f = file_descriptors s ! nat fd"
    and p: "p \<in> files s" "i_num (inodes s p) = fd_inode f"
    and md: "fd_mode f AND FS_MODE_WRITE \<noteq> 0" "fd_mode f AND FS_MODE_READ \<noteq> 0"
    and small: "unat sz \<le> 0xFFFEFFFF" and n: "n = min (unat sz) (65536 - unat (fd_position f))"
    and sz: "fd_size f = i_size (inodes s p)"
    and b: "client_buffer s bs buffer n" "client_buffer s bs buffer' n"
  shows "\<exists>s1 s2 s3. fs_write fd buffer sz s = (int n, s1) \<and> fs_seek fd (fd_position f) 0 s1 = (sint (fd_position f), s2) \<and>
    fs_read fd buffer' (word_of_nat n) s2 = (int n, s3) \<and> fs_inv s3 K bs \<and>
    bytes_at (vmem s3) buffer' n = bytes_at (vmem s) buffer n"
proof -
  let ?pos = "fd_position f"
  obtain s1 where w: "fs_write fd buffer sz s = (int n, s1)" "fs_inv s1 K bs"
      "file_bytes s1 p = take (unat ?pos) (file_bytes s p) @ bytes_at (vmem s) buffer n @ drop (unat ?pos + n) (file_bytes s p)"
      "files s1 = files s" "\<forall>q. i_num (inodes s1 q) = i_num (inodes s q) \<and> i_data (inodes s1 q) = i_data (inodes s q)"
      "file_descriptors s1 = (file_descriptors s)[nat fd := f\<lparr>fd_position := ?pos + word_of_nat n,
        fd_size := if unat (i_size (inodes s p)) < unat ?pos + n then ?pos + word_of_nat n else fd_size f\<rparr>]"
    using fs_write_result [OF inv fd f p md(1) small n b(1)] by blast
  have len: "nat fd < length (file_descriptors s)" and ft: "fd_fits s f" using fd_fitsD [OF inv fd] f by simp_all
  have le: "?pos \<le> i_size (inodes s p)" using ft p by (auto simp: fd_fits_def files_def)
  have p64: "unat (i_size (inodes s p)) \<le> 65536" by (rule fs_inv_file [OF inv p(1)])
  have un: "unat (?pos + word_of_nat n) = unat ?pos + n" "unat (word_of_nat n :: u32) = n"
    using le p64 n by (auto simp: word_le_nat_alt unat_u32_of_nat intro!: unat_u32_add [THEN trans])
  let ?g = "file_descriptors s1 ! nat fd"
  have g: "?g = f\<lparr>fd_position := ?pos + word_of_nat n,
      fd_size := if unat (i_size (inodes s p)) < unat ?pos + n then ?pos + word_of_nat n else fd_size f\<rparr>"
    using w(6) len by simp
  have fd1: "fd_ok fd s1" using fd f g by (simp add: fd_ok_def)
  have "?pos \<le> fd_size ?g" using g sz le un(1) by (auto simp: word_le_nat_alt)
  then have "\<exists>s2. fs_seek fd ?pos 0 s1 = (sint ?pos, s2) \<and> s2 = upd_fd (nat fd) (\<lambda>f. f\<lparr>fd_position := ?pos\<rparr>) s1 \<and> fs_inv s2 K bs"
    using fs_seek_result [OF w(2) fd1, of 0 ?pos] by auto
  then obtain s2 where k: "fs_seek fd ?pos 0 s1 = (sint ?pos, s2)" "s2 = upd_fd (nat fd) (\<lambda>f. f\<lparr>fd_position := ?pos\<rparr>) s1" "fs_inv s2 K bs"
    by blast
  let ?h = "file_descriptors s2 ! nat fd"
  have h: "?h = ?g\<lparr>fd_position := ?pos\<rparr>" using k(2) w(6) len by simp
  have fd2: "fd_ok fd s2" using fd1 h by (simp add: fd_ok_def)
  have "length (file_bytes s1 p) = max (unat (i_size (inodes s p))) (unat ?pos + n)" using w(3) le by (auto simp: word_le_nat_alt)
  then have sz1: "unat (i_size (inodes s1 p)) = max (unat (i_size (inodes s p))) (unat ?pos + n)" by simp
  have m: "n = min (unat (word_of_nat n :: u32)) (unat (i_size (inodes s2 p)) - unat (fd_position ?h))"
    using sz1 un(2) h k(2) by auto
  have "client_buffer s2 bs buffer' n" using b(2) k(2) w(4,5) by (simp add: client_buffer_def)
  moreover have "p \<in> files s2" "i_num (inodes s2 p) = fd_inode ?h" "fd_mode ?h AND FS_MODE_READ \<noteq> 0"
    using p md(2) h g k(2) w(4,5) by simp_all
  ultimately obtain s3 where r: "fs_read fd buffer' (word_of_nat n) s2 = (int n, s3)" "fs_inv s3 K bs"
      "bytes_at (vmem s3) buffer' n = take n (drop (unat (fd_position ?h)) (file_bytes s2 p))"
    using fs_read_result [OF k(3) fd2 refl _ _ _ m] by blast
  have "take n (drop (unat ?pos) (file_bytes s2 p)) = bytes_at (vmem s) buffer n"
    using w(3) k(2) le by (simp add: word_le_nat_alt)
  then show ?thesis using w(1) k(1) r h by auto
qed

section \<open>Removing\<close>

lemma removed_inv:
  assumes inv: "fs_inv s K bs" and d: "d \<in> dirs s" and k: "K d = xs @ p # ys" and r: "removed s s' p d xs"
    and c: "current_dir s' = current_dir s" "current_dir s \<noteq> p" "file_descriptors s' = file_descriptors s" "next_inode s' = next_inode s"
    and h: "heap_rel s' bs'" "\<And>q n. (q, n) \<in> live 0x400000 bs \<Longrightarrow> p \<in> files s \<longrightarrow> q \<noteq> unat (i_data (inodes s p)) \<Longrightarrow> (q, n) \<in> live 0x400000 bs'"
  shows "fs_inv s' (K(d := xs @ ys)) bs'" "\<And>q. q \<in> files s' \<Longrightarrow> i_data (inodes s' q) = i_data (inodes s q) \<and> i_size (inodes s' q) = i_size (inodes s q)"
proof -
  note ns = removed_nodes [OF r]
  have t: "tree s K" using inv by (simp add: fs_inv_def)
  have f: "i_num (inodes s' q) = i_num (inodes s q)" "i_size (inodes s' q) = i_size (inodes s q)" if "q \<in> nodes s'" for q
    using r that ns(1) by (auto simp: removed_def)
  have fd: "i_data (inodes s' q) = i_data (inodes s q)" if "q \<in> files s'" for q
  proof -
    have "q \<in> files s" "q \<noteq> p" using that ns(3) by auto
    then have "q \<noteq> d" "q \<noteq> p" using d by (auto simp: files_def dirs_def)
    then show ?thesis using r by (simp add: removed_def)
  qed
  have fn: "q \<in> nodes s'" if "q \<in> files s'" for q using that by (simp add: files_def)
  show "i_data (inodes s' q) = i_data (inodes s q) \<and> i_size (inodes s' q) = i_size (inodes s q)" if "q \<in> files s'" for q
    using fd f(2) fn that by blast
  have "data_ok s' (live 0x400000 bs')"
  proof -
    have ok: "inj_on (\<lambda>p. i_data (inodes s p)) (files s)" using inv by (simp add: fs_inv_def data_ok_def)
    have "\<exists>n \<ge> 65536. (unat (i_data (inodes s q)), n) \<in> live 0x400000 bs'" if q: "q \<in> files s'" for q
    proof -
      have q': "q \<in> files s" "q \<noteq> p" using q ns(3) by auto
      obtain n where n: "65536 \<le> n" "(unat (i_data (inodes s q)), n) \<in> live 0x400000 bs" by (rule fs_inv_file [OF inv q'(1)])
      have "p \<in> files s \<longrightarrow> i_data (inodes s q) \<noteq> i_data (inodes s p)" using ok q' by (auto simp: inj_on_def)
      then show ?thesis using n h(2) [OF n(2)] by (auto simp: u32_eq_unat)
    qed
    moreover have "i_size (inodes s q) \<le> MAX_FILE_SIZE" if "q \<in> files s'" for q using that ns(3) inv by (auto simp: fs_inv_def data_ok_def)
    ultimately show ?thesis using ok ns(3) fd f(2) [OF fn] by (auto simp: data_ok_def inj_on_def)
  qed
  moreover have "nums_ok s'" using inv f(1) ns(1) c(4) by (auto simp: fs_inv_def nums_ok_def inj_on_def)
  moreover have "fd_fits s' g" if "fd_fits s g" for g
    using that f ns c(4) by (auto simp: fd_fits_def)
  then have "fds_ok s'" using inv c(3) by (auto simp: fs_inv_def fds_ok_def)
  ultimately show "fs_inv s' (K(d := xs @ ys)) bs'"
    using inv tree_removed [OF t r d k] h(1) c(1,2) ns by (auto simp: fs_inv_def)
qed

lemma kfree_view: "fs_view (kfree a s) = fs_view s" if "(unat a, n) \<in> live 0x400000 bs" "heap_rel s bs"
  using kfree_result [OF that(2,1)] by (blast intro: more_fs_view)

lemma fs_remove_step:
  assumes inv: "fs_inv s K bs" and r: "fs_resolve_path path s = Some p" and p: "p \<noteq> 0" "p \<noteq> root_dir s"
    and e: "p \<in> dirs s \<Longrightarrow> K p = []"
  obtains s' d xs ys bs' where "fs_remove path s = Some (0, s')" "p \<in> nodes s" "d = i_parent (inodes s p)" "d \<in> dirs s"
    "K d = xs @ p # ys" "removed s s' p d xs" "heap_rel s' bs'" "keeps (live 0x400000 bs) (vmem s) (vmem s')"
    "live 0x400000 bs' = live 0x400000 bs - (if p \<in> files s then {b. b \<in> live 0x400000 bs \<and> fst b = unat (i_data (inodes s p))} else {})"
    "current_dir s' = current_dir s" "file_descriptors s' = file_descriptors s" "next_inode s' = next_inode s"
proof -
  have t: "tree s K" and h: "heap_rel s bs" using inv by (auto simp: fs_inv_def)
  have pn: "p \<in> nodes s" using resolve_path_total [OF inv, of path] r p(1) by auto
  have ed: "i_data (inodes s p) = 0" if "i_type (inodes s p) = FS_TYPE_DIR"
  proof -
    have "p \<in> dirs s" using that pn by (simp add: dirs_def)
    then show ?thesis using tree_dir(1) [OF t, of p] e by simp
  qed
  obtain d xs ys q g where u: "d = i_parent (inodes s p)" "d \<in> dirs s" "K d = xs @ p # ys" "p \<noteq> d" "q \<noteq> p"
      "fs_unlink p s = Some (upd_inode q g s)" "removed s (upd_inode p (\<lambda>n. n\<lparr>i_valid := False\<rparr>) (upd_inode q g s)) p d xs"
    using unlink_result [OF t pn p(2)] ed by metis
  let ?s = "upd_inode q g s" and ?D = "i_data (inodes s p)"
  have hs: "heap_rel ?s bs" using h by simp
  have ty: "p \<in> files s \<longleftrightarrow> i_type (inodes s p) = FS_TYPE_FILE" using pn by (simp add: files_def)
  have "\<exists>s2 bs'. (if i_type (inodes ?s p) = FS_TYPE_FILE \<and> i_data (inodes ?s p) \<noteq> 0 then kfree ?D ?s else ?s) = s2 \<and>
      heap_rel s2 bs' \<and> fs_view s2 = fs_view ?s \<and> keeps (live 0x400000 bs) (vmem s) (vmem s2) \<and>
      live 0x400000 bs' = live 0x400000 bs - (if p \<in> files s then {b. b \<in> live 0x400000 bs \<and> fst b = unat ?D} else {})"
  proof (cases "p \<in> files s")
    case True
    obtain n where n: "65536 \<le> n" "(unat ?D, n) \<in> live 0x400000 bs" by (rule fs_inv_file [OF inv True])
    have "?D \<noteq> 0" using live_range [OF n(2)] by auto
    moreover have "{b. b \<in> live 0x400000 bs \<and> fst b = unat ?D} = {(unat ?D, n)}" using live_unique n(2) by fastforce
    moreover have "fs_view (kfree ?D ?s) = fs_view ?s" by (rule kfree_view [OF n(2) hs])
    ultimately show ?thesis using kfree_result [OF hs n(2)] True ty u(5) by auto
  qed (use hs ty u(5) in auto)
  then obtain s2 bs' where s2: "(if i_type (inodes ?s p) = FS_TYPE_FILE \<and> i_data (inodes ?s p) \<noteq> 0 then kfree ?D ?s else ?s) = s2"
      "heap_rel s2 bs'" "fs_view s2 = fs_view ?s" "keeps (live 0x400000 bs) (vmem s) (vmem s2)"
      "live 0x400000 bs' = live 0x400000 bs - (if p \<in> files s then {b. b \<in> live 0x400000 bs \<and> fst b = unat ?D} else {})"
    by blast
  let ?t = "upd_inode p (\<lambda>n. n\<lparr>i_valid := False\<rparr>) s2"
  note v = fs_view_eqD [OF s2(3)]
  have rm: "removed s ?t p d xs" using u(7) v(1-3) by (simp add: removed_def)
  have "fs_remove path s = Some (0, ?t)"
    using r p u(5,6) ed s2(1) [symmetric] by (simp add: fs_remove_def)
  then show ?thesis using that [of ?t d xs ys bs'] pn u(1-3) rm s2(2,4,5) v(4,5,7) by simp
qed

lemma fs_remove_result:
  assumes inv: "fs_inv s K bs" and r: "fs_resolve_path path s = Some p"
    and p: "p \<noteq> 0" "p \<noteq> root_dir s" "p \<noteq> current_dir s"
    and e: "p \<in> dirs s \<Longrightarrow> K p = []"
  shows "\<exists>s' xs ys bs'. fs_remove path s = Some (0, s') \<and> K (i_parent (inodes s p)) = xs @ p # ys \<and>
    fs_inv s' (K(i_parent (inodes s p) := xs @ ys)) bs' \<and> nodes s' = nodes s - {p} \<and>
    live 0x400000 bs' = live 0x400000 bs - (if p \<in> files s then {b. b \<in> live 0x400000 bs \<and> fst b = unat (i_data (inodes s p))} else {}) \<and>
    (\<forall>q \<in> files s. q \<noteq> p \<longrightarrow> file_bytes s' q = file_bytes s q) \<and> find_inode_by_num s' (i_num (inodes s p)) = 0"
proof -
  obtain s' d xs ys bs' where u: "fs_remove path s = Some (0, s')" "p \<in> nodes s" "d = i_parent (inodes s p)" "d \<in> dirs s"
      "K d = xs @ p # ys" and rm: "removed s s' p d xs" and h: "heap_rel s' bs'" "keeps (live 0x400000 bs) (vmem s) (vmem s')"
      "live 0x400000 bs' = live 0x400000 bs - (if p \<in> files s then {b. b \<in> live 0x400000 bs \<and> fst b = unat (i_data (inodes s p))} else {})"
    and v: "current_dir s' = current_dir s" "file_descriptors s' = file_descriptors s" "next_inode s' = next_inode s"
    by (rule fs_remove_step [OF inv r p(1,2) e])
  have "(a, n) \<in> live 0x400000 bs'" if "(a, n) \<in> live 0x400000 bs" "p \<in> files s \<longrightarrow> a \<noteq> unat (i_data (inodes s p))" for a n
    using that h(3) by auto
  then have inv': "fs_inv s' (K(d := xs @ ys)) bs'"
      "\<And>q. q \<in> files s' \<Longrightarrow> i_data (inodes s' q) = i_data (inodes s q) \<and> i_size (inodes s' q) = i_size (inodes s q)"
    using removed_inv [OF inv u(4,5) rm v(1) _ v(2,3) h(1)] p(3) by auto
  have "file_bytes s' f = file_bytes s f" if "f \<in> files s" "f \<noteq> p" for f
    using keeps_file [OF inv that(1) h(2)] inv'(2) [of f] removed_nodes(3) [OF rm] that by auto
  moreover have "find_inode_by_num s' (i_num (inodes s p)) = 0"
  proof (rule find_inode_by_num_none)
    fix f assume "f \<in> nodes s'"
    then have "f \<in> nodes s" "f \<noteq> p" using removed_nodes(1) [OF rm] by auto
    then show "i_num (inodes s' f) \<noteq> i_num (inodes s p)" using rm inv u(2) by (auto simp: removed_def fs_inv_def nums_ok_def inj_on_def)
  qed
  ultimately show ?thesis using inv'(1) u(1,3,5) removed_nodes(1) [OF rm] h(3) by blast
qed

end
