(* ===== verification/Disk.thy ===== *)
theory Disk
  imports Console
begin

text \<open>
  The disk driver: \<^verbatim>\<open>src/kernel/drivers/ata.c\<close>. It polls the controller through ports: status and commands
  with byte accesses, data with accesses of 16 bits. Every wait is bounded by a counter. The
  controller is a parameter, one function for byte reads and one for word reads.
\<close>

section \<open>Model\<close>

abbreviation (input) ATA_PRIMARY_DATA :: u16 where "ATA_PRIMARY_DATA \<equiv> 0x1F0"
abbreviation (input) ATA_PRIMARY_SECTOR :: u16 where "ATA_PRIMARY_SECTOR \<equiv> 0x1F2"
abbreviation (input) ATA_PRIMARY_LBA_LOW :: u16 where "ATA_PRIMARY_LBA_LOW \<equiv> 0x1F3"
abbreviation (input) ATA_PRIMARY_LBA_MID :: u16 where "ATA_PRIMARY_LBA_MID \<equiv> 0x1F4"
abbreviation (input) ATA_PRIMARY_LBA_HIGH :: u16 where "ATA_PRIMARY_LBA_HIGH \<equiv> 0x1F5"
abbreviation (input) ATA_PRIMARY_DEVICE :: u16 where "ATA_PRIMARY_DEVICE \<equiv> 0x1F6"
abbreviation (input) ATA_PRIMARY_COMMAND :: u16 where "ATA_PRIMARY_COMMAND \<equiv> 0x1F7"
abbreviation (input) ATA_PRIMARY_STATUS :: u16 where "ATA_PRIMARY_STATUS \<equiv> 0x1F7"
abbreviation (input) ATA_CMD_READ_PIO :: u8 where "ATA_CMD_READ_PIO \<equiv> 0x20"
abbreviation (input) ATA_CMD_WRITE_PIO :: u8 where "ATA_CMD_WRITE_PIO \<equiv> 0x30"
abbreviation (input) ATA_CMD_IDENTIFY :: u8 where "ATA_CMD_IDENTIFY \<equiv> 0xEC"
abbreviation (input) ATA_STATUS_ERR :: u8 where "ATA_STATUS_ERR \<equiv> 0x01"
abbreviation (input) ATA_STATUS_DRQ :: u8 where "ATA_STATUS_DRQ \<equiv> 0x08"
abbreviation (input) ATA_STATUS_BSY :: u8 where "ATA_STATUS_BSY \<equiv> 0x80"

text \<open>The polling loops: \<open>timeout\<close> is the value of the counter before the read; \<open>again\<close> is the loop condition.\<close>

fun ata_poll :: "(u8 \<Rightarrow> bool) \<Rightarrow> device \<Rightarrow> nat \<Rightarrow> io \<Rightarrow> int \<times> io" where
  "ata_poll again dev 0 t = (- 1, t)"
| "ata_poll again dev (Suc timeout) t =
     (let (status, t) = inb dev ATA_PRIMARY_STATUS t
      in if timeout = 0 then (- 1, t)
         else if again status then ata_poll again dev timeout t else (0, t))"

definition ata_wait_ready :: "device \<Rightarrow> io \<Rightarrow> int \<times> io" where
  "ata_wait_ready dev t = ata_poll (\<lambda>status. status AND ATA_STATUS_BSY \<noteq> 0) dev 100000 t"

definition ata_wait_data :: "device \<Rightarrow> io \<Rightarrow> int \<times> io" where
  "ata_wait_data dev t =
     ata_poll (\<lambda>status. status AND ATA_STATUS_DRQ = 0 \<and> status AND ATA_STATUS_ERR = 0) dev 100000 t"

definition ata_init :: "device \<Rightarrow> 'a console_state_scheme \<Rightarrow> 'a console_state_scheme" where
  "ata_init dev s =
     (let t = outb ATA_PRIMARY_DEVICE 0xA0 (io_trace s);
          (dummy, t) = inb dev ATA_PRIMARY_STATUS t
      in vga_puts (str ''ATA driver initialized'' @ [NEWLINE]) (s\<lparr>io_trace := t\<rparr>))"

text \<open>Selecting the drive and sending count, address and command.\<close>

definition ata_command :: "u8 \<Rightarrow> u32 \<Rightarrow> u8 \<Rightarrow> io \<Rightarrow> io" where
  "ata_command cmd lba num_sectors t =
     (let device = 0xE0 OR (ucast (drop_bit 24 lba) AND 0x0F);
          t = outb ATA_PRIMARY_DEVICE device t;
          t = outb ATA_PRIMARY_SECTOR num_sectors t;
          t = outb ATA_PRIMARY_LBA_LOW (ucast (lba AND 0xFF)) t;
          t = outb ATA_PRIMARY_LBA_MID (ucast (drop_bit 8 lba AND 0xFF)) t;
          t = outb ATA_PRIMARY_LBA_HIGH (ucast (drop_bit 16 lba AND 0xFF)) t
      in outb ATA_PRIMARY_COMMAND cmd t)"

definition st16 :: "u32 \<Rightarrow> u16 \<Rightarrow> mem \<Rightarrow> mem" where
  "st16 a v m = m(a := ucast v, a + 1 := ucast (drop_bit 8 v))"

definition ld16 :: "mem \<Rightarrow> u32 \<Rightarrow> u16" where
  "ld16 m a = ucast (m a) OR push_bit 8 (ucast (m (a + 1)))"

text \<open>\<open>n\<close> words between the data port and memory.\<close>

fun ata_read_words :: "wdevice \<Rightarrow> nat \<Rightarrow> u32 \<Rightarrow> io \<times> mem \<Rightarrow> io \<times> mem" where
  "ata_read_words devw 0 buf tm = tm"
| "ata_read_words devw (Suc n) buf (t, m) =
     (let (v, t) = inw devw ATA_PRIMARY_DATA t in ata_read_words devw n (buf + 2) (t, st16 buf v m))"

fun ata_write_words :: "nat \<Rightarrow> u32 \<Rightarrow> mem \<Rightarrow> io \<Rightarrow> io" where
  "ata_write_words 0 buf m t = t"
| "ata_write_words (Suc n) buf m t = ata_write_words n (buf + 2) m (outw ATA_PRIMARY_DATA (ld16 m buf) t)"

text \<open>The loops over the sectors.\<close>

fun ata_read_loop :: "device \<Rightarrow> wdevice \<Rightarrow> nat \<Rightarrow> u32 \<Rightarrow> io \<times> mem \<Rightarrow> int \<times> io \<times> mem" where
  "ata_read_loop dev devw 0 buf tm = (0, tm)"
| "ata_read_loop dev devw (Suc n) buf (t, m) =
     (let (r, t) = ata_wait_data dev t
      in if r \<noteq> 0 then (- 1, t, m)
         else let (status, t) = inb dev ATA_PRIMARY_STATUS t
              in if status AND ATA_STATUS_ERR \<noteq> 0 then (- 1, t, m)
                 else ata_read_loop dev devw n (buf + 512) (ata_read_words devw 256 buf (t, m)))"

fun ata_write_loop :: "device \<Rightarrow> nat \<Rightarrow> u32 \<Rightarrow> mem \<Rightarrow> io \<Rightarrow> int \<times> io" where
  "ata_write_loop dev 0 buf m t = (0, t)"
| "ata_write_loop dev (Suc n) buf m t =
     (let (r, t) = ata_wait_data dev t
      in if r \<noteq> 0 then (- 1, t)
         else let (status, t) = inb dev ATA_PRIMARY_STATUS t
              in if status AND ATA_STATUS_ERR \<noteq> 0 then (- 1, t)
                 else let t = ata_write_words 256 buf m t;
                          t = outb ATA_PRIMARY_COMMAND 0xE7 t;
                          (r, t) = ata_wait_ready dev t
                      in if r \<noteq> 0 then (- 1, t) else ata_write_loop dev n (buf + 512) m t)"

definition ata_read_sectors ::
  "device \<Rightarrow> wdevice \<Rightarrow> u32 \<Rightarrow> u8 \<Rightarrow> u32 \<Rightarrow> 'a timer_state_scheme \<Rightarrow> int \<times> 'a timer_state_scheme" where
  "ata_read_sectors dev devw lba num_sectors buffer s =
     (if num_sectors = 0 then (- 1, s)
      else let (r, t) = ata_wait_ready dev (io_trace s)
           in if r \<noteq> 0 then (- 1, s\<lparr>io_trace := t\<rparr>)
              else let (r, t, m) = ata_read_loop dev devw (unat num_sectors) buffer
                         (ata_command ATA_CMD_READ_PIO lba num_sectors t, vmem s)
                   in (r, s\<lparr>io_trace := t, vmem := m\<rparr>))"

definition ata_write_sectors ::
  "device \<Rightarrow> u32 \<Rightarrow> u8 \<Rightarrow> u32 \<Rightarrow> 'a timer_state_scheme \<Rightarrow> int \<times> 'a timer_state_scheme" where
  "ata_write_sectors dev lba num_sectors buffer s =
     (if num_sectors = 0 then (- 1, s)
      else let (r, t) = ata_wait_ready dev (io_trace s)
           in if r \<noteq> 0 then (- 1, s\<lparr>io_trace := t\<rparr>)
              else let (r, t) = ata_write_loop dev (unat num_sectors) buffer (vmem s)
                         (ata_command ATA_CMD_WRITE_PIO lba num_sectors t)
                   in (r, s\<lparr>io_trace := t\<rparr>))"

definition ata_identify :: "device \<Rightarrow> wdevice \<Rightarrow> io \<Rightarrow> int \<times> io" where
  "ata_identify dev devw t =
     (let (status, t) = inb dev ATA_PRIMARY_STATUS t
      in if status = 0xFF \<or> status = 0x00 then (- 1, t)
         else let (r, t) = ata_wait_ready dev t
              in if r \<noteq> 0 then (- 1, t)
                 else let t = outb ATA_PRIMARY_DEVICE 0xA0 t;
                          t = outb ATA_PRIMARY_COMMAND ATA_CMD_IDENTIFY t;
                          (status, t) = inb dev ATA_PRIMARY_STATUS t
                      in if status = 0 then (- 1, t)
                         else let (r, t) = ata_wait_data dev t
                              in if r \<noteq> 0 then (- 1, t)
                                 else let (w, t) = inw devw ATA_PRIMARY_DATA t;
                                          (t, m) = ata_read_words devw 255 2 (t, \<lambda>_. 0)
                                      in if w = 0 then (- 1, t) else (0, t))"

end
