(* ===== verification/FSDisk.thy ===== *)
theory FSDisk
  imports FS Disk "HOL-Library.Monad_Syntax"
begin

text \<open>
  The file system on disk: the second part of \<^verbatim>\<open>src/kernel/fs/fs.c\<close>, saving to and loading from the disk of
  \<open>Disk\<close>, and the initialisation. The superblock is a local variable, whose address is the parameter
  \<open>sb\<close>; the inode table is a buffer from the heap. An on-disk inode has 280 bytes: the name at 0, then
  type, size, number, number of the parent, first sector and the valid flag from 256 on.
\<close>

section \<open>Helpers\<close>

abbreviation (input) FS_MAGIC :: u32 where "FS_MAGIC \<equiv> 0x464C4F57"
abbreviation (input) FS_SUPERBLOCK_LBA :: u32 where "FS_SUPERBLOCK_LBA \<equiv> 0"
abbreviation (input) FS_INODE_TABLE_LBA :: u32 where "FS_INODE_TABLE_LBA \<equiv> 1"
abbreviation (input) FS_DATA_BLOCKS_LBA :: u32 where "FS_DATA_BLOCKS_LBA \<equiv> 65"
abbreviation (input) FS_MAX_INODES_ON_DISK :: nat where "FS_MAX_INODES_ON_DISK \<equiv> 256"
abbreviation (input) ATA_SECTOR_SIZE :: u32 where "ATA_SECTOR_SIZE \<equiv> 512"
abbreviation (input) sizeof_disk_inode :: u32 where "sizeof_disk_inode \<equiv> 280"

definition fs_log :: "device \<Rightarrow> string \<Rightarrow> 'a timer_state_scheme \<Rightarrow> 'a timer_state_scheme option" where
  "fs_log dev msg s = map_option (\<lambda>t. s\<lparr>io_trace := t\<rparr>) (serial_puts dev (str msg @ [NEWLINE]) (io_trace s))"

record disk_inode =
  dn_name :: "u8 list"
  dn_type :: u32
  dn_size :: u32
  dn_num :: u32
  dn_parent :: u32
  dn_data_lba :: u32
  dn_valid :: u32

fun read_name :: "nat \<Rightarrow> mem \<Rightarrow> u32 \<Rightarrow> u8 list" where
  "read_name 0 m p = []"
| "read_name (Suc n) m p = (if m p = 0 then [] else m p # read_name n m (p + 1))"

definition ld_dnode :: "mem \<Rightarrow> u32 \<Rightarrow> disk_inode" where
  "ld_dnode m p = \<lparr>dn_name = read_name 255 m p, dn_type = ld32 m (p + 256), dn_size = ld32 m (p + 260),
     dn_num = ld32 m (p + 264), dn_parent = ld32 m (p + 268), dn_data_lba = ld32 m (p + 272),
     dn_valid = ld32 m (p + 276)\<rparr>"

definition collect_inodes :: "nat \<Rightarrow> 'a fs_state_scheme \<Rightarrow> u32 list" where
  "collect_inodes max_count s =
     take max_count (filter (\<lambda>p. i_valid (inodes s p)) (map (inode_ptr s) [0..<MAX_INODES]))"

definition sectors :: "u32 \<Rightarrow> u32" where
  "sectors n = (n + ATA_SECTOR_SIZE - 1) div ATA_SECTOR_SIZE"

section \<open>Saving\<close>

text \<open>One inode, to \<open>dnode\<close> in the table; the result is whether writing succeeded and the next free sector.\<close>

definition save_inode ::
  "device \<Rightarrow> u32 \<Rightarrow> u32 \<Rightarrow> u32 \<Rightarrow> 'a fs_state_scheme \<Rightarrow> bool \<times> u32 \<times> 'a fs_state_scheme" where
  "save_inode dev dnode node lba s =
     (let n = inodes s node;
          m = (pad_bytes dnode (i_name n) 255 (vmem s))(dnode + 255 := 0);
          m = st32 (dnode + 256) (i_type n) m;
          m = st32 (dnode + 260) (i_size n) m;
          m = st32 (dnode + 264) (i_num n) m;
          m = st32 (dnode + 276) 1 m;
          m = st32 (dnode + 268) (if i_parent n \<noteq> 0 then i_num (inodes s (i_parent n)) else 0) m
      in if i_type n = FS_TYPE_FILE \<and> i_data n \<noteq> 0 \<and> 0 < i_size n
         then let data_sectors = sectors (i_size n);
                  m = st32 (dnode + 272) lba m;
                  (r, s) = ata_write_sectors dev lba (ucast data_sectors) (i_data n) (s\<lparr>vmem := m\<rparr>)
              in if r \<noteq> 0 then (False, lba, s) else (True, lba + data_sectors, s)
         else (True, lba, s\<lparr>vmem := st32 (dnode + 272) 0 m\<rparr>))"

fun save_loop :: "device \<Rightarrow> u32 \<Rightarrow> u32 list \<Rightarrow> u32 \<Rightarrow> 'a fs_state_scheme \<Rightarrow> bool \<times> 'a fs_state_scheme" where
  "save_loop dev dnode [] lba s = (True, s)"
| "save_loop dev dnode (node # nodes) lba s =
     (let (ok, lba, s) = save_inode dev dnode node lba s
      in if ok then save_loop dev (dnode + sizeof_disk_inode) nodes lba s else (False, s))"

definition put_superblock :: "u32 \<Rightarrow> u32 \<Rightarrow> mem \<Rightarrow> mem" where
  "put_superblock sb inode_count m =
     (let m = snd (memset sb 0 512 m);
          m = st32 sb FS_MAGIC m;
          m = st32 (sb + 4) 1 m;
          m = st32 (sb + 8) inode_count m
      in st32 (sb + 12) FS_DATA_BLOCKS_LBA m)"

definition fs_save_table ::
  "device \<Rightarrow> u32 list \<Rightarrow> 'a fs_state_scheme \<Rightarrow> (int \<times> 'a fs_state_scheme) option" where
  "fs_save_table dev inode_list s =
     (let inode_sectors = sectors (word_of_nat (length inode_list) * sizeof_disk_inode)
      in do {
        (inode_buffer, s) \<leftarrow> kmalloc (inode_sectors * ATA_SECTOR_SIZE) s;
        if inode_buffer = 0
        then do { s \<leftarrow> fs_log dev ''fs_save: Out of memory'' s; Some (- 1, s) }
        else
          let s = s\<lparr>vmem := snd (memset inode_buffer 0 (inode_sectors * ATA_SECTOR_SIZE) (vmem s))\<rparr>;
              (ok, s) = save_loop dev inode_buffer inode_list FS_DATA_BLOCKS_LBA s
          in if \<not> ok
             then do { s \<leftarrow> fs_log dev ''fs_save: Failed to write file data'' s; Some (- 1, kfree inode_buffer s) }
             else
               let (r, s) = ata_write_sectors dev FS_INODE_TABLE_LBA (ucast inode_sectors) inode_buffer s
               in if r \<noteq> 0
                  then do { s \<leftarrow> fs_log dev ''fs_save: Failed to write inode table'' s; Some (- 1, kfree inode_buffer s) }
                  else do { s \<leftarrow> fs_log dev ''fs_save: Successfully saved filesystem'' (kfree inode_buffer s); Some (0, s) }
      })"

definition fs_save :: "device \<Rightarrow> u32 \<Rightarrow> 'a fs_state_scheme \<Rightarrow> (int \<times> 'a fs_state_scheme) option" where
  "fs_save dev sb s =
     (if \<not> fs_initialized s then Some (- 1, s)
      else do {
        s \<leftarrow> fs_log dev ''fs_save: Starting...'' s;
        let inode_list = collect_inodes FS_MAX_INODES_ON_DISK s;
        if inode_list = []
        then do { s \<leftarrow> fs_log dev ''fs_save: No inodes to save'' s; Some (- 1, s) }
        else
          let s = s\<lparr>vmem := put_superblock sb (word_of_nat (length inode_list)) (vmem s)\<rparr>;
              (r, s) = ata_write_sectors dev FS_SUPERBLOCK_LBA 1 sb s
          in if r \<noteq> 0
             then do { s \<leftarrow> fs_log dev ''fs_save: Failed to write superblock'' s; Some (- 1, s) }
             else fs_save_table dev inode_list s
      })"

section \<open>Loading\<close>

text \<open>The first pass creates an inode for each valid entry at \<open>p\<close> in the table; the result is the message of
  the failure, if any.\<close>

definition load_data ::
  "device \<Rightarrow> wdevice \<Rightarrow> u32 \<Rightarrow> u32 \<Rightarrow> 'a fs_state_scheme \<Rightarrow> (string option \<times> 'a fs_state_scheme) option" where
  "load_data dev devw node p s =
     map_option (\<lambda>(data, s).
       let s = upd_inode node (\<lambda>n. n\<lparr>i_data := data\<rparr>) s
       in if data = 0 then (Some ''fs_load: Out of memory for file data'', s)
          else let s = s\<lparr>vmem := snd (memset data 0 MAX_FILE_SIZE (vmem s))\<rparr>;
                   lba = dn_data_lba (ld_dnode (vmem s) p);
                   sz = i_size (inodes s node)
               in if 0 < lba \<and> 0 < sz
                  then let (r, s) = ata_read_sectors dev devw lba (ucast (sectors sz)) data s
                       in (if r \<noteq> 0 then Some ''fs_load: Failed to read file data'' else None, s)
                  else (None, s)) (kmalloc MAX_FILE_SIZE s)"

definition load_inode ::
  "device \<Rightarrow> wdevice \<Rightarrow> u32 \<Rightarrow> 'a fs_state_scheme \<Rightarrow> (string option \<times> 'a fs_state_scheme) option" where
  "load_inode dev devw p s =
     (let dnode = ld_dnode (vmem s) p
      in if dn_valid dnode = 0 then Some (None, s)
         else case free_inode s of None \<Rightarrow> Some (Some ''fs_load: Too many inodes'', s)
              | Some j \<Rightarrow>
                  let node = inode_ptr s j;
                      s = upd_inode node (\<lambda>n. n\<lparr>i_valid := True, i_num := dn_num dnode, i_name := dn_name dnode,
                            i_type := dn_type dnode, i_size := dn_size dnode, i_parent := 0, i_next := 0\<rparr>) s
                  in do {
                       (err, s) \<leftarrow> (if dn_type dnode = FS_TYPE_FILE then load_data dev devw node p s
                                    else Some (None, upd_inode node (\<lambda>n. n\<lparr>i_data := 0\<rparr>) s));
                       if err \<noteq> None then Some (err, s)
                       else if i_name (inodes s node) = [SLASH] \<and> i_type (inodes s node) = FS_TYPE_DIR
                       then Some (None, s\<lparr>root_dir := node, current_dir := node\<rparr>)
                       else Some (None, s)
                     })"

fun load_loop ::
  "device \<Rightarrow> wdevice \<Rightarrow> nat \<Rightarrow> u32 \<Rightarrow> 'a fs_state_scheme \<Rightarrow> (string option \<times> 'a fs_state_scheme) option" where
  "load_loop dev devw 0 p s = Some (None, s)"
| "load_loop dev devw (Suc n) p s =
     Option.bind (load_inode dev devw p s) (\<lambda>(err, s).
       if err \<noteq> None then Some (err, s) else load_loop dev devw n (p + sizeof_disk_inode) s)"

text \<open>The second pass links every inode into its parent.\<close>

definition link_inode :: "u32 \<Rightarrow> 'a fs_state_scheme \<Rightarrow> 'a fs_state_scheme" where
  "link_inode p s =
     (let dnode = ld_dnode (vmem s) p
      in if dn_valid dnode = 0 then s
         else let node = find_inode_by_num s (dn_num dnode)
              in if node = 0 then s
                 else let s = (if 0 < dn_parent dnode
                               then upd_inode node (\<lambda>n. n\<lparr>i_parent := find_inode_by_num s (dn_parent dnode)\<rparr>) s else s)
                      in fs_link_child node (i_parent (inodes s node)) s)"

fun link_loop :: "nat \<Rightarrow> u32 \<Rightarrow> 'a fs_state_scheme \<Rightarrow> 'a fs_state_scheme" where
  "link_loop 0 p s = s"
| "link_loop (Suc n) p s = link_loop n (p + sizeof_disk_inode) (link_inode p s)"

definition fs_load_table ::
  "device \<Rightarrow> wdevice \<Rightarrow> u32 \<Rightarrow> 'a fs_state_scheme \<Rightarrow> (int \<times> 'a fs_state_scheme) option" where
  "fs_load_table dev devw inode_count s =
     (let inode_sectors = sectors (inode_count * sizeof_disk_inode)
      in do {
        (inode_buffer, s) \<leftarrow> kmalloc (inode_sectors * ATA_SECTOR_SIZE) s;
        if inode_buffer = 0
        then do { s \<leftarrow> fs_log dev ''fs_load: Out of memory'' s; Some (- 1, s) }
        else
          let (r, s) = ata_read_sectors dev devw FS_INODE_TABLE_LBA (ucast inode_sectors) inode_buffer s
          in if r \<noteq> 0
             then do { s \<leftarrow> fs_log dev ''fs_load: Failed to read inode table'' s; Some (- 1, kfree inode_buffer s) }
             else do {
               (err, s) \<leftarrow> load_loop dev devw (unat inode_count) inode_buffer s;
               case err of
                 Some msg \<Rightarrow> do { s \<leftarrow> fs_log dev msg s; Some (- 1, kfree inode_buffer s) }
               | None \<Rightarrow>
                   let s = link_loop (unat inode_count) inode_buffer s
                   in if root_dir s = 0
                      then do { s \<leftarrow> fs_log dev ''fs_load: Root directory not found'' s; Some (- 1, kfree inode_buffer s) }
                      else do {
                        s \<leftarrow> fs_log dev ''fs_load: Successfully loaded filesystem'' (kfree inode_buffer s);
                        Some (0, s)
                      }
             }
      })"

definition fs_load :: "device \<Rightarrow> wdevice \<Rightarrow> u32 \<Rightarrow> 'a fs_state_scheme \<Rightarrow> (int \<times> 'a fs_state_scheme) option" where
  "fs_load dev devw sb s =
     do {
       s \<leftarrow> fs_log dev ''fs_load: Starting...'' s;
       let (r, s) = ata_read_sectors dev devw FS_SUPERBLOCK_LBA 1 sb s
       in if r \<noteq> 0
          then do { s \<leftarrow> fs_log dev ''fs_load: No disk or timeout (using in-memory FS)'' s; Some (- 1, s) }
          else if ld32 (vmem s) sb \<noteq> FS_MAGIC
          then do { s \<leftarrow> fs_log dev ''fs_load: Invalid magic number (no filesystem on disk)'' s; Some (- 1, s) }
          else if ld32 (vmem s) (sb + 8) = 0 \<or> word_of_nat FS_MAX_INODES_ON_DISK < ld32 (vmem s) (sb + 8)
          then do { s \<leftarrow> fs_log dev ''fs_load: Invalid inode count'' s; Some (- 1, s) }
          else fs_load_table dev devw (ld32 (vmem s) (sb + 8)) s
     }"

section \<open>Initialisation\<close>

definition fs_reset :: "'a fs_state_scheme \<Rightarrow> 'a fs_state_scheme" where
  "fs_reset s =
     (let s = s\<lparr>file_descriptors := map (\<lambda>f. f\<lparr>fd_valid := False\<rparr>) (file_descriptors s)\<rparr>
      in fold (\<lambda>i. upd_inode (inode_ptr s i) (\<lambda>n. n\<lparr>i_valid := False, i_data := 0, i_parent := 0, i_next := 0\<rparr>))
           [0..<MAX_INODES] s)"

definition fs_init :: "device \<Rightarrow> wdevice \<Rightarrow> u32 \<Rightarrow> 'a fs_state_scheme \<Rightarrow> (int \<times> 'a fs_state_scheme) option" where
  "fs_init dev devw sb s =
     (if fs_initialized s then Some (0, s)
      else do {
        s \<leftarrow> fs_log dev ''fs_init: Starting...'' s;
        (r, s) \<leftarrow> fs_load dev devw sb (fs_reset s);
        if r = 0
        then do {
          s \<leftarrow> fs_log dev ''fs_init: Loaded filesystem from disk'' s;
          Some (0, s\<lparr>fs_initialized := True\<rparr>)
        }
        else do {
          s \<leftarrow> fs_log dev ''fs_init: Creating new filesystem'' s;
          (root, s) \<leftarrow> fs_create_inode [SLASH] FS_TYPE_DIR 0 s;
          let s = s\<lparr>root_dir := root, current_dir := root\<rparr>;
          s \<leftarrow> fs_log dev ''fs_init: In-memory file system initialized'' s;
          let s = s\<lparr>fs_initialized := True\<rparr>;
          s \<leftarrow> fs_log dev ''fs_init: Done'' s;
          Some (0, s)
        }
      })"

end
