(* ===== verification/FileSystem.thy ===== *)
theory FileSystem
  imports FSSpec FSDisk
begin

text \<open>
  The properties of the file system as a whole: what a fresh start establishes, paths, directories, file
  contents, removal, and the disk format.
\<close>

section \<open>A machine without a disk\<close>

text \<open>The transmitter of the serial port is always ready; the status of the disk is always busy, as on a bus
  without a drive.\<close>

definition serial_ready :: "device \<Rightarrow> bool" where
  "serial_ready dev \<longleftrightarrow> (\<forall>t. dev t (serial_port + 5) AND SERIAL_TRANSMIT_EMPTY \<noteq> 0)"

definition no_disk :: "device \<Rightarrow> bool" where
  "no_disk dev \<longleftrightarrow> (\<forall>t. dev t ATA_PRIMARY_STATUS AND ATA_STATUS_BSY \<noteq> 0)"

lemma serial_putchar_ready: "serial_ready dev \<Longrightarrow> \<exists>t'. serial_putchar dev c t = Some t'"
  unfolding serial_putchar_def by (subst serial_wait_transmit.simps) (simp add: serial_ready_def inb_def)

lemma serial_puts_ready: "serial_ready dev \<Longrightarrow> \<exists>t'. serial_puts dev cs t = Some t'"
proof (induction cs arbitrary: t)
  case (Cons c cs)
  obtain t1 where t1: "serial_putchar dev CARRIAGE_RETURN t = Some t1" using serial_putchar_ready [OF Cons.prems] by blast
  obtain t2 where t2: "serial_putchar dev c t = Some t2" using serial_putchar_ready [OF Cons.prems] by blast
  obtain t3 where t3: "serial_putchar dev c t1 = Some t3" using serial_putchar_ready [OF Cons.prems] by blast
  show ?case using t1 t2 t3 Cons.IH [OF Cons.prems, of t2] Cons.IH [OF Cons.prems, of t3] by (cases "c = NEWLINE") simp_all
qed simp

lemma fs_log_ready:
  assumes "serial_ready dev"
  obtains t where "fs_log dev msg s = Some (s\<lparr>io_trace := t\<rparr>)"
proof -
  obtain t where "serial_puts dev (str msg @ [NEWLINE]) (io_trace s) = Some t" using serial_puts_ready [OF assms] by blast
  then show ?thesis using that [of t] by (simp add: fs_log_def)
qed

lemma ata_poll_busy: "(\<And>t. again (dev t ATA_PRIMARY_STATUS)) \<Longrightarrow> fst (ata_poll again dev n t) = - 1"
  by (induction again dev n t rule: ata_poll.induct) (auto simp: inb_def)

lemma no_disk_wait: "no_disk dev \<Longrightarrow> \<exists>t'. ata_wait_ready dev t = (- 1, t')"
  using ata_poll_busy [of "\<lambda>status. status AND ATA_STATUS_BSY \<noteq> 0" dev 100000 t]
  by (cases "ata_wait_ready dev t") (simp add: ata_wait_ready_def no_disk_def)

lemma fs_load_no_disk:
  assumes "serial_ready dev" and "no_disk dev"
  obtains t where "fs_load dev devw sb s = Some (- 1, s\<lparr>io_trace := t\<rparr>)"
proof -
  obtain t1 where t1: "fs_log dev ''fs_load: Starting...'' s = Some (s\<lparr>io_trace := t1\<rparr>)" by (rule fs_log_ready [OF assms(1)])
  obtain t2 where t2: "ata_wait_ready dev t1 = (- 1, t2)" using no_disk_wait [OF assms(2)] by blast
  obtain t3 where t3: "fs_log dev ''fs_load: No disk or timeout (using in-memory FS)'' (s\<lparr>io_trace := t2\<rparr>) =
      Some (s\<lparr>io_trace := t2\<rparr>\<lparr>io_trace := t3\<rparr>)" by (rule fs_log_ready [OF assms(1)])
  have "ata_read_sectors dev devw FS_SUPERBLOCK_LBA 1 sb (s\<lparr>io_trace := t1\<rparr>) = (- 1, s\<lparr>io_trace := t2\<rparr>)"
    by (simp add: ata_read_sectors_def t2)
  then show ?thesis using that [of t3] t1 t3 by (simp add: fs_load_def)
qed

lemma io_trace_view [simp]: "fs_view (s\<lparr>io_trace := t\<rparr>) = fs_view s" "heap_rel (s\<lparr>io_trace := t\<rparr>) bs = heap_rel s bs"
  by (simp_all add: fs_view_def heap_rel_def paging_inv_def pmm_inv_def pmm_wf_def pmm_shape_def used_frames_def
      page_used_def tables_wf_def free_frames_def)

lemma fs_reset_loop:
  fixes s :: "'a fs_state_scheme"
  defines "g \<equiv> \<lambda>n. n\<lparr>i_valid := False, i_data := 0, i_parent := 0, i_next := 0\<rparr>"
  shows "fold (\<lambda>i. upd_inode (P i) g) js s = s\<lparr>inodes := \<lambda>q. if q \<in> P ` set js then g (inodes s q) else inodes s q\<rparr>"
proof (induction js arbitrary: s)
  case (Cons j js)
  then show ?case by (auto simp: upd_inode_def g_def fun_eq_iff)
qed simp

lemma fs_reset_eq:
  "fs_reset s = s\<lparr>file_descriptors := map (\<lambda>f. f\<lparr>fd_valid := False\<rparr>) (file_descriptors s),
     inodes := \<lambda>q. if \<exists>i < MAX_INODES. q = inode_ptr s i
       then (inodes s q)\<lparr>i_valid := False, i_data := 0, i_parent := 0, i_next := 0\<rparr> else inodes s q\<rparr>"
  unfolding fs_reset_def Let_def fs_reset_loop by (simp add: image_iff Bex_def cong: if_cong)

lemma heap_rel_inodes [simp]: "heap_rel (s\<lparr>inodes := f\<rparr>) bs = heap_rel s bs"
  by (simp add: heap_rel_def paging_inv_def pmm_inv_def pmm_wf_def pmm_shape_def used_frames_def
      page_used_def tables_wf_def free_frames_def)

text \<open>The state after a start without a disk: an empty root directory.\<close>

lemma fs_create_root:
  assumes sp: "inode_space s" and n: "\<And>i. i < MAX_INODES \<Longrightarrow> \<not> i_valid (inodes s (inode_ptr s i))"
  shows "fs_create_inode [SLASH] FS_TYPE_DIR 0 s = Some (inode_ptr s 0, s\<lparr>next_inode := next_inode s + 1,
    inodes := (inodes s)(inode_ptr s 0 := \<lparr>i_name = [SLASH], i_type = FS_TYPE_DIR, i_size = 0, i_data = 0, i_valid = True,
      i_parent = 0, i_next = 0, i_num = next_inode s\<rparr>)\<rparr>)"
proof -
  have "free_inode s = Some 0" using n [of 0] by (simp add: free_inode_def for_find_Some)
  then show ?thesis
    by (cases "inodes s (inode_ptr s 0)")
      (simp add: fs_create_inode_def fs_alloc_data_def fs_link_child_def upd_inode_def Let_def fun_upd_def cong: if_cong)
qed

lemma fresh_inv:
  assumes h: "heap_rel s bs" and sp: "inode_space s" and r: "root_dir s = inode_ptr s 0" "current_dir s = root_dir s"
    and n: "\<And>i. i < MAX_INODES \<Longrightarrow> i_valid (inodes s (inode_ptr s i)) \<longleftrightarrow> i = 0"
    and root: "inodes s (root_dir s) = \<lparr>i_name = [SLASH], i_type = FS_TYPE_DIR, i_size = 0, i_data = 0, i_valid = True,
      i_parent = 0, i_next = 0, i_num = k\<rparr>" "k < next_inode s"
    and f: "length (file_descriptors s) = MAX_FILE_DESCRIPTORS" "\<And>f. f \<in> set (file_descriptors s) \<Longrightarrow> \<not> fd_valid f"
  shows "fs_inv s (\<lambda>_. []) bs" "nodes s = {root_dir s}"
proof -
  show ns: "nodes s = {root_dir s}" using n r(1) root(1) by (auto simp: nodes_def intro: exI [of _ 0])
  have d: "dirs s = {root_dir s}" "files s = {}" using root(1) by (auto simp: dirs_def files_def ns)
  show "fs_inv s (\<lambda>_. []) bs"
    using h sp r(2) root f by (simp add: fs_inv_def tree_def data_ok_def nums_ok_def fds_ok_def ns d)
qed

definition fs_only :: "'a fs_state_scheme \<Rightarrow> 'a fs_state_scheme \<Rightarrow> bool" where
  "fs_only s s' \<longleftrightarrow> s' = s\<lparr>io_trace := io_trace s', inodes := inodes s', root_dir := root_dir s', current_dir := current_dir s',
     file_descriptors := file_descriptors s', fs_initialized := fs_initialized s', next_inode := next_inode s'\<rparr>"

lemma fs_init_fresh:
  assumes dev: "serial_ready dev" "no_disk dev" and h: "heap_rel s bs" and sp: "inode_space s"
    and f: "length (file_descriptors s) = MAX_FILE_DESCRIPTORS" and n: "next_inode s + 1 \<noteq> 0" and i: "\<not> fs_initialized s"
  shows "\<exists>s'. fs_init dev devw sb s = Some (0, s') \<and> fs_inv s' (\<lambda>_. []) bs \<and> nodes s' = {root_dir s'} \<and>
    current_dir s' = root_dir s' \<and> fs_initialized s' \<and> next_inode s' = next_inode s + 1 \<and> vmem s' = vmem s \<and>
    (\<forall>f \<in> set (file_descriptors s'). \<not> fd_valid f) \<and> fs_only s s'"
proof -
  obtain t1 where t1: "fs_log dev ''fs_init: Starting...'' s = Some (s\<lparr>io_trace := t1\<rparr>)" by (rule fs_log_ready [OF dev(1)])
  define s1 where "s1 = fs_reset (s\<lparr>io_trace := t1\<rparr>)"
  obtain t2 where t2: "fs_load dev devw sb s1 = Some (- 1, s1\<lparr>io_trace := t2\<rparr>)" by (rule fs_load_no_disk [OF dev])
  define s2 where "s2 = s1\<lparr>io_trace := t2\<rparr>"
  obtain t3 where t3: "fs_log dev ''fs_init: Creating new filesystem'' s2 = Some (s2\<lparr>io_trace := t3\<rparr>)"
    by (rule fs_log_ready [OF dev(1)])
  define s3 where "s3 = s2\<lparr>io_trace := t3\<rparr>"
  have ptr: "inode_ptr s3 = inode_ptr s" by (simp add: s3_def s2_def s1_def fs_reset_eq inode_ptr_def fun_eq_iff)
  have v: "inodes_addr s3 = inodes_addr s" "next_inode s3 = next_inode s" "vmem s3 = vmem s"
      "file_descriptors s3 = map (\<lambda>f. f\<lparr>fd_valid := False\<rparr>) (file_descriptors s)"
      "inodes s3 = (\<lambda>q. if \<exists>i < MAX_INODES. q = inode_ptr s i
         then (inodes s q)\<lparr>i_valid := False, i_data := 0, i_parent := 0, i_next := 0\<rparr> else inodes s q)"
    by (simp_all add: s3_def s2_def s1_def fs_reset_eq inode_ptr_def cong: if_cong)
  have h3: "heap_rel s3 bs" unfolding s3_def s2_def s1_def fs_reset_eq using h by simp
  have c: "inode_space s3" "\<not> i_valid (inodes s3 (inode_ptr s3 i))" if "i < MAX_INODES" for i
    using sp that by (auto simp: v ptr inode_space_def)
  define s4 where "s4 = s3\<lparr>next_inode := next_inode s + 1,
    inodes := (inodes s3)(inode_ptr s 0 := \<lparr>i_name = [SLASH], i_type = FS_TYPE_DIR, i_size = 0, i_data = 0, i_valid = True,
      i_parent = 0, i_next = 0, i_num = next_inode s\<rparr>), root_dir := inode_ptr s 0, current_dir := inode_ptr s 0\<rparr>"
  obtain t4 where t4: "fs_log dev ''fs_init: In-memory file system initialized'' s4 = Some (s4\<lparr>io_trace := t4\<rparr>)"
    by (rule fs_log_ready [OF dev(1)])
  define s5 where "s5 = s4\<lparr>io_trace := t4, fs_initialized := True\<rparr>"
  obtain t5 where t5: "fs_log dev ''fs_init: Done'' s5 = Some (s5\<lparr>io_trace := t5\<rparr>)" by (rule fs_log_ready [OF dev(1)])
  define s6 where "s6 = s5\<lparr>io_trace := t5\<rparr>"
  have sp3: "inode_space s3" using sp by (simp add: v inode_space_def)
  obtain x where x: "fs_create_inode [SLASH] FS_TYPE_DIR 0 s3 = Some (inode_ptr s 0, x)"
      "x\<lparr>root_dir := inode_ptr s 0, current_dir := inode_ptr s 0\<rparr> = s4"
    using fs_create_root [OF sp3 c(2)] by (simp only: ptr v(2)) (simp add: s4_def)
  have ex: "fs_init dev devw sb s = Some (0, s6)"
    using i t1 t2 t3 t4 t5 x by (simp add: fs_init_def s1_def [symmetric] s2_def [symmetric] s3_def [symmetric]
      s5_def [symmetric] s6_def [symmetric])
  have w: "root_dir s6 = inode_ptr s 0" "current_dir s6 = inode_ptr s 0" "next_inode s6 = next_inode s + 1" "vmem s6 = vmem s"
      "fs_initialized s6" "file_descriptors s6 = file_descriptors s3" "inodes_addr s6 = inodes_addr s" "inode_ptr s6 = inode_ptr s"
      "inodes s6 = (inodes s3)(inode_ptr s 0 := \<lparr>i_name = [SLASH], i_type = FS_TYPE_DIR, i_size = 0, i_data = 0, i_valid = True,
        i_parent = 0, i_next = 0, i_num = next_inode s\<rparr>)"
    by (simp_all add: s6_def s5_def s4_def v inode_ptr_def fun_eq_iff)
  have h6: "heap_rel s6 bs" using h3 by (simp add: s6_def s5_def s4_def)
  have n6: "i_valid (inodes s6 (inode_ptr s6 i)) \<longleftrightarrow> i = 0" if "i < MAX_INODES" for i
    using c(2) [OF that] that inode_ptr_inj [OF sp that, of 0] by (simp add: w ptr)
  have "inode_space s6" using sp by (simp add: inode_space_def w)
  moreover have cl: "\<not> fd_valid f" if "f \<in> set (file_descriptors s6)" for f using that by (auto simp: w v)
  moreover have "length (file_descriptors s6) = MAX_FILE_DESCRIPTORS" using f by (simp add: w v)
  ultimately have "fs_inv s6 (\<lambda>_. []) bs \<and> nodes s6 = {root_dir s6}"
    using fresh_inv [OF h6, of "next_inode s"] n6 next_inode_less(2) [OF n] by (simp add: w)
  moreover have "fs_only s s6" by (simp add: fs_only_def s6_def s5_def s4_def s3_def s2_def s1_def fs_reset_eq)
  ultimately show ?thesis using ex w cl by auto
qed

section \<open>Disk format\<close>

lemma st32_below:
  assumes "i < 256" and "256 \<le> unat k" "unat k < 300"
  shows "st32 (a + k) v m (a + word_of_nat i) = m (a + word_of_nat i)"
proof (rule st32_other)
  have "unat (word_of_nat i - k :: u32) = i + 4294967296 - unat k"
    using assms by (subst unat_sub_if_size) (simp add: word_size unat_u32_of_nat)
  then show "4 \<le> unat (a + word_of_nat i - (a + k))" using assms by simp
qed

lemma read_name_eq:
  assumes "length t \<le> n" and "\<forall>i < n. m (p + word_of_nat i) = (if i < length t then t ! i else 0)" and "0 \<notin> set t"
  shows "read_name n m p = t"
  using assms
proof (induction n arbitrary: p t)
  case (Suc n)
  show ?case
  proof (cases t)
    case Nil
    then show ?thesis using Suc.prems(2) by auto
  next
    case (Cons c cs)
    have "m (p + 1 + word_of_nat i) = (if i < length cs then cs ! i else 0)" if "i < n" for i
      using Suc.prems(2) [rule_format, of "Suc i"] that Cons by (simp add: add.assoc)
    then have "read_name n m (p + 1) = cs" using Suc.IH [of cs "p + 1"] Suc.prems Cons by simp
    moreover have "m p = c" "c \<noteq> 0" using Suc.prems(2) [rule_format, of 0] Suc.prems(3) Cons by auto
    ultimately show ?thesis using Cons by simp
  qed
qed simp

text \<open>The entry of an inode in the table on disk.\<close>

definition dnode_of :: "'a fs_state_scheme \<Rightarrow> u32 \<Rightarrow> u32 \<Rightarrow> disk_inode" where
  "dnode_of s node lba = (let n = inodes s node in
     \<lparr>dn_name = i_name n, dn_type = i_type n, dn_size = i_size n, dn_num = i_num n,
      dn_parent = (if i_parent n \<noteq> 0 then i_num (inodes s (i_parent n)) else 0),
      dn_data_lba = (if i_type n = FS_TYPE_FILE \<and> i_data n \<noteq> 0 \<and> 0 < i_size n then lba else 0), dn_valid = 1\<rparr>)"

lemma ata_write_vmem: "vmem (snd (ata_write_sectors dev lba n b s)) = vmem s"
  by (simp add: ata_write_sectors_def split_beta)

lemma entry_bytes:
  assumes n: "length t \<le> 255" "0 \<notin> set t" and i: "i < 256"
  shows "((pad_bytes p t 255 m)(p + 255 := 0)) (p + word_of_nat i) = (if i < length t then t ! i else 0)"
proof -
  have "word_of_nat i = (255 :: u32) \<longleftrightarrow> i = 255" using i by (simp add: u32_eq_unat unat_u32_of_nat)
  moreover have "unat (word_of_nat i :: u32) = i" using i by (simp add: unat_u32_of_nat)
  ultimately show ?thesis using n i by (auto simp: pad_bytes_def)
qed

lemma save_inode_entry:
  assumes n: "length (i_name (inodes s node)) \<le> 255" "0 \<notin> set (i_name (inodes s node))"
  shows "ld_dnode (vmem (snd (snd (save_inode dev p node lba s)))) p = dnode_of s node lba"
proof -
  let ?n = "inodes s node" and ?par = "if i_parent (inodes s node) \<noteq> 0 then i_num (inodes s (i_parent (inodes s node))) else 0"
  define l where "l = (if i_type ?n = FS_TYPE_FILE \<and> i_data ?n \<noteq> 0 \<and> 0 < i_size ?n then lba else 0)"
  define m0 where "m0 = (pad_bytes p (i_name ?n) 255 (vmem s))(p + 255 := 0)"
  define m where "m = st32 (p + 272) l (st32 (p + 268) ?par (st32 (p + 276) 1 (st32 (p + 264) (i_num ?n)
      (st32 (p + 260) (i_size ?n) (st32 (p + 256) (i_type ?n) m0)))))"
  have "vmem (snd (snd (save_inode dev p node lba s))) = m"
    using ata_write_vmem [of dev lba "ucast (sectors (i_size ?n))" "i_data ?n" "s\<lparr>vmem := m\<rparr>"]
    by (auto simp: save_inode_def Let_def split_beta m_def m0_def l_def)
  moreover have "read_name 255 m p = i_name ?n"
  proof (rule read_name_eq [OF n(1) _ n(2)], intro allI impI)
    fix i :: nat assume "i < 255"
    then show "m (p + word_of_nat i) = (if i < length (i_name ?n) then i_name ?n ! i else 0)"
      unfolding m_def m0_def using entry_bytes [OF n, of i p "vmem s"] by (simp add: st32_below)
  qed
  moreover have "ld32 m (p + 256) = i_type ?n" "ld32 m (p + 260) = i_size ?n" "ld32 m (p + 264) = i_num ?n"
      "ld32 m (p + 268) = ?par" "ld32 m (p + 272) = l" "ld32 m (p + 276) = 1"
    unfolding m_def by (simp_all add: ld32_st32_other)
  ultimately show ?thesis by (simp add: ld_dnode_def dnode_of_def l_def Let_def)
qed

section \<open>An example\<close>

definition fs_example :: fs_state where
  "fs_example = keyboard_state.extend (console_state.extend (sync_state.extend (task_state.extend boot_example
      (sync_state.fields (\<lambda>_. \<lparr>m_locked = 0, m_owner = 0\<rparr>) (\<lambda>_. \<lparr>sem_count = 0\<rparr>)))
      (console_state.fields 0 0 0x0F)) (keyboard_state.fields 0 False 0 False False))
    (fs_state.fields (replicate 64 \<lparr>fd_inode = 0, fd_position = 0, fd_mode = 0, fd_size = 0, fd_valid = False\<rparr>)
      0x120000 (\<lambda>_. \<lparr>i_name = [], i_type = 0, i_size = 0, i_data = 0, i_valid = False, i_parent = 0, i_next = 0, i_num = 0\<rparr>)
      0 0 False 1)"

lemma fs_example_state: "heap_rel fs_example [(0xFFFF0, True)]" "inode_space fs_example" "length (file_descriptors fs_example) = 64"
  "next_inode fs_example + 1 \<noteq> 0" "\<not> fs_initialized fs_example"
proof -
  have "heap_rel fs_example bs = heap_rel boot_example bs" for bs
    by (simp add: fs_example_def heap_rel_def task_state.defs sync_state.defs console_state.defs keyboard_state.defs fs_state.defs
      paging_inv_def pmm_inv_def pmm_wf_def pmm_shape_def used_frames_def page_used_def tables_wf_def free_frames_def)
  then show "heap_rel fs_example [(0xFFFF0, True)]" using boot_example_inv(2) by blast
qed (simp_all add: fs_example_def inode_space_def task_state.defs sync_state.defs console_state.defs keyboard_state.defs fs_state.defs)

lemma no_devices: "serial_ready (\<lambda>_ _. 0xFF)" "no_disk (\<lambda>_ _. 0xFF)"
  by (simp_all add: serial_ready_def no_disk_def)

lemma fs_booted:
  obtains s where "fs_init (\<lambda>_ _. 0xFF) (\<lambda>_ _. 0xFFFF) 0x90000 fs_example = Some (0, s)" "fs_inv s (\<lambda>_. []) [(0xFFFF0, True)]"
    "nodes s = {root_dir s}" "current_dir s = root_dir s" "fs_initialized s" "next_inode s = 2"
    "\<forall>f \<in> set (file_descriptors s). \<not> fd_valid f"
proof -
  have "next_inode fs_example = 1"
    by (simp add: fs_example_def task_state.defs sync_state.defs console_state.defs keyboard_state.defs fs_state.defs)
  then show ?thesis using fs_init_fresh [OF no_devices fs_example_state] that by fastforce
qed

lemma fresh_free_inode:
  assumes "fs_inv s K bs" and "nodes s = {root_dir s}"
  shows "free_inode s \<noteq> None"
proof
  assume "free_inode s = None"
  then have "inode_ptr s 0 \<in> nodes s" "inode_ptr s 1 \<in> nodes s"
    by (force simp: free_inode_def for_find_None nodes_def)+
  moreover have "inode_ptr s 0 \<noteq> inode_ptr s 1"
    using inode_ptr_inj [of s 0 1] assms(1) by (simp add: fs_inv_def tree_def)
  ultimately show False using assms(2) by auto
qed

lemma fresh_lookup:
  assumes "fs_inv s (\<lambda>_. []) bs"
  shows "fs_find_inode_in_dir s (current_dir s) name = Some 0"
  using find_in_dir [of s "\<lambda>_. []" "current_dir s" name] assms by (simp add: fs_inv_def)

lemma fs_set_current_dir_result:
  assumes "fs_inv s K bs" and "p \<in> dirs s"
  shows "fs_set_current_dir p s = (0, s\<lparr>current_dir := p\<rparr>)" "fs_inv (s\<lparr>current_dir := p\<rparr>) K bs"
proof -
  have "p \<noteq> 0" using assms nodes_nonzero by (auto simp: fs_inv_def tree_def dirs_def)
  then show "fs_set_current_dir p s = (0, s\<lparr>current_dir := p\<rparr>)" using assms(2) by (simp add: fs_set_current_dir_def dirs_def)
  have "nodes (s\<lparr>current_dir := p\<rparr>) = nodes s" by (simp add: nodes_def)
  moreover from this have "dirs (s\<lparr>current_dir := p\<rparr>) = dirs s" "files (s\<lparr>current_dir := p\<rparr>) = files s"
    by (simp_all add: dirs_def files_def)
  ultimately show "fs_inv (s\<lparr>current_dir := p\<rparr>) K bs" using assms
    by (simp add: fs_inv_def tree_def inode_space_def data_ok_def nums_ok_def fds_ok_def fd_fits_def)
qed

lemma fs_example_dir:
  obtains s s' K bs p where "fs_init (\<lambda>_ _. 0xFF) (\<lambda>_ _. 0xFFFF) 0x90000 fs_example = Some (0, s)"
    "fs_mkdir (Some (str ''a'')) s = Some (0, s')" "fs_inv s' K bs" "p \<in> dirs s'"
    "fs_find_inode_in_dir s' (root_dir s') (str ''a'') = Some p" "K p = []" "p \<noteq> root_dir s'"
proof -
  obtain s where s: "fs_init (\<lambda>_ _. 0xFF) (\<lambda>_ _. 0xFFFF) 0x90000 fs_example = Some (0, s)" "fs_inv s (\<lambda>_. []) [(0xFFFF0, True)]"
      "nodes s = {root_dir s}" "current_dir s = root_dir s" "next_inode s = 2" by (rule fs_booted) blast
  have "next_inode s + 1 \<noteq> 0" "base_name (str ''a'') = str ''a''" using s(5) by (simp_all add: base_name_def)
  then obtain s' K bs p where m: "fs_mkdir (Some (str ''a'')) s = Some (0, s')" "fs_inv s' K bs"
      "new_entry s s' (\<lambda>_. []) K p (current_dir s) (str ''a'') FS_TYPE_DIR"
    using fs_mkdir_result [OF s(2), of "str ''a''"] fresh_free_inode [OF s(2,3)] fresh_lookup [OF s(2)] by fastforce
  have "root_dir s' = current_dir s" using m(3) s(4) by (simp add: new_entry_def)
  moreover have "p \<noteq> root_dir s'" using m(3) s(3) by (auto simp: new_entry_def)
  ultimately show ?thesis using that [OF s(1) m(1,2), of p] m(3) by (auto simp: new_entry_def dirs_def)
qed

text \<open>The example machine after \<open>fs_init\<close>, and with a file \<^verbatim>\<open>f\<close> open for reading and writing.\<close>

lemma resolve_name:
  assumes "plain_name n" and "fs_inv s K bs"
  shows "fs_resolve_path (Some n) s = fs_find_inode_in_dir s (current_dir s) n"
proof -
  obtain c m where n: "n = c # m" "c \<noteq> SLASH" using assms(1) by (cases n) (auto simp: plain_name_def)
  have pc: "path_component 0 (c # m) = (c # m, [])"
    using path_component_name [of n 0 "[]"] assms(1) n by (simp add: plain_name_def del: path_component.simps)
  have "resolve_loop s n (current_dir s) = fs_find_inode_in_dir s (current_dir s) n"
    using n pc assms(1) resolve_loop.simps [of s "[]"]
    by (subst resolve_loop.simps) (auto simp: plain_name_def simp del: path_component.simps split: option.splits)
  then show ?thesis using assms n by (auto simp: fs_resolve_path_def plain_name_def Let_def)
qed

lemma fs_example_ready:
  obtains s where "fs_init (\<lambda>_ _. 0xFF) (\<lambda>_ _. 0xFFFF) 0x90000 fs_example = Some (0, s)" "fs_inv s (\<lambda>_. []) [(0xFFFF0, True)]"
    "fs_initialized s" "next_inode s + 1 \<noteq> 0" "free_inode s \<noteq> None" "free_fd s = Some 0"
    "fs_resolve_path (Some (str ''f'')) s = Some 0" "base_name (str ''f'') = str ''f''"
proof -
  obtain s where s: "fs_init (\<lambda>_ _. 0xFF) (\<lambda>_ _. 0xFFFF) 0x90000 fs_example = Some (0, s)" "fs_inv s (\<lambda>_. []) [(0xFFFF0, True)]"
      "nodes s = {root_dir s}" "fs_initialized s" "next_inode s = 2" "\<forall>f \<in> set (file_descriptors s). \<not> fd_valid f" by (rule fs_booted)
  have "length (file_descriptors s) = 64" using s(2) by (simp add: fs_inv_def fds_ok_def)
  then have "file_descriptors s ! 0 \<in> set (file_descriptors s)" by (intro nth_mem) simp
  then have "free_fd s = Some 0" using s(6) by (simp add: free_fd_def for_find_Some)
  moreover have "fs_resolve_path (Some (str ''f'')) s = Some 0"
    using resolve_name [OF _ s(2), of "str ''f''"] fresh_lookup [OF s(2)] by (simp add: plain_name_def)
  ultimately show ?thesis using that [OF s(1,2,4)] s(5) fresh_free_inode [OF s(2,3)] by (simp add: base_name_def)
qed

lemma fs_example_file:
  obtains s :: fs_state and K bs p where "fs_inv s K bs" "fd_ok 0 s" "p \<in> files s" "i_num (inodes s p) = fd_inode (file_descriptors s ! 0)"
    "file_bytes s p = []" "fd_mode (file_descriptors s ! 0) = 3" "fd_position (file_descriptors s ! 0) = 0"
    "fd_size (file_descriptors s ! 0) = i_size (inodes s p)" "p \<notin> dirs s" "p \<noteq> root_dir s" "p \<noteq> current_dir s" "p \<noteq> 0"
    "fs_resolve_path (Some (str ''f'')) s = Some p"
proof -
  obtain s where s: "fs_init (\<lambda>_ _. 0xFF) (\<lambda>_ _. 0xFFFF) 0x90000 fs_example = Some (0, s)" "fs_inv s (\<lambda>_. []) [(0xFFFF0, True)]"
      "fs_initialized s" "next_inode s + 1 \<noteq> 0" "free_inode s \<noteq> None" "free_fd s = Some 0"
      "fs_resolve_path (Some (str ''f'')) s = Some 0" "base_name (str ''f'') = str ''f''" by (rule fs_example_ready)
  have "first_fit 65536 0x400000 [(0xFFFF0, True)] \<noteq> None" by simp
  then obtain s' K' bs' p where o: "fs_open (Some (str ''f'')) 3 s = Some (0, s')" "fs_inv s' K' bs'"
      "new_entry s s' (\<lambda>_. []) K' p (current_dir s) (str ''f'') FS_TYPE_FILE" "file_descriptors s' = (file_descriptors s)[0 := new_fd s' 3 p]"
    using fs_open_result [OF s(2,4,3,7), of 3] s(5,6,8) by (auto 0 4)
  have fd: "file_descriptors s' ! 0 = new_fd s' 3 p" using o(4) s(2) by (simp add: fs_inv_def fds_ok_def)
  have p: "p \<in> files s'" "p \<notin> dirs s'" "p \<in> nodes s'" "i_size (inodes s' p) = 0" "root_dir s' = root_dir s" "current_dir s' = current_dir s"
    using o(3) by (auto simp: new_entry_def files_def dirs_def)
  have "root_dir s' \<in> dirs s'" "current_dir s' \<in> dirs s'" "p \<noteq> 0"
    using o(2) nodes_nonzero p(3) by (auto simp: fs_inv_def tree_def)
  moreover from this have "p \<noteq> root_dir s'" "p \<noteq> current_dir s'" using p(2) by auto
  moreover have "file_bytes s' p = []" using p(4) by (simp flip: length_0_conv)
  moreover have "fs_resolve_path (Some (str ''f'')) s' = Some p"
    using resolve_name [OF _ o(2), of "str ''f''"] o(3) p(6) by (simp add: plain_name_def new_entry_def)
  ultimately show ?thesis using p(1,2,4) fd by (intro that [OF o(2), of p]) (simp_all add: fd_ok_def new_fd_def)
qed

lemma low_buffer: "client_buffer s bs 0x90000 4" "client_buffer s bs 0x91000 3" "client_buffer s bs 0x91000 4"
  by (simp_all add: client_buffer_def)

lemma fs_example_written:
  obtains s :: fs_state and K bs p where "fs_inv s K bs" "fd_ok 0 s" "p \<in> files s" "i_num (inodes s p) = fd_inode (file_descriptors s ! 0)"
    "length (file_bytes s p) = 4" "fd_mode (file_descriptors s ! 0) = 3" "fd_position (file_descriptors s ! 0) = 0"
proof (rule fs_example_file)
  fix s :: fs_state and K bs p
  assume a: "fs_inv s K bs" "fd_ok 0 s" "p \<in> files s" "i_num (inodes s p) = fd_inode (file_descriptors s ! 0)" "file_bytes s p = []"
    "fd_mode (file_descriptors s ! 0) = 3" "fd_position (file_descriptors s ! 0) = 0"
  let ?f = "file_descriptors s ! nat 0"
  have pre: "i_num (inodes s p) = fd_inode ?f" "fd_mode ?f AND FS_MODE_WRITE \<noteq> 0" "unat (4 :: u32) \<le> 0xFFFEFFFF"
      "4 = min (unat (4 :: u32)) (65536 - unat (fd_position ?f))" using a by simp_all
  obtain s1 :: fs_state where w: "fs_inv s1 K bs" "file_bytes s1 p = take (unat (fd_position ?f)) (file_bytes s p) @ bytes_at (vmem s) 0x90000 4 @
        drop (unat (fd_position ?f) + 4) (file_bytes s p)" "files s1 = files s"
      "\<forall>q. i_num (inodes s1 q) = i_num (inodes s q) \<and> i_data (inodes s1 q) = i_data (inodes s q)"
      "file_descriptors s1 = (file_descriptors s)[nat 0 := ?f\<lparr>fd_position := fd_position ?f + word_of_nat 4,
        fd_size := if unat (i_size (inodes s p)) < unat (fd_position ?f) + 4 then fd_position ?f + word_of_nat 4 else fd_size ?f\<rparr>]"
    using fs_write_result [OF a(1,2) refl a(3) pre low_buffer(1)] by blast
  have l: "0 < length (file_descriptors s)" using fd_fitsD(1) [OF a(1,2)] by simp
  then have ok: "fd_ok 0 s1" using w(5) a(2) by (auto simp: fd_ok_def)
  have z: "fs_seek 0 0 0 s1 = (0, upd_fd 0 (\<lambda>f. f\<lparr>fd_position := 0\<rparr>) s1)" "fs_inv (upd_fd 0 (\<lambda>f. f\<lparr>fd_position := 0\<rparr>) s1) K bs"
    using fs_seek_result [OF w(1) ok, of 0 0] by auto
  show thesis
    by (rule that [OF z(2), of p]) (use a w ok l in \<open>simp_all add: fd_ok_def\<close>)
qed

lemma fs_example_cwd:
  obtains s :: fs_state and K bs where "fs_inv s K bs" "fs_get_current_path s = str ''/a''"
    "fs_resolve_path (Some (str ''/a'')) s = Some (current_dir s)" "current_dir s \<noteq> root_dir s" "K (current_dir s) = []"
proof -
  obtain s s' K bs p where s: "fs_init (\<lambda>_ _. 0xFF) (\<lambda>_ _. 0xFFFF) 0x90000 fs_example = Some (0, s)"
      "fs_mkdir (Some (str ''a'')) s = Some (0, s')" "fs_inv s' K bs" "p \<in> dirs s'"
      "fs_find_inode_in_dir s' (root_dir s') (str ''a'') = Some p" "K p = []" "p \<noteq> root_dir s'" by (rule fs_example_dir)
  let ?t = "s'\<lparr>current_dir := p\<rparr>"
  note c = fs_set_current_dir_result [OF s(3,4)]
  have t: "tree ?t K" using c(2) by (simp add: fs_inv_def)
  have p0: "p \<noteq> 0" using s(3,4) nodes_nonzero by (auto simp: fs_inv_def tree_def dirs_def)
  have "fs_find_inode_in_dir ?t (root_dir s') (str ''a'') = Some p"
    using s(5) s(3) find_in_dir [of s' K] find_in_dir [of ?t K] c(2) by (simp add: fs_inv_def tree_def)
  then have "walk ?t (root_dir ?t) [str ''a''] = Some (current_dir ?t)" using p0 by simp
  from current_path_roundtrip [OF t this] show ?thesis using that [OF c(2)] s(6,7) p0 by (auto simp: plain_name_def)
qed

section \<open>Properties\<close>

text \<open>C17: on a machine without a disk whose serial port works, \<open>fs_init\<close> returns and establishes the file system
  with an empty root directory as the current one and no open descriptor; memory outside the file
  system's variables is not touched.\<close>

theorem fs_init_correct:
  assumes "serial_ready dev" and "no_disk dev" and "heap_rel s bs" and "inode_space s"
    and "length (file_descriptors s) = MAX_FILE_DESCRIPTORS" and "next_inode s + 1 \<noteq> 0" and "\<not> fs_initialized s"
  shows "\<exists>s'. fs_init dev devw sb s = Some (0, s') \<and> fs_inv s' (\<lambda>_. []) bs \<and> nodes s' = {root_dir s'} \<and>
    current_dir s' = root_dir s' \<and> fs_initialized s' \<and> fs_get_current_path s' = str ''/'' \<and> vmem s' = vmem s \<and>
    (\<forall>f \<in> set (file_descriptors s'). \<not> fd_valid f)"
  using fs_init_fresh [OF assms, of devw sb] by (force simp: fs_get_current_path_def)

theorem fs_init_correct_witness:
  "\<exists>s. fs_init (\<lambda>_ _. 0xFF) (\<lambda>_ _. 0xFFFF) 0x90000 fs_example = Some (0, s) \<and> fs_inv s (\<lambda>_. []) [(0xFFFF0, True)] \<and>
     fs_get_current_path s = str ''/''"
  using fs_init_correct [OF no_devices fs_example_state, of "\<lambda>_ _. 0xFFFF" "0x90000"] by blast

text \<open>C16: for a directory below the root whose path has at most 255 bytes and whose names can be written in a path,
  \<open>fs_get_current_path\<close> returns the names from the root on, and resolving that path leads back to the
  current directory.\<close>

theorem fs_path_roundtrip:
  assumes "fs_inv s K bs" and "walk s (root_dir s) ns = Some (current_dir s)"
    and "\<forall>n \<in> set ns. plain_name n" and "length (join_path ns) \<le> 255"
  shows "fs_get_current_path s = (if ns = [] then str ''/'' else join_path ns) \<and>
    fs_resolve_path (Some (fs_get_current_path s)) s = Some (current_dir s)"
proof -
  have "tree s K" "current_dir s \<noteq> 0" using assms(1) nodes_nonzero by (auto simp: fs_inv_def tree_def dirs_def)
  note r = current_path_roundtrip [OF this(1) assms(2) this(2) assms(3,4)]
  have e: "str ''/'' = [SLASH]" by simp
  show ?thesis unfolding e by (rule r)
qed

theorem fs_path_roundtrip_witness:
  "\<exists>s s' p. fs_init (\<lambda>_ _. 0xFF) (\<lambda>_ _. 0xFFFF) 0x90000 fs_example = Some (0, s) \<and>
     fs_mkdir (Some (str ''a'')) s = Some (0, s') \<and> fst (fs_set_current_dir p s') = 0 \<and>
     fs_get_current_path (snd (fs_set_current_dir p s')) = str ''/a'' \<and>
     fs_resolve_path (Some (str ''/a'')) (snd (fs_set_current_dir p s')) = Some p"
proof -
  obtain s s' K bs p where s: "fs_init (\<lambda>_ _. 0xFF) (\<lambda>_ _. 0xFFFF) 0x90000 fs_example = Some (0, s)"
      "fs_mkdir (Some (str ''a'')) s = Some (0, s')" "fs_inv s' K bs" "p \<in> dirs s'"
      "fs_find_inode_in_dir s' (root_dir s') (str ''a'') = Some p" by (rule fs_example_dir) blast
  let ?t = "s'\<lparr>current_dir := p\<rparr>"
  note c = fs_set_current_dir_result [OF s(3,4)]
  have p0: "p \<noteq> 0" using s(3,4) nodes_nonzero by (auto simp: fs_inv_def tree_def dirs_def)
  have "fs_find_inode_in_dir ?t (root_dir s') (str ''a'') = Some p"
    using s(5) s(3) find_in_dir [of s' K] find_in_dir [of ?t K] c(2) by (simp add: fs_inv_def tree_def)
  then have "walk ?t (root_dir ?t) [str ''a''] = Some (current_dir ?t)" using p0 by simp
  from fs_path_roundtrip [OF c(2) this] have "fs_get_current_path ?t = str ''/a'' \<and> fs_resolve_path (Some (str ''/a'')) ?t = Some p"
    by (auto simp: plain_name_def)
  then show ?thesis using s(1,2) c(1) by (intro exI [of _ s] exI [of _ s'] exI [of _ p]) simp
qed

text \<open>C15: \<open>fs_mkdir\<close> always returns. It fails without any change when the current directory has an entry of that
  name, and fails when all inodes are in use; otherwise the new empty directory is an entry of the current
  directory (whatever directories the path names) that a lookup finds. All file contents and all other
  entries are kept, and so is the invariant of the file system.\<close>

theorem fs_mkdir_correct:
  assumes "fs_inv s K bs" and "next_inode s + 1 \<noteq> 0"
  shows "\<exists>r s' K' bs'. fs_mkdir (Some path) s = Some (r, s') \<and> fs_inv s' K' bs' \<and>
    (\<forall>q \<in> files s. file_bytes s' q = file_bytes s q) \<and>
    (if fs_find_inode_in_dir s (current_dir s) (base_name path) \<noteq> Some 0 then r = - 1 \<and> s' = s
     else if free_inode s = None then r = - 1 \<and> nodes s' = nodes s \<and> K' = K
     else r = 0 \<and> (\<exists>p. new_entry s s' K K' p (current_dir s) (take 255 (base_name path)) FS_TYPE_DIR))"
  by (rule fs_mkdir_result [OF assms])

theorem fs_mkdir_correct_witness:
  "\<exists>s s' K' bs' p. fs_init (\<lambda>_ _. 0xFF) (\<lambda>_ _. 0xFFFF) 0x90000 fs_example = Some (0, s) \<and>
     fs_mkdir (Some (str ''a'')) s = Some (0, s') \<and> fs_inv s' K' bs' \<and>
     new_entry s s' (\<lambda>_. []) K' p (current_dir s) (str ''a'') FS_TYPE_DIR"
proof -
  obtain s where s: "fs_init (\<lambda>_ _. 0xFF) (\<lambda>_ _. 0xFFFF) 0x90000 fs_example = Some (0, s)" "fs_inv s (\<lambda>_. []) [(0xFFFF0, True)]"
      "nodes s = {root_dir s}" "next_inode s = 2" by (rule fs_booted) blast
  have "next_inode s + 1 \<noteq> 0" "base_name (str ''a'') = str ''a''" using s(4) by (simp_all add: base_name_def)
  then show ?thesis
    using fs_mkdir_correct [OF s(2), of "str ''a''"] fresh_free_inode [OF s(2,3)] fresh_lookup [OF s(2)] s(1) by fastforce
qed





text \<open>Reading through a descriptor with the read mode stores the next bytes of the file, as many as are
  requested and left, in the buffer, returns their number and moves the position by it. No file changes.\<close>

theorem fs_read_correct:
  fixes s :: "'a fs_state_scheme"
  assumes "fs_inv s K bs" and "fd_ok fd s" and "f = file_descriptors s ! nat fd"
    and "p \<in> files s" and "i_num (inodes s p) = fd_inode f" and "fd_mode f AND FS_MODE_READ \<noteq> 0"
    and "n = min (unat sz) (length (file_bytes s p) - unat (fd_position f))" and "client_buffer s bs buffer n"
  shows "\<exists>s'. fs_read fd buffer sz s = (int n, s') \<and> fs_inv s' K bs \<and>
    bytes_at (vmem s') buffer n = take n (drop (unat (fd_position f)) (file_bytes s p)) \<and>
    (\<forall>q \<in> files s. file_bytes s' q = file_bytes s q) \<and>
    fd_position (file_descriptors s' ! nat fd) = fd_position f + word_of_nat n"
  using fs_read_result [OF assms(1-6) _ assms(8), of sz] assms(7) fd_fitsD(1) [OF assms(1,2)] by auto

theorem fs_read_correct_witness:
  "\<exists>(s :: fs_state) s' p K bs. fs_inv s K bs \<and> length (file_bytes s p) = 4 \<and> fs_read 0 0x91000 3 s = (3, s') \<and>
     bytes_at (vmem s') 0x91000 3 = take 3 (file_bytes s p)"
proof (rule fs_example_written)
  fix s :: fs_state and K bs p
  assume a: "fs_inv s K bs" "fd_ok 0 s" "p \<in> files s" "i_num (inodes s p) = fd_inode (file_descriptors s ! 0)" "length (file_bytes s p) = 4"
    "fd_mode (file_descriptors s ! 0) = 3" "fd_position (file_descriptors s ! 0) = 0"
  have "fd_mode (file_descriptors s ! nat 0) AND FS_MODE_READ \<noteq> 0"
      "3 = min (unat (3 :: u32)) (length (file_bytes s p) - unat (fd_position (file_descriptors s ! nat 0)))"
      "i_num (inodes s p) = fd_inode (file_descriptors s ! nat 0)" using a(4-7) by simp_all
  from fs_read_correct [OF a(1,2) refl a(3) this(3,1,2) low_buffer(2)] a show ?thesis by auto
qed

text \<open>C19: what was written is read back: writing, seeking back to the position and reading with the same descriptor
  returns the same number of bytes and the bytes that were written.\<close>

theorem fs_write_read_roundtrip:
  fixes s :: "'a fs_state_scheme"
  assumes "fs_inv s K bs" and "fd_ok fd s" and "f = file_descriptors s ! nat fd"
    and "p \<in> files s" and "i_num (inodes s p) = fd_inode f"
    and "fd_mode f AND FS_MODE_WRITE \<noteq> 0" and "fd_mode f AND FS_MODE_READ \<noteq> 0"
    and "unat sz \<le> 0xFFFEFFFF" and "n = min (unat sz) (65536 - unat (fd_position f))"
    and "fd_size f = i_size (inodes s p)"
    and "client_buffer s bs buffer n" and "client_buffer s bs buffer' n"
  shows "\<exists>s1 s2 s3. fs_write fd buffer sz s = (int n, s1) \<and> fs_seek fd (fd_position f) 0 s1 = (sint (fd_position f), s2) \<and>
    fs_read fd buffer' (word_of_nat n) s2 = (int n, s3) \<and> fs_inv s3 K bs \<and>
    bytes_at (vmem s3) buffer' n = bytes_at (vmem s) buffer n"
  by (rule fs_write_seek_read [OF assms])

theorem fs_write_read_roundtrip_witness:
  "\<exists>(s :: fs_state) s1 s2 s3 K bs. fs_inv s K bs \<and> fs_write 0 0x90000 4 s = (4, s1) \<and> fs_seek 0 0 0 s1 = (0, s2) \<and>
     fs_read 0 0x91000 4 s2 = (4, s3) \<and> bytes_at (vmem s3) 0x91000 4 = bytes_at (vmem s) 0x90000 4"
proof (rule fs_example_file)
  fix s :: fs_state and K bs p
  assume a: "fs_inv s K bs" "fd_ok 0 s" "p \<in> files s" "i_num (inodes s p) = fd_inode (file_descriptors s ! 0)" "file_bytes s p = []"
    "fd_mode (file_descriptors s ! 0) = 3" "fd_position (file_descriptors s ! 0) = 0" "fd_size (file_descriptors s ! 0) = i_size (inodes s p)"
  have "fd_mode (file_descriptors s ! nat 0) AND FS_MODE_WRITE \<noteq> 0" "fd_mode (file_descriptors s ! nat 0) AND FS_MODE_READ \<noteq> 0"
      "unat (4 :: u32) \<le> 0xFFFEFFFF" "4 = min (unat (4 :: u32)) (65536 - unat (fd_position (file_descriptors s ! nat 0)))"
      "i_num (inodes s p) = fd_inode (file_descriptors s ! nat 0)" "fd_size (file_descriptors s ! nat 0) = i_size (inodes s p)" using a by simp_all
  from fs_write_read_roundtrip [OF a(1,2) refl a(3) this(5,1,2,3,4,6) low_buffer(1,3)] a show ?thesis by auto
qed

text \<open>C20: removing a file or an empty directory other than the root and the current directory returns 0, takes exactly
  that entry out of its directory, releases exactly the memory of its data, and keeps the contents of all other
  files; descriptors that were open on it no longer read or write anything.\<close>

theorem fs_remove_correct:
  assumes "fs_inv s K bs" and "fs_resolve_path path s = Some p"
    and "p \<noteq> 0" and "p \<noteq> root_dir s" and "p \<noteq> current_dir s" and "p \<in> dirs s \<Longrightarrow> K p = []"
  shows "\<exists>s' xs ys bs'. fs_remove path s = Some (0, s') \<and> K (i_parent (inodes s p)) = xs @ p # ys \<and>
    fs_inv s' (K(i_parent (inodes s p) := xs @ ys)) bs' \<and> nodes s' = nodes s - {p} \<and>
    live 0x400000 bs' = live 0x400000 bs - (if p \<in> files s then {b. b \<in> live 0x400000 bs \<and> fst b = unat (i_data (inodes s p))} else {}) \<and>
    (\<forall>q \<in> files s. q \<noteq> p \<longrightarrow> file_bytes s' q = file_bytes s q) \<and>
    (\<forall>fd b sz. fd_inode (file_descriptors s' ! nat fd) = i_num (inodes s p) \<longrightarrow>
       fs_read fd b sz s' = (- 1, s') \<and> fs_write fd b sz s' = (- 1, s'))"
proof -
  obtain s' xs ys bs' where r: "fs_remove path s = Some (0, s')" "K (i_parent (inodes s p)) = xs @ p # ys"
      "fs_inv s' (K(i_parent (inodes s p) := xs @ ys)) bs'" "nodes s' = nodes s - {p}"
      "live 0x400000 bs' = live 0x400000 bs - (if p \<in> files s then {b. b \<in> live 0x400000 bs \<and> fst b = unat (i_data (inodes s p))} else {})"
      "\<forall>q \<in> files s. q \<noteq> p \<longrightarrow> file_bytes s' q = file_bytes s q" "find_inode_by_num s' (i_num (inodes s p)) = 0"
    using fs_remove_result [OF assms] by blast
  show ?thesis
    by (intro exI [of _ s'] exI [of _ xs] exI [of _ ys] exI [of _ bs'] conjI r(1-6) allI impI)
      (simp_all add: fs_read_def fs_write_def Let_def r(7))
qed

theorem fs_remove_correct_witness:
  "\<exists>(s :: fs_state) s' p. fs_resolve_path (Some (str ''f'')) s = Some p \<and> p \<in> files s \<and>
     fs_remove (Some (str ''f'')) s = Some (0, s') \<and> nodes s' = nodes s - {p}"
proof (rule fs_example_file)
  fix s :: fs_state and K bs p
  assume a: "fs_inv s K bs" "fs_resolve_path (Some (str ''f'')) s = Some p" "p \<in> files s" "p \<notin> dirs s"
    "p \<noteq> 0" "p \<noteq> root_dir s" "p \<noteq> current_dir s"
  have "K p = []" if "p \<in> dirs s" using that a(4) by simp
  from fs_remove_correct [OF a(1,2,5,6,7) this] a(2,3) show ?thesis by blast
qed

text \<open>The code does not protect the current directory: an empty current directory can be removed, and the current
  directory is then an inode that is not in use, in which new files would be created.\<close>

theorem fs_remove_current_dir:
  assumes "fs_inv s K bs" and "fs_resolve_path path s = Some (current_dir s)"
    and "current_dir s \<noteq> root_dir s" and "K (current_dir s) = []"
  shows "\<exists>s'. fs_remove path s = Some (0, s') \<and> fs_get_current_dir s' = current_dir s \<and> current_dir s \<notin> nodes s'"
proof -
  have c: "current_dir s \<noteq> 0" using assms(1) nodes_nonzero by (auto simp: fs_inv_def tree_def dirs_def)
  show ?thesis
    by (rule fs_remove_step [OF assms(1,2) c assms(3,4)]) (use c in \<open>auto simp: fs_get_current_dir_def dest!: removed_nodes(1)\<close>)
qed

theorem fs_remove_current_dir_witness:
  "\<exists>(s :: fs_state) s'. fs_get_current_path s = str ''/a'' \<and> fs_remove (Some (str ''/a'')) s = Some (0, s') \<and>
     fs_get_current_dir s' = current_dir s \<and> current_dir s \<notin> nodes s'"
proof (rule fs_example_cwd)
  fix s :: fs_state and K bs
  assume a: "fs_inv s K bs" "fs_get_current_path s = str ''/a''" "fs_resolve_path (Some (str ''/a'')) s = Some (current_dir s)"
    "current_dir s \<noteq> root_dir s" "K (current_dir s) = []"
  from fs_remove_current_dir [OF a(1,3-5)] a(2) show ?thesis by blast
qed

text \<open>The entry that \<open>fs_save\<close> writes for an inode reads back with its name, type, size, number, the number of its
  parent and the first sector of its data; loading the entry of a directory recreates its inode.\<close>

theorem fs_entry_roundtrip:
  assumes "length (i_name (inodes s node)) \<le> 255" and "0 \<notin> set (i_name (inodes s node))"
    and "save_inode dev p node lba s = (ok, lba', s')"
  shows "ld_dnode (vmem s') p = dnode_of s node lba \<and>
    (i_type (inodes s node) = FS_TYPE_DIR \<and> vmem t = vmem s' \<and> free_inode t = Some j \<longrightarrow>
       (\<exists>t'. load_inode dev devw p t = Some (None, t') \<and> inodes t' (inode_ptr t j) = (inodes s node)\<lparr>i_data := 0, i_valid := True,
          i_parent := 0, i_next := 0\<rparr>))"
proof -
  have e: "ld_dnode (vmem s') p = dnode_of s node lba"
    using save_inode_entry [OF assms(1,2), of dev p lba] assms(3) by simp
  moreover have "\<exists>t'. load_inode dev devw p t = Some (None, t') \<and> inodes t' (inode_ptr t j) = (inodes s node)\<lparr>i_data := 0, i_valid := True,
          i_parent := 0, i_next := 0\<rparr>" if "i_type (inodes s node) = FS_TYPE_DIR" "vmem t = vmem s'" "free_inode t = Some j"
    using that e by (cases "inodes s node"; cases "inodes t (inode_ptr t j)")
      (auto simp: load_inode_def dnode_of_def Let_def upd_inode_def)
  ultimately show ?thesis by blast
qed

theorem fs_entry_roundtrip_witness:
  "\<exists>lba s'. save_inode (\<lambda>_ _. 0xFF) 0x90000 0x120000 65
       (upd_inode 0x120000 (\<lambda>n. n\<lparr>i_name := str ''d'', i_type := FS_TYPE_DIR\<rparr>) fs_example) = (True, lba, s') \<and>
     dn_name (ld_dnode (vmem s') 0x90000) = str ''d'' \<and> dn_type (ld_dnode (vmem s') 0x90000) = FS_TYPE_DIR"
proof -
  let ?s = "upd_inode 0x120000 (\<lambda>n. n\<lparr>i_name := str ''d'', i_type := FS_TYPE_DIR\<rparr>) fs_example"
  obtain lba s' where e: "save_inode (\<lambda>_ _. 0xFF) 0x90000 0x120000 65 ?s = (True, lba, s')"
    by (simp add: save_inode_def Let_def)
  have "ld_dnode (vmem s') 0x90000 = dnode_of ?s 0x120000 65" by (rule fs_entry_roundtrip [OF _ _ e, THEN conjunct1]) simp_all
  then show ?thesis using e by (simp add: dnode_of_def)
qed

text \<open>The inode table starts at sector 1 and file data at sector 65; the table runs into the data exactly when more
  than 117 inodes are saved, although up to 256 are.\<close>

theorem fs_table_overlap:
  "FS_DATA_BLOCKS_LBA < FS_INODE_TABLE_LBA + sectors (word_of_nat (length (collect_inodes FS_MAX_INODES_ON_DISK s)) * sizeof_disk_inode)
     \<longleftrightarrow> 117 < length (collect_inodes FS_MAX_INODES_ON_DISK s)"
proof -
  define n where "n = length (collect_inodes FS_MAX_INODES_ON_DISK s)"
  have n: "n \<le> 256" by (simp add: n_def collect_inodes_def)
  have "word_of_nat n * sizeof_disk_inode + ATA_SECTOR_SIZE - 1 = (word_of_nat (n * 280 + 511) :: u32)" by simp
  then have "sectors (word_of_nat n * sizeof_disk_inode) = word_of_nat (n * 280 + 511) div 512"
    by (simp add: sectors_def del: of_nat_add of_nat_mult)
  moreover have "unat (word_of_nat (n * 280 + 511) :: u32) = n * 280 + 511" using n by (intro unat_u32_of_nat) simp
  ultimately have "unat (sectors (word_of_nat n * sizeof_disk_inode)) = (n * 280 + 511) div 512" by (simp add: unat_div)
  moreover from this have "unat (FS_INODE_TABLE_LBA + sectors (word_of_nat n * sizeof_disk_inode)) = 1 + (n * 280 + 511) div 512"
    using n by (subst unat_u32_add) auto
  ultimately have "FS_DATA_BLOCKS_LBA < FS_INODE_TABLE_LBA + sectors (word_of_nat n * sizeof_disk_inode) \<longleftrightarrow> 65 < 1 + (n * 280 + 511) div 512"
    by (simp add: word_less_nat_alt)
  also have "\<dots> \<longleftrightarrow> 65 \<le> (n * 280 + 511) div 512" by linarith
  also have "\<dots> \<longleftrightarrow> 65 * 512 \<le> n * 280 + 511" by (rule less_eq_div_iff_mult_less_eq) simp
  also have "\<dots> \<longleftrightarrow> 117 < n" by linarith
  finally show ?thesis by (simp add: n_def)
qed

end
