(* ===== verification/Interrupts.thy ===== *)
theory Interrupts
  imports FileSystem
begin

text \<open>
  Segments, interrupts and the floating point unit: \<^verbatim>\<open>src/kernel/memory/gdt.c\<close>, \<^verbatim>\<open>gdt_asm.asm\<close>,
  \<^verbatim>\<open>src/kernel/interrupts/idt.c\<close>, \<^verbatim>\<open>idt.asm\<close> and \<^verbatim>\<open>src/kernel/cpu/fpu.c\<close>. The tables are lists of
  structures; loading them copies limit and address into a register. The entry points in \<^verbatim>\<open>idt.asm\<close> have
  addresses that only the linker knows: they are parameters. The assembly stubs are modelled
  with their stack, because the arguments of the C handlers are what they leave on it.
\<close>

section \<open>Segments\<close>

record gdt_entry =
  g_limit_low :: u16
  g_base_low :: u16
  g_base_middle :: u8
  g_access :: u8
  g_granularity :: u8
  g_base_high :: u8

text \<open>The next structure is that of an interrupt gate.\<close>

record idt_entry =
  base_low :: u16
  selector :: u16
  always0 :: u8
  flags :: u8
  base_high :: u16

record table_ptr =
  tp_limit :: u16
  tp_base :: u32

record tables_state = fs_state +
  gdt :: "gdt_entry list"
  gdt_addr :: u32
  gdtr :: table_ptr
  seg_cs :: u16
  seg_ds :: u16
  idt :: "idt_entry list"
  idt_addr :: u32
  idtr :: table_ptr
  cr4 :: u32

abbreviation (input) GDT_ENTRIES :: nat where "GDT_ENTRIES \<equiv> 5"
abbreviation (input) IDT_ENTRIES :: nat where "IDT_ENTRIES \<equiv> 256"
abbreviation (input) IDT_GATE_32BIT_INT :: u8 where "IDT_GATE_32BIT_INT \<equiv> 0xE"
abbreviation (input) IDT_GATE_32BIT_TRAP :: u8 where "IDT_GATE_32BIT_TRAP \<equiv> 0xF"
abbreviation (input) IDT_FLAG_PRESENT :: u8 where "IDT_FLAG_PRESENT \<equiv> 0x80"
abbreviation (input) IDT_FLAG_RING3 :: u8 where "IDT_FLAG_RING3 \<equiv> 0x60"

definition gdt_set_gate :: "nat \<Rightarrow> u32 \<Rightarrow> u32 \<Rightarrow> u8 \<Rightarrow> u8 \<Rightarrow> 'a tables_state_scheme \<Rightarrow> 'a tables_state_scheme" where
  "gdt_set_gate num base limit access gran s = s\<lparr>gdt := (gdt s)[num := \<lparr>
     g_limit_low = ucast (limit AND 0xFFFF),
     g_base_low = ucast (base AND 0xFFFF),
     g_base_middle = ucast (drop_bit 16 base AND 0xFF),
     g_access = access,
     g_granularity = ucast (drop_bit 16 limit AND 0x0F) OR (gran AND 0xF0),
     g_base_high = ucast (drop_bit 24 base AND 0xFF)\<rparr>]\<rparr>"

definition gdt_flush :: "table_ptr \<Rightarrow> 'a tables_state_scheme \<Rightarrow> 'a tables_state_scheme" where
  "gdt_flush gp s = s\<lparr>gdtr := gp, seg_ds := 0x10, seg_cs := 0x08\<rparr>"

definition gdt_init :: "'a tables_state_scheme \<Rightarrow> 'a tables_state_scheme" where
  "gdt_init s =
     (let gp = \<lparr>tp_limit = word_of_nat (8 * GDT_ENTRIES - 1), tp_base = gdt_addr s\<rparr>;
          s = gdt_set_gate 0 0 0 0 0 s;
          s = gdt_set_gate 1 0 0xFFFFFFFF 0x9A 0xCF s;
          s = gdt_set_gate 2 0 0xFFFFFFFF 0x92 0xCF s;
          s = gdt_set_gate 3 0 0xFFFFFFFF 0xFA 0xCF s;
          s = gdt_set_gate 4 0 0xFFFFFFFF 0xF2 0xCF s
      in gdt_flush gp s)"

section \<open>The interrupt descriptor table\<close>

definition idt_set_gate :: "u8 \<Rightarrow> u32 \<Rightarrow> u16 \<Rightarrow> u8 \<Rightarrow> 'a tables_state_scheme \<Rightarrow> 'a tables_state_scheme" where
  "idt_set_gate num base sel fl s = s\<lparr>idt := (idt s)[unat num := \<lparr>
     base_low = ucast (base AND 0xFFFF), selector = sel, always0 = 0, flags = fl OR IDT_FLAG_PRESENT,
     base_high = ucast (drop_bit 16 base AND 0xFFFF)\<rparr>]\<rparr>"

definition idt_flush :: "table_ptr \<Rightarrow> 'a tables_state_scheme \<Rightarrow> 'a tables_state_scheme" where
  "idt_flush idtp s = s\<lparr>idtr := idtp\<rparr>"

text \<open>\<open>isr i\<close> and \<open>irq i\<close> are the addresses of the entry points of \<^verbatim>\<open>idt.asm\<close>, \<open>syscall_entry\<close> that of
  \<^verbatim>\<open>syscall.asm\<close>.\<close>

definition idt_init :: "(nat \<Rightarrow> u32) \<Rightarrow> (nat \<Rightarrow> u32) \<Rightarrow> u32 \<Rightarrow> 'a tables_state_scheme \<Rightarrow> 'a tables_state_scheme" where
  "idt_init isr irq syscall_entry s =
     (let idtp = \<lparr>tp_limit = word_of_nat (8 * IDT_ENTRIES - 1), tp_base = idt_addr s\<rparr>;
          s = s\<lparr>idt := replicate IDT_ENTRIES \<lparr>base_low = 0, selector = 0, always0 = 0, flags = 0, base_high = 0\<rparr>\<rparr>;
          s = fold (\<lambda>i. idt_set_gate (word_of_nat i) (isr i) 0x08
                (if i = 3 \<or> i = 4 then IDT_GATE_32BIT_TRAP else IDT_GATE_32BIT_INT)) [0..<32] s;
          s = idt_set_gate 0x80 syscall_entry 0x08 (IDT_GATE_32BIT_INT OR IDT_FLAG_RING3) s;
          s = fold (\<lambda>i. idt_set_gate (word_of_nat (32 + i)) (irq i) 0x08 IDT_GATE_32BIT_INT) [0..<16] s
      in idt_flush idtp s)"

section \<open>Handlers\<close>

definition exception_messages :: "string list" where
  "exception_messages = [''Division By Zero'', ''Debug'', ''Non Maskable Interrupt'', ''Breakpoint'',
     ''Into Detected Overflow'', ''Out of Bounds'', ''Invalid Opcode'', ''No Coprocessor'', ''Double Fault'',
     ''Coprocessor Segment Overrun'', ''Bad TSS'', ''Segment Not Present'', ''Stack Fault'',
     ''General Protection Fault'', ''Page Fault'', ''Unknown Interrupt'', ''Coprocessor Fault'',
     ''Alignment Check'', ''Machine Check''] @ replicate 13 ''Reserved''"

definition isr_handler :: "device \<Rightarrow> u32 \<Rightarrow> u32 \<Rightarrow> 'a console_state_scheme \<Rightarrow> 'a console_state_scheme option" where
  "isr_handler dev int_no err_code s =
     do {
       s \<leftarrow> kprintf dev ([NEWLINE] @ str ''!!! EXCEPTION !!!'' @ [NEWLINE]) [] s;
       s \<leftarrow> kprintf dev (str ''Exception #%d: '') [ArgInt int_no] s;
       s \<leftarrow> (if int_no < 32
             then kprintf dev (str ''%s'' @ [NEWLINE]) [ArgStr (Some (str (exception_messages ! unat int_no)))] s
             else kprintf dev (str ''Unknown Exception'' @ [NEWLINE]) [] s);
       if err_code \<noteq> 0 then kprintf dev (str ''Error Code: 0x%x'' @ [NEWLINE]) [ArgInt err_code] s else Some s
     }"

text \<open>The first component of the result says whether the timer gave the processor to another task; the
  rest of the handler then runs when this task continues.\<close>

definition irq_handler ::
  "(u32 \<Rightarrow> 'a keyboard_state_scheme \<Rightarrow> 'a keyboard_state_scheme) \<Rightarrow>
   (u32 \<Rightarrow> u8 \<Rightarrow> u8 \<Rightarrow> 'a keyboard_state_scheme \<Rightarrow> 'a keyboard_state_scheme) \<Rightarrow> device \<Rightarrow> u32 \<Rightarrow>
   'a keyboard_state_scheme \<Rightarrow> (bool \<times> 'a keyboard_state_scheme) option" where
  "irq_handler call_timer call_keyboard dev int_no s =
     (let irq = ucast (int_no - 32) :: u8
      in do {
        (switched, s) \<leftarrow> (if irq = 0 then timer_handler call_timer s
                          else if irq = 1 then Some (False, keyboard_handler call_keyboard dev s)
                          else Some (False, s));
        if switched then Some (True, s)
        else Some (False, s\<lparr>io_trace := pic_send_eoi irq (io_trace s)\<rparr>)
      })"

section \<open>Entry points\<close>

text \<open>The general registers when an interrupt arrives.\<close>

record regs =
  eax :: u32
  ecx :: u32
  edx :: u32
  ebx :: u32
  ebp :: u32
  esi :: u32
  edi :: u32

definition pushl :: "u32 \<Rightarrow> u32 \<times> mem \<Rightarrow> u32 \<times> mem" where
  "pushl v = (\<lambda>(esp, m). (esp - 4, st32 (esp - 4) v m))"

definition pusha :: "regs \<Rightarrow> u32 \<times> mem \<Rightarrow> u32 \<times> mem" where
  "pusha r st =
     (let st' = pushl (ebx r) (pushl (edx r) (pushl (ecx r) (pushl (eax r) st)));
          st' = pushl (fst st) st'
      in pushl (edi r) (pushl (esi r) (pushl (ebp r) st')))"

text \<open>\<^verbatim>\<open>mov ax, ds; push eax\<close>.\<close>

definition push_ds :: "regs \<Rightarrow> u16 \<Rightarrow> u32 \<times> mem \<Rightarrow> u32 \<times> mem" where
  "push_ds r sel = pushl ((eax r AND 0xFFFF0000) OR ucast sel)"

text \<open>The stack at the call of the C handler: error code, number, registers, data segment. The
  arguments of the handler are the topmost words.\<close>

definition common_stub :: "regs \<Rightarrow> u16 \<Rightarrow> u32 \<times> mem \<Rightarrow> u32 \<times> mem" where
  "common_stub r sel st = push_ds r sel (pusha r st)"

definition irq_stub ::
  "(u32 \<Rightarrow> 'a tables_state_scheme \<Rightarrow> 'a tables_state_scheme) \<Rightarrow>
   (u32 \<Rightarrow> u8 \<Rightarrow> u8 \<Rightarrow> 'a tables_state_scheme \<Rightarrow> 'a tables_state_scheme) \<Rightarrow> device \<Rightarrow> u32 \<Rightarrow> regs \<Rightarrow>
   'a tables_state_scheme \<Rightarrow> (bool \<times> 'a tables_state_scheme) option" where
  "irq_stub call_timer call_keyboard dev n r s =
     (let (esp, m) = common_stub r (seg_ds s) (pushl n (pushl 0 (r_esp (cpu s), vmem s)))
      in map_option (\<lambda>(switched, s). (switched, if switched then s else s\<lparr>seg_ds := ucast (ld32 (vmem s) esp)\<rparr>))
           (irq_handler call_timer call_keyboard dev (ld32 m esp) (s\<lparr>seg_ds := 0x10, vmem := m\<rparr>)))"

text \<open>Exceptions: for some the processor has pushed an error code, for the others the stub pushes 0.\<close>

definition isr_stub :: "device \<Rightarrow> u32 \<Rightarrow> u32 \<Rightarrow> regs \<Rightarrow> 'a tables_state_scheme \<Rightarrow> 'a tables_state_scheme option" where
  "isr_stub dev n err_code r s =
     (let (esp, m) = common_stub r (seg_ds s) (pushl n (pushl err_code (r_esp (cpu s), vmem s)))
      in map_option (\<lambda>s. s\<lparr>seg_ds := ucast (ld32 (vmem s) esp)\<rparr>)
           (isr_handler dev (ld32 m esp) (ld32 m (esp + 4)) (s\<lparr>seg_ds := 0x10, vmem := m\<rparr>)))"

section \<open>The floating point unit\<close>

definition cpu_init_fpu :: "device \<Rightarrow> 'a tables_state_scheme \<Rightarrow> 'a tables_state_scheme option" where
  "cpu_init_fpu dev s =
     (let v = cr0 s OR push_bit 1 1;
          v = v AND NOT (push_bit 2 1);
          v = v OR push_bit 5 1;
          s = s\<lparr>cr0 := v\<rparr>;
          s = s\<lparr>cr4 := cr4 s OR push_bit 9 1 OR push_bit 10 1\<rparr>
      in kprintf dev (str ''FPU and SSE support enabled'' @ [NEWLINE]) [] s)"

section \<open>Decoding the tables\<close>

definition gdt_base :: "gdt_entry \<Rightarrow> u32" where
  "gdt_base e = ucast (g_base_low e) OR push_bit 16 (ucast (g_base_middle e)) OR push_bit 24 (ucast (g_base_high e))"

definition gdt_limit :: "gdt_entry \<Rightarrow> u32" where
  "gdt_limit e = ucast (g_limit_low e) OR push_bit 16 (ucast (g_granularity e AND 0x0F))"

definition gate_base :: "idt_entry \<Rightarrow> u32" where
  "gate_base e = ucast (base_low e) OR push_bit 16 (ucast (base_high e))"

lemma mask_word: "(0xFFFF :: u32) = mask 16" "(0xFF :: u32) = mask 8" "(0x0F :: u32) = mask 4" "(0x0F :: u8) = mask 4" "(0xF0 :: u8) = push_bit 4 (mask 4)"
  by (simp_all add: mask_eq_exp_minus_1 push_bit_eq_mult)

lemma gate_base_halves: "ucast (ucast (b AND 0xFFFF :: u32) :: u16) OR push_bit 16 (ucast (ucast (drop_bit 16 b AND 0xFFFF) :: u16)) = b"
  unfolding mask_word(1) by (rule bit_word_eqI) (auto simp: bit_simps)

lemma idt_set_gate_idt:
  "idt (idt_set_gate n b sel fl s) = (idt s)[unat n := \<lparr>base_low = ucast (b AND 0xFFFF), selector = sel, always0 = 0,
     flags = fl OR IDT_FLAG_PRESENT, base_high = ucast (drop_bit 16 b AND 0xFFFF)\<rparr>]"
  by (simp add: idt_set_gate_def)

text \<open>What a gate for \<open>base\<close> looks like.\<close>

definition is_gate :: "idt_entry \<Rightarrow> u32 \<Rightarrow> u8 \<Rightarrow> bool" where
  "is_gate e base fl \<longleftrightarrow> gate_base e = base \<and> selector e = 0x08 \<and> always0 e = 0 \<and> flags e = fl OR IDT_FLAG_PRESENT"

lemma set_gates:
  assumes "k + n \<le> 256" and "length (idt s) = 256"
  shows "length (idt (fold (\<lambda>i. idt_set_gate (word_of_nat (k + i)) (f i) 0x08 (g i)) [0..<n] s)) = 256 \<and>
    (\<forall>i < n. is_gate (idt (fold (\<lambda>i. idt_set_gate (word_of_nat (k + i)) (f i) 0x08 (g i)) [0..<n] s) ! (k + i)) (f i) (g i)) \<and>
    (\<forall>j < 256. j < k \<or> k + n \<le> j \<longrightarrow> idt (fold (\<lambda>i. idt_set_gate (word_of_nat (k + i)) (f i) 0x08 (g i)) [0..<n] s) ! j = idt s ! j)"
  using assms(1)
proof (induction n)
  case (Suc n)
  have u: "unat (word_of_nat (k + n) :: u8) = k + n" using Suc.prems by (simp add: unat_of_nat del: of_nat_add)
  show ?case using Suc u gate_base_halves [of "f n"]
    by (auto simp: idt_set_gate_idt nth_list_update is_gate_def gate_base_def less_Suc_eq simp del: of_nat_add)
qed (simp add: assms(2))

text \<open>A selector that refers to a present ring 0 code segment over all of memory.\<close>

definition flat_code_segment :: "gdt_entry list \<Rightarrow> u16 \<Rightarrow> bool" where
  "flat_code_segment g sel \<longleftrightarrow> (let e = g ! unat (drop_bit 3 sel) in
     unat (drop_bit 3 sel) < length g \<and> gdt_base e = 0 \<and> gdt_limit e = 0xFFFFF \<and> bit (g_granularity e) 7 \<and>
     g_access e = 0x9A)"

lemma gdt_init_gdt:
  assumes "length (gdt s) = GDT_ENTRIES"
  shows "flat_code_segment (gdt (gdt_init s)) 0x08" "length (gdt (gdt_init s)) = GDT_ENTRIES" "seg_cs (gdt_init s) = 0x08" "seg_ds (gdt_init s) = 0x10"
proof -
  obtain e0 e1 e2 e3 e4 where "gdt s = [e0, e1, e2, e3, e4]" using assms by (auto simp: length_Suc_conv numeral_eq_Suc)
  then show "flat_code_segment (gdt (gdt_init s)) 0x08" "length (gdt (gdt_init s)) = GDT_ENTRIES" "seg_cs (gdt_init s) = 0x08" "seg_ds (gdt_init s) = 0x10"
    by (simp_all add: gdt_init_def gdt_set_gate_def gdt_flush_def flat_code_segment_def gdt_base_def gdt_limit_def drop_bit_eq_div
      push_bit_eq_mult bit_iff_odd_drop_bit)
qed

text \<open>The number that the C handlers see.\<close>

lemma common_stub_args:
  assumes "common_stub r sel st = (esp, m)"
  shows "ld32 m esp = (eax r AND 0xFFFF0000) OR ucast sel" "ld32 m (esp + 4) = edi r"
  using assms by (auto simp: common_stub_def push_ds_def pusha_def pushl_def Let_def split_beta ld32_st32_other)

lemma ucast_diff: "(ucast (a - b :: u32) :: u8) = ucast a - ucast b"
proof -
  have "take_bit 8 (take_bit 32 x - take_bit 32 y) = take_bit 8 (x - y)" for x y :: int
    using take_bit_diff [of 8 "take_bit 32 x" "take_bit 32 y"] take_bit_diff [of 8 x y] by simp
  then show ?thesis by transfer simp
qed

lemma ucast_stub: "(ucast (e AND 0xFFFF0000 OR 0x10 :: u32) :: u16) = 0x10" "(ucast (e AND 0xFFFF0000 OR 0x10 :: u32) :: u8) = 0x10"
proof -
  have m: "(0xFFFF0000 :: u32) = push_bit 16 (mask 16)" by (simp add: mask_eq_exp_minus_1 push_bit_eq_mult)
  have "bit (0x10 :: u32) n \<longleftrightarrow> n = 4" "bit (0x10 :: u16) n \<longleftrightarrow> n = 4" "bit (0x10 :: u8) n \<longleftrightarrow> n = 4" for n
    using bit_push_bit_iff [of 4 "1 :: u32" n] bit_push_bit_iff [of 4 "1 :: u16" n] bit_push_bit_iff [of 4 "1 :: u8" n]
    by (auto simp: push_bit_eq_mult bit_1_iff)
  then show "(ucast (e AND 0xFFFF0000 OR 0x10 :: u32) :: u16) = 0x10" "(ucast (e AND 0xFFFF0000 OR 0x10 :: u32) :: u8) = 0x10"
    unfolding m by (intro bit_word_eqI; auto simp: bit_simps)+
qed

lemma stub_irq: "(ucast ((e AND 0xFFFF0000 OR 0x10) - 32 :: u32) :: u8) = 0xF0"
  unfolding ucast_diff ucast_stub by simp

lemma idt_gates_frame [simp]:
  "gdt (fold (\<lambda>i. idt_set_gate (a i) (b i) c (d i)) xs s) = gdt s" "seg_cs (fold (\<lambda>i. idt_set_gate (a i) (b i) c (d i)) xs s) = seg_cs s"
  "gdt (idt_set_gate n x sel fl s) = gdt s" "seg_cs (idt_set_gate n x sel fl s) = seg_cs s"
  by (induction xs arbitrary: s) (simp_all add: idt_set_gate_def)

definition tables_example :: tables_state where
  "tables_example = fs_state.extend fs_example (tables_state.fields
     (replicate 5 \<lparr>g_limit_low = 0, g_base_low = 0, g_base_middle = 0, g_access = 0, g_granularity = 0, g_base_high = 0\<rparr>) 0x110000
     \<lparr>tp_limit = 0, tp_base = 0\<rparr> 0 0 [] 0x111000 \<lparr>tp_limit = 0, tp_base = 0\<rparr> 0)"

section \<open>Properties\<close>

text \<open>C29: after \<open>gdt_init\<close> and \<open>idt_init\<close> every vector that the kernel uses has a present gate to its entry point, of the
  right kind and privilege; the system call gate alone is open to user mode; all other gates are absent;
  and the code selector in the gates refers to the flat ring 0 code segment, which is also loaded.\<close>

theorem descriptor_tables_correct:
  assumes "length (gdt s) = GDT_ENTRIES" and "t = idt_init isr irq syscall_entry (gdt_init s)"
  shows "(\<forall>i < 32. is_gate (idt t ! i) (isr i) (if i = 3 \<or> i = 4 then IDT_GATE_32BIT_TRAP else IDT_GATE_32BIT_INT)) \<and>
    (\<forall>i < 16. is_gate (idt t ! (32 + i)) (irq i) IDT_GATE_32BIT_INT) \<and>
    is_gate (idt t ! 0x80) syscall_entry (IDT_GATE_32BIT_INT OR IDT_FLAG_RING3) \<and>
    (\<forall>j < 256. 48 \<le> j \<and> j \<noteq> 0x80 \<longrightarrow> flags (idt t ! j) = 0) \<and>
    flat_code_segment (gdt t) 0x08 \<and> seg_cs t = 0x08 \<and> tp_base (idtr t) = idt_addr s \<and> tp_limit (idtr t) = 2047"
proof -
  define s1 where "s1 = (gdt_init s)\<lparr>idt := replicate IDT_ENTRIES \<lparr>base_low = 0, selector = 0, always0 = 0, flags = 0, base_high = 0\<rparr>\<rparr>"
  define s2 where "s2 = fold (\<lambda>i. idt_set_gate (word_of_nat (0 + i)) (isr i) 0x08
    (if i = 3 \<or> i = 4 then IDT_GATE_32BIT_TRAP else IDT_GATE_32BIT_INT)) [0..<32] s1"
  define s3 where "s3 = idt_set_gate 0x80 syscall_entry 0x08 (IDT_GATE_32BIT_INT OR IDT_FLAG_RING3) s2"
  define s4 where "s4 = fold (\<lambda>i. idt_set_gate (word_of_nat (32 + i)) (irq i) 0x08 IDT_GATE_32BIT_INT) [0..<16] s3"
  have t: "t = s4\<lparr>idtr := \<lparr>tp_limit = 2047, tp_base = idt_addr (gdt_init s)\<rparr>\<rparr>"
    unfolding assms(2) idt_init_def Let_def s4_def s3_def s2_def s1_def idt_flush_def by simp
  have g2: "length (idt s2) = 256" "\<forall>i < 32. is_gate (idt s2 ! i) (isr i) (if i = 3 \<or> i = 4 then IDT_GATE_32BIT_TRAP else IDT_GATE_32BIT_INT)"
      "\<forall>j < 256. 32 \<le> j \<longrightarrow> idt s2 ! j = idt s1 ! j"
    using set_gates [of 0 32 s1 isr "\<lambda>i. if i = 3 \<or> i = 4 then IDT_GATE_32BIT_TRAP else IDT_GATE_32BIT_INT"]
    unfolding s2_def [symmetric] by (simp_all add: s1_def)
  have g3: "idt s3 = (idt s2)[0x80 := idt s3 ! 0x80]" "is_gate (idt s3 ! 0x80) syscall_entry (IDT_GATE_32BIT_INT OR IDT_FLAG_RING3)" "length (idt s3) = 256"
    using g2(1) gate_base_halves [of syscall_entry] by (simp_all add: s3_def idt_set_gate_idt is_gate_def gate_base_def)
  have g4: "\<forall>i < 16. is_gate (idt s4 ! (32 + i)) (irq i) IDT_GATE_32BIT_INT" "\<forall>j < 256. j < 32 \<or> 48 \<le> j \<longrightarrow> idt s4 ! j = idt s3 ! j"
    using set_gates [of 32 16 s3 irq "\<lambda>_. IDT_GATE_32BIT_INT"] g3(3) unfolding s4_def [symmetric] by simp_all
  have e3: "idt s3 ! j = idt s2 ! j" if "j \<noteq> 0x80" for j using g3(1) that by (metis nth_list_update_neq)
  have fx: "gdt s4 = gdt (gdt_init s)" "seg_cs s4 = seg_cs (gdt_init s)" "idt_addr (gdt_init s) = idt_addr s"
    by (simp_all add: s4_def s3_def s2_def s1_def idt_gates_frame gdt_init_def gdt_set_gate_def gdt_flush_def)
  have "flags (idt s4 ! j) = 0" if "j < 256" "48 \<le> j" "j \<noteq> 0x80" for j
    using that g4(2) e3 g2(3) by (simp add: s1_def)
  then show ?thesis using g2(2) g3(2) g4 e3 gdt_init_gdt [OF assms(1)] by (simp add: t fx)
qed

theorem descriptor_tables_correct_witness:
  "gate_base (idt (idt_init (\<lambda>i. 0x100000 + word_of_nat i) (\<lambda>_. 0x100100) 0x100200 (gdt_init tables_example)) ! 14) = 0x10000E"
  using descriptor_tables_correct [of tables_example _ "\<lambda>i. 0x100000 + word_of_nat i" "\<lambda>_. 0x100100" "0x100200", OF _ refl]
  by (auto simp: is_gate_def tables_example_def tables_state.defs fs_state.defs)

text \<open>C30: the stub passes to \<open>irq_handler\<close> not the number of the interrupt but the word it pushed last, the
  data segment. With the kernel's data segment loaded no device interrupt reaches its handler: whatever the interrupt,
  the tick counter, the tasks and the key buffer stay as they are, and only the end of interrupt is sent to both controllers.\<close>

theorem irq_stub_misdispatch:
  assumes "seg_ds s = 0x10"
  shows "\<exists>m. irq_stub call_timer call_keyboard dev n r s =
    Some (False, s\<lparr>vmem := m, io_trace := Out PIC1_COMMAND PIC_EOI # Out PIC2_COMMAND PIC_EOI # io_trace s\<rparr>)"
proof -
  obtain esp m where st: "common_stub r (seg_ds s) (pushl n (pushl 0 (r_esp (cpu s), vmem s))) = (esp, m)" by fastforce
  have a: "ld32 m esp = (eax r AND 0xFFFF0000) OR 0x10" using common_stub_args(1) [OF st] assms by simp
  have "irq_handler call_timer call_keyboard dev (ld32 m esp) (s\<lparr>seg_ds := 0x10, vmem := m\<rparr>) =
      Some (False, s\<lparr>seg_ds := 0x10, vmem := m, io_trace := Out PIC1_COMMAND PIC_EOI # Out PIC2_COMMAND PIC_EOI # io_trace s\<rparr>)"
    unfolding a irq_handler_def stub_irq by (simp add: pic_send_eoi_def outb_def)
  moreover have eq: "s\<lparr>vmem := m, io_trace := t, seg_ds := 0x10\<rparr> = s\<lparr>vmem := m, io_trace := t\<rparr>" for t
    using assms by (intro tables_state.equality) simp_all
  ultimately show ?thesis using assms a st ucast_stub(1) [of "eax r"] unfolding irq_stub_def
    by (intro exI [of _ m]) (simp add: eq)
qed

theorem irq_stub_misdispatch_witness:
  "\<exists>m. irq_stub (\<lambda>_ s. s) (\<lambda>_ _ _ s. s) (\<lambda>_ _. 0xFF) 32 \<lparr>eax = 1, ecx = 0, edx = 0, ebx = 0, ebp = 0, esi = 0, edi = 0\<rparr>
      (gdt_init tables_example) =
    Some (False, (gdt_init tables_example)\<lparr>vmem := m, io_trace := Out 0x20 0x20 # Out 0xA0 0x20 # io_trace (gdt_init tables_example)\<rparr>)"
  by (rule irq_stub_misdispatch) (simp add: gdt_init_def gdt_flush_def)

end
