(* ===== verification/Graphics.thy ===== *)
theory Graphics
  imports Interrupts
begin

text \<open>
  The graphics driver of \<^verbatim>\<open>src/kernel/drivers/graphics.c\<close> with the font of \<^verbatim>\<open>src/kernel/lib/font.c\<close>,
  and the panic screen of \<^verbatim>\<open>src/kernel/lib/panic.c\<close>. The frame buffer is byte memory from the address
  that the boot loader or the PCI bus reports; the devices behind the ports are parameters, one for
  each width of access. Variables of type \<^verbatim>\<open>int\<close> are integers: their overflow is undefined in C.
\<close>

section \<open>State and set-up\<close>

record graphics_state = tables_state +
  framebuffer :: u32
  screen_width :: int
  screen_height :: int
  screen_bpp :: int

abbreviation (input) BGA_INDEX_PORT :: u16 where "BGA_INDEX_PORT \<equiv> 0x01CE"
abbreviation (input) BGA_DATA_PORT :: u16 where "BGA_DATA_PORT \<equiv> 0x01CF"
abbreviation (input) BGA_INDEX_ID :: u16 where "BGA_INDEX_ID \<equiv> 0x0"
abbreviation (input) BGA_INDEX_XRES :: u16 where "BGA_INDEX_XRES \<equiv> 0x1"
abbreviation (input) BGA_INDEX_YRES :: u16 where "BGA_INDEX_YRES \<equiv> 0x2"
abbreviation (input) BGA_INDEX_BPP :: u16 where "BGA_INDEX_BPP \<equiv> 0x3"
abbreviation (input) BGA_INDEX_ENABLE :: u16 where "BGA_INDEX_ENABLE \<equiv> 0x4"
abbreviation (input) BGA_DISABLED :: u16 where "BGA_DISABLED \<equiv> 0x00"
abbreviation (input) BGA_ENABLED :: u16 where "BGA_ENABLED \<equiv> 0x01"
abbreviation (input) BGA_LFB_ENABLED :: u16 where "BGA_LFB_ENABLED \<equiv> 0x40"

definition pci_config_read :: "ldevice \<Rightarrow> u8 \<Rightarrow> u8 \<Rightarrow> u8 \<Rightarrow> u8 \<Rightarrow> io \<Rightarrow> u32 \<times> io" where
  "pci_config_read devl bus device func offset t =
     (let address = push_bit 31 1 OR push_bit 16 (ucast bus) OR push_bit 11 (ucast device) OR
            push_bit 8 (ucast func) OR (ucast offset AND 0xFC)
      in pci_inl devl 0xCFC (pci_outl 0xCF8 address t))"

text \<open>The eight hexadecimal digits of a word, the way both functions print an address.\<close>

definition put_nibbles :: "device \<Rightarrow> u32 \<Rightarrow> io \<Rightarrow> io option" where
  "put_nibbles dev v =
     serial_put_all dev (map (\<lambda>i. let nibble = drop_bit i v AND 0xF
        in if nibble < 10 then of_char CHR ''0'' + ucast nibble else of_char CHR ''A'' + ucast nibble - 10)
      [28, 24, 20, 16, 12, 8, 4, 0])"

text \<open>The search over buses and devices, over the list of the pairs that are left.\<close>

fun find_bga_loop :: "device \<Rightarrow> ldevice \<Rightarrow> (u8 \<times> u8) list \<Rightarrow> io \<Rightarrow> (u32 \<times> io) option" where
  "find_bga_loop dev devl [] t = Some (0xE0000000, t)"
| "find_bga_loop dev devl ((bus, slot) # rest) t =
     (let (id, t) = pci_config_read devl bus slot 0 0 t;
          vendor = ucast (id AND 0xFFFF) :: u16;
          device = ucast (drop_bit 16 id AND 0xFFFF) :: u16
      in if vendor = 0x1234 \<and> device = 0x1111
         then let (bar0, t) = pci_config_read devl bus slot 0 0x10 t;
                  bar0 = bar0 AND NOT 0xF
              in do {
                t \<leftarrow> serial_puts dev (str ''Found Bochs VGA BAR0=0x'') t;
                t \<leftarrow> put_nibbles dev bar0 t;
                t \<leftarrow> serial_puts dev [NEWLINE] t;
                Some (bar0, t)
              }
         else find_bga_loop dev devl rest t)"

definition find_bga_framebuffer :: "device \<Rightarrow> ldevice \<Rightarrow> io \<Rightarrow> (u32 \<times> io) option" where
  "find_bga_framebuffer dev devl =
     find_bga_loop dev devl (concat (map (\<lambda>bus. map (\<lambda>slot. (word_of_nat bus, word_of_nat slot)) [0..<32]) [0..<8]))"

definition bga_write :: "u16 \<Rightarrow> u16 \<Rightarrow> io \<Rightarrow> io" where
  "bga_write index v t = outw BGA_DATA_PORT v (outw BGA_INDEX_PORT index t)"

definition bga_set_mode :: "int \<Rightarrow> int \<Rightarrow> int \<Rightarrow> io \<Rightarrow> io" where
  "bga_set_mode w h bpp t =
     (let t = bga_write BGA_INDEX_ENABLE BGA_DISABLED t;
          t = bga_write BGA_INDEX_XRES (word_of_int w) t;
          t = bga_write BGA_INDEX_YRES (word_of_int h) t;
          t = bga_write BGA_INDEX_BPP (word_of_int bpp) t
      in bga_write BGA_INDEX_ENABLE (BGA_ENABLED OR BGA_LFB_ENABLED) t)"

definition graphics_log :: "device \<Rightarrow> u8 list \<Rightarrow> 'a timer_state_scheme \<Rightarrow> 'a timer_state_scheme option" where
  "graphics_log dev msg s = map_option (\<lambda>t. s\<lparr>io_trace := t\<rparr>) (serial_puts dev msg (io_trace s))"

text \<open>Mapping the pages of the frame buffer to themselves and reporting its address.\<close>

definition map_framebuffer :: "device \<Rightarrow> 'a graphics_state_scheme \<Rightarrow> 'a graphics_state_scheme option" where
  "map_framebuffer dev s =
     (if framebuffer s = 0 then graphics_log dev (str ''ERROR: Framebuffer address is NULL'' @ [NEWLINE]) s
      else let fb_size = word_of_int (screen_width s) * word_of_int (screen_height s) * word_of_int (screen_bpp s div 8);
               num_pages = (fb_size + 0xFFF) div 0x1000 :: u32;
               s = fold (\<lambda>i s. let addr = framebuffer s + word_of_nat i * 0x1000
                              in paging_map_page addr addr (PAGE_PRESENT OR PAGE_WRITABLE) s) [0..<unat num_pages] s
           in do {
             s \<leftarrow> graphics_log dev (str ''FB=0x'') s;
             t \<leftarrow> put_nibbles dev (framebuffer s) (io_trace s);
             graphics_log dev [NEWLINE] (s\<lparr>io_trace := t\<rparr>)
           })"

definition graphics_init ::
  "device \<Rightarrow> wdevice \<Rightarrow> ldevice \<Rightarrow> multiboot_info option \<Rightarrow> 'a graphics_state_scheme \<Rightarrow> 'a graphics_state_scheme option" where
  "graphics_init dev devw devl mb_info s =
     (case mb_info of
        None \<Rightarrow> graphics_log dev (str ''ERROR: No Multiboot info provided to graphics_init'' @ [NEWLINE]) s
      | Some mb \<Rightarrow>
          if mb_flags mb AND push_bit 12 1 = 0
          then do {
            s \<leftarrow> graphics_log dev (str ''ERROR: No framebuffer info in Multiboot structure'' @ [NEWLINE]) s;
            let t = outw BGA_INDEX_PORT BGA_INDEX_ID (io_trace s);
            let (id, t) = inw devw BGA_DATA_PORT t;
            if id < 0xB0C0 \<or> 0xB0C5 < id then Some (s\<lparr>io_trace := t\<rparr>)
            else do {
              let s = s\<lparr>screen_width := 800, screen_height := 600, screen_bpp := 32\<rparr>;
              let t = bga_set_mode (screen_width s) (screen_height s) (screen_bpp s) t;
              (fb, t) \<leftarrow> find_bga_framebuffer dev devl t;
              map_framebuffer dev (s\<lparr>framebuffer := fb, io_trace := t\<rparr>)
            }
          }
          else do {
            let s = s\<lparr>framebuffer := framebuffer_addr_low mb, screen_width := sint (framebuffer_width mb),
                       screen_height := sint (framebuffer_height mb), screen_bpp := uint (framebuffer_bpp mb)\<rparr>;
            s \<leftarrow> graphics_log dev (str ''Multiboot Graphics initialized: '') s;
            map_framebuffer dev s
          })"

section \<open>Drawing\<close>

text \<open>\<^verbatim>\<open>&framebuffer[y * screen_width + x]\<close>.\<close>

definition pixel_addr :: "'a graphics_state_scheme \<Rightarrow> int \<Rightarrow> int \<Rightarrow> u32" where
  "pixel_addr s x y = framebuffer s + 4 * word_of_int (y * screen_width s + x)"

definition graphics_put_pixel :: "int \<Rightarrow> int \<Rightarrow> u32 \<Rightarrow> 'a graphics_state_scheme \<Rightarrow> 'a graphics_state_scheme" where
  "graphics_put_pixel x y color s =
     (if x < 0 \<or> screen_width s \<le> x \<or> y < 0 \<or> screen_height s \<le> y \<or> framebuffer s = 0 then s
      else s\<lparr>vmem := st32 (pixel_addr s x y) color (vmem s)\<rparr>)"

definition graphics_draw_rect ::
  "int \<Rightarrow> int \<Rightarrow> int \<Rightarrow> int \<Rightarrow> u32 \<Rightarrow> 'a graphics_state_scheme \<Rightarrow> 'a graphics_state_scheme" where
  "graphics_draw_rect x y w h color s =
     fold (\<lambda>j s. let py = y + j in if py < 0 \<or> screen_height s \<le> py then s
       else fold (\<lambda>i s. let px = x + i in if px < 0 \<or> screen_width s \<le> px then s
              else s\<lparr>vmem := st32 (pixel_addr s px py) color (vmem s)\<rparr>) [0..w - 1] s) [0..h - 1] s"

definition graphics_clear :: "u32 \<Rightarrow> 'a graphics_state_scheme \<Rightarrow> 'a graphics_state_scheme" where
  "graphics_clear color s =
     (if framebuffer s = 0 then s
      else let total = screen_width s * screen_height s
           in fold (\<lambda>i s. s\<lparr>vmem := st32 (framebuffer s + 4 * word_of_int i) color (vmem s)\<rparr>) [0..total - 1] s)"

text \<open>The font has glyphs for the characters of the boot messages; the others are blank.\<close>

definition font_glyphs :: "(char \<times> u8 list) list" where
  "font_glyphs =
    [(CHR ''A'', [0x18, 0x3C, 0x66, 0x7E, 0x66, 0x66, 0x66, 0x00]),
     (CHR ''B'', [0x7C, 0x66, 0x66, 0x7C, 0x66, 0x66, 0x7C, 0x00]),
     (CHR ''C'', [0x3C, 0x66, 0x06, 0x06, 0x06, 0x66, 0x3C, 0x00]),
     (CHR ''D'', [0x78, 0x6C, 0x66, 0x66, 0x66, 0x6C, 0x78, 0x00]),
     (CHR ''E'', [0x7E, 0x06, 0x06, 0x3E, 0x06, 0x06, 0x7E, 0x00]),
     (CHR ''r'', [0x00, 0x00, 0x66, 0x6E, 0x76, 0x66, 0x66, 0x00]),
     (CHR ''g'', [0x00, 0x00, 0x3E, 0x66, 0x66, 0x3E, 0x06, 0x3C]),
     (CHR ''O'', [0x3C, 0x66, 0x66, 0x66, 0x66, 0x66, 0x3C, 0x00]),
     (CHR ''S'', [0x3C, 0x66, 0x06, 0x3C, 0x60, 0x66, 0x3C, 0x00]),
     (CHR ''k'', [0x00, 0x66, 0x6C, 0x78, 0x78, 0x6C, 0x66, 0x00]),
     (CHR ''n'', [0x00, 0x00, 0x7C, 0x66, 0x66, 0x66, 0x66, 0x00]),
     (CHR ''v'', [0x00, 0x00, 0x66, 0x66, 0x66, 0x3C, 0x18, 0x00]),
     (CHR ''e'', [0x00, 0x00, 0x3C, 0x66, 0x7E, 0x06, 0x3C, 0x00]),
     (CHR ''l'', [0x0C, 0x0C, 0x0C, 0x0C, 0x0C, 0x0C, 0x0C, 0x00]),
     (CHR ''W'', [0x66, 0x66, 0x66, 0x7E, 0x7E, 0x66, 0x66, 0x00]),
     (CHR ''0'', [0x3C, 0x66, 0x6E, 0x7E, 0x76, 0x66, 0x3C, 0x00]),
     (CHR ''.'', [0x00, 0x00, 0x00, 0x00, 0x00, 0x18, 0x18, 0x00]),
     (CHR ''1'', [0x18, 0x18, 0x18, 0x18, 0x18, 0x18, 0x18, 0x00]),
     (CHR '':'', [0x00, 0x18, 0x18, 0x00, 0x18, 0x18, 0x00, 0x00]),
     (CHR '' '', [0x00, 0x00, 0x00, 0x00, 0x00, 0x00, 0x00, 0x00]),
     (CHR ''/'', [0x00, 0x60, 0x30, 0x18, 0x0C, 0x06, 0x00, 0x00]),
     (CHR ''('', [0x0C, 0x18, 0x30, 0x30, 0x30, 0x18, 0x0C, 0x00]),
     (CHR '')'', [0x30, 0x18, 0x0C, 0x0C, 0x0C, 0x18, 0x30, 0x00])]"

definition font8x8_basic :: "u8 \<Rightarrow> u8 list" where
  "font8x8_basic c = (case map_of (map (\<lambda>(ch, g). (of_char ch, g)) font_glyphs) c of Some g \<Rightarrow> g | None \<Rightarrow> replicate 8 0)"

definition graphics_draw_char :: "int \<Rightarrow> int \<Rightarrow> u8 \<Rightarrow> u32 \<Rightarrow> 'a graphics_state_scheme \<Rightarrow> 'a graphics_state_scheme" where
  "graphics_draw_char x y c color s =
     (if 128 \<le> c then s
      else fold (\<lambda>j. fold (\<lambda>i s. if font8x8_basic c ! j AND push_bit i 1 \<noteq> 0
             then graphics_put_pixel (x + int i) (y + int j) color s else s) [0..<8]) [0..<8] s)"

fun graphics_draw_string :: "int \<Rightarrow> int \<Rightarrow> u8 list \<Rightarrow> u32 \<Rightarrow> 'a graphics_state_scheme \<Rightarrow> 'a graphics_state_scheme" where
  "graphics_draw_string x y [] color s = s"
| "graphics_draw_string x y (c # cs) color s = graphics_draw_string (x + 8) y cs color (graphics_draw_char x y c color s)"

definition graphics_get_width :: "'a graphics_state_scheme \<Rightarrow> int" where
  "graphics_get_width s = screen_width s"

definition graphics_get_height :: "'a graphics_state_scheme \<Rightarrow> int" where
  "graphics_get_height s = screen_height s"

section \<open>Panic\<close>

abbreviation (input) COLOR_WHITE :: u32 where "COLOR_WHITE \<equiv> 0xFFFFFF"
abbreviation (input) COLOR_YELLOW :: u32 where "COLOR_YELLOW \<equiv> 0xFFFF00"

text \<open>The result is the state in which the processor halts for good, with interrupts off. The digits
  of the line are reversed in place before they are printed.\<close>

definition kpanic :: "device \<Rightarrow> u8 list \<Rightarrow> u8 list \<Rightarrow> u32 \<Rightarrow> 'a graphics_state_scheme \<Rightarrow> 'a graphics_state_scheme option" where
  "kpanic dev message fname line s =
     do {
       s \<leftarrow> graphics_log dev ([NEWLINE] @ str ''!!! KERNEL PANIC !!!'' @ [NEWLINE]) s;
       s \<leftarrow> graphics_log dev message s;
       s \<leftarrow> graphics_log dev ([NEWLINE] @ str ''At: '') s;
       s \<leftarrow> graphics_log dev fname s;
       s \<leftarrow> graphics_log dev (str '':'') s;
       line_buf \<leftarrow> (if line = 0 then Some [of_char CHR ''0''] else digits_loop dec_digit 10 line);
       s \<leftarrow> graphics_log dev (rev line_buf) s;
       s \<leftarrow> graphics_log dev ([NEWLINE] @ str ''System Halted.'' @ [NEWLINE]) s;
       let sw = graphics_get_width s;
       let sh = graphics_get_height s;
       let s = (if 0 < sw \<and> 0 < sh
                then let s = graphics_clear 0x880000 s;
                         s = graphics_draw_string 50 50 (str ''KERNEL PANIC'') COLOR_WHITE s;
                         s = graphics_draw_string 50 90 message COLOR_YELLOW s
                     in graphics_draw_string 50 130 fname COLOR_WHITE s
                else vga_puts message (vga_puts (str ''!!! KERNEL PANIC !!!'' @ [NEWLINE]) (vga_clear s)));
       Some (snd (disable_interrupts s))
     }"

section \<open>Pixels\<close>

definition pixel :: "'a graphics_state_scheme \<Rightarrow> int \<Rightarrow> int \<Rightarrow> u32" where
  "pixel s x y = ld32 (vmem s) (pixel_addr s x y)"

definition on_screen :: "'a graphics_state_scheme \<Rightarrow> int \<Rightarrow> int \<Rightarrow> bool" where
  "on_screen s x y \<longleftrightarrow> 0 \<le> x \<and> x < screen_width s \<and> 0 \<le> y \<and> y < screen_height s"

text \<open>A frame buffer of 32 bits for each pixel that fits in the address space, and the bytes it has.\<close>

definition fb_wf :: "'a graphics_state_scheme \<Rightarrow> bool" where
  "fb_wf s \<longleftrightarrow> framebuffer s \<noteq> 0 \<and> uint (framebuffer s) + 4 * screen_width s * screen_height s \<le> 2 ^ 32"

definition fb_bytes :: "'a graphics_state_scheme \<Rightarrow> u32 set" where
  "fb_bytes s = {a. uint (a - framebuffer s) < 4 * (screen_width s * screen_height s)}"

definition same_screen :: "'a graphics_state_scheme \<Rightarrow> 'a graphics_state_scheme \<Rightarrow> bool" where
  "same_screen s t \<longleftrightarrow> framebuffer t = framebuffer s \<and> screen_width t = screen_width s \<and> screen_height t = screen_height s"

lemma same_screen_simps:
  assumes "same_screen s t"
  shows "pixel_addr t = pixel_addr s" "on_screen t = on_screen s" "fb_wf t = fb_wf s" "fb_bytes t = fb_bytes s" "framebuffer t = framebuffer s"
  using assms by (auto simp: same_screen_def pixel_addr_def on_screen_def fb_wf_def fb_bytes_def fun_eq_iff)

lemma pixel_index:
  assumes "on_screen s x y"
  shows "0 \<le> y * screen_width s + x" "y * screen_width s + x < screen_width s * screen_height s"
proof -
  show "0 \<le> y * screen_width s + x" using assms by (simp add: on_screen_def)
  have "y * screen_width s + x < (y + 1) * screen_width s" using assms by (simp add: on_screen_def algebra_simps)
  also have "\<dots> \<le> screen_height s * screen_width s" using assms by (intro mult_right_mono) (auto simp: on_screen_def)
  finally show "y * screen_width s + x < screen_width s * screen_height s" by (simp add: mult.commute)
qed

lemma pixel_index_inj:
  assumes "on_screen s x y" and "on_screen s x' y'" and "y * screen_width s + x = y' * screen_width s + x'"
  shows "x = x' \<and> y = y'"
proof -
  have "(y * screen_width s + x) div screen_width s = y" "(y' * screen_width s + x') div screen_width s = y'"
    using assms(1,2) by (simp_all add: on_screen_def)
  then show ?thesis using assms(3) by auto
qed

lemma fb_index:
  assumes "fb_wf s" and "0 \<le> k" and "k < screen_width s * screen_height s"
  shows "uint (4 * word_of_int k :: u32) = 4 * k" "4 * k + 4 \<le> 2 ^ 32"
proof -
  have "uint (framebuffer s) \<ge> 0" by simp
  moreover have "uint (framebuffer s) + 4 * (screen_width s * screen_height s) \<le> 4294967296"
    using assms(1) by (simp add: fb_wf_def mult.assoc)
  moreover have "(2 :: int) ^ 32 = 4294967296" by simp
  ultimately show "4 * k + 4 \<le> 2 ^ 32" using assms(3) by linarith
  then have "4 * k < 2 ^ 32" "k < 2 ^ 32" using assms(2) by simp_all
  then show "uint (4 * word_of_int k :: u32) = 4 * k" using assms(2) by (simp add: uint_word_ariths uint_word_of_int)
qed

lemma uint_sub_ge: "uint b \<le> uint a \<Longrightarrow> uint (a - b :: u32) = uint a - uint b"
  by (metis word_le_def uint_minus_simple_alt)

text \<open>Pixels at different places do not share bytes.\<close>

lemma ld32_st32_index:
  fixes f :: u32
  assumes "0 \<le> k" "0 \<le> l" "4 * k + 4 \<le> 2 ^ 32" "4 * l + 4 \<le> 2 ^ 32" "k \<noteq> l"
  shows "ld32 (st32 (f + 4 * word_of_int k) c m) (f + 4 * word_of_int l) = ld32 m (f + 4 * word_of_int l)"
proof -
  have "f + 4 * word_of_int l - (f + 4 * word_of_int k) = (word_of_int (4 * (l - k)) :: u32)"
    "f + 4 * word_of_int k - (f + 4 * word_of_int l) = (word_of_int (4 * (k - l)) :: u32)" by simp_all
  moreover have "4 \<le> uint (word_of_int (4 * (i - j)) :: u32)"
    if "i \<noteq> j" "0 \<le> i" "0 \<le> j" "4 * i + 4 \<le> 2 ^ 32" "4 * j + 4 \<le> 2 ^ 32" for i j
  proof -
    have u: "uint (word_of_int n :: u32) = n mod 4294967296" for n by (simp add: uint_word_of_int)
    have b: "4 * i \<le> 4294967292" "4 * j \<le> 4294967292" using that by simp_all
    show ?thesis
    proof (cases "j < i")
      case True
      then have "4 * (i - j) mod 4294967296 = 4 * (i - j)" using b that by (intro mod_pos_pos_trivial) auto
      then show ?thesis unfolding u using True by simp
    next
      case False
      then have "(4 * (i - j) + 4294967296) mod 4294967296 = 4 * (i - j) + 4294967296" using b that by (intro mod_pos_pos_trivial) auto
      then have e: "4 * (i - j) mod 4294967296 = 4 * (i - j) + 4294967296" by simp
      show ?thesis unfolding u e using b(2) that(2) by simp
    qed
  qed
  ultimately have "4 \<le> unat (f + 4 * word_of_int l - (f + 4 * word_of_int k))" "4 \<le> unat (f + 4 * word_of_int k - (f + 4 * word_of_int l))"
    using assms unfolding unat_eq_nat_uint by (metis nat_le_eq_zle nat_numeral uint_ge_0)+
  then show ?thesis by (intro ld32_st32_other)
qed

text \<open>Every drawing operation is a sequence of pixels.\<close>

definition plot :: "(int \<times> int) list \<Rightarrow> u32 \<Rightarrow> 'a graphics_state_scheme \<Rightarrow> 'a graphics_state_scheme" where
  "plot ps c = fold (\<lambda>(x, y). graphics_put_pixel x y c) ps"

lemma put_pixel_same [simp]: "same_screen s t \<Longrightarrow> same_screen s (graphics_put_pixel x y c t)"
  by (simp add: graphics_put_pixel_def same_screen_def)

lemma plot_simps [simp]: "plot [] c s = s" "plot ((x, y) # ps) c s = plot ps c (graphics_put_pixel x y c s)"
  "plot (ps @ qs) c s = plot qs c (plot ps c s)"
  by (simp_all add: plot_def)

lemma plot_same: "same_screen s (plot ps c s)"
proof -
  have "same_screen s t \<Longrightarrow> same_screen s (plot ps c t)" for t by (induction ps arbitrary: t) auto
  then show ?thesis by (simp add: same_screen_def)
qed

lemma put_pixel_pixel:
  assumes "fb_wf s" and "on_screen s px py"
  shows "pixel (graphics_put_pixel x y c s) px py = (if px = x \<and> py = y then c else pixel s px py)"
proof (cases "on_screen s x y")
  case True
  then have e: "graphics_put_pixel x y c s = s\<lparr>vmem := st32 (pixel_addr s x y) c (vmem s)\<rparr>"
    using assms(1) by (auto simp: graphics_put_pixel_def on_screen_def fb_wf_def)
  have a: "pixel_addr (s\<lparr>vmem := m\<rparr>) = pixel_addr s" for m by (simp add: pixel_addr_def fun_eq_iff)
  show ?thesis
  proof (cases "px = x \<and> py = y")
    case False
    then have "y * screen_width s + x \<noteq> py * screen_width s + px" using pixel_index_inj True assms(2) by metis
    then have "ld32 (st32 (pixel_addr s x y) c (vmem s)) (pixel_addr s px py) = ld32 (vmem s) (pixel_addr s px py)"
      unfolding pixel_addr_def using pixel_index [OF True] pixel_index [OF assms(2)]
      by (intro ld32_st32_index fb_index(2) [OF assms(1)])
    then show ?thesis using False by (auto simp: e pixel_def a)
  qed (simp add: e pixel_def a)
next
  case False
  then have "graphics_put_pixel x y c s = s" by (auto simp: graphics_put_pixel_def on_screen_def)
  with False assms(2) show ?thesis by auto
qed

lemma put_pixel_outside:
  assumes "fb_wf s" and "a \<notin> fb_bytes s"
  shows "vmem (graphics_put_pixel x y c s) a = vmem s a"
proof (cases "on_screen s x y")
  case True
  define k where "k = y * screen_width s + x"
  note k = pixel_index [OF True, folded k_def]
  have u: "uint (4 * word_of_int k :: u32) = 4 * k" by (rule fb_index(1) [OF assms(1) k])
  have d: "4 * k + 4 \<le> uint (a - framebuffer s)" using assms(2) k by (simp add: fb_bytes_def)
  then have "uint (a - framebuffer s - 4 * word_of_int k) = uint (a - framebuffer s) - 4 * k" using u by (subst uint_sub_ge) auto
  then have "4 \<le> unat (a - pixel_addr s x y)" using d by (simp add: pixel_addr_def k_def diff_diff_eq unat_eq_nat_uint)
  then show ?thesis by (simp add: graphics_put_pixel_def st32_other)
qed (auto simp: graphics_put_pixel_def on_screen_def)

lemma plot_pixel:
  assumes "fb_wf s" and "on_screen s px py"
  shows "pixel (plot ps c s) px py = (if (px, py) \<in> set ps then c else pixel s px py)"
  using assms
proof (induction ps arbitrary: s)
  case (Cons p ps)
  obtain x y where p: "p = (x, y)" by (cases p)
  have "same_screen s (graphics_put_pixel x y c s)" by (rule put_pixel_same) (simp add: same_screen_def)
  then show ?case using Cons.IH [of "graphics_put_pixel x y c s"] Cons.prems put_pixel_pixel [OF Cons.prems, of x y c]
    by (auto simp: p same_screen_simps)
qed simp

lemma plot_outside: "fb_wf s \<Longrightarrow> a \<notin> fb_bytes s \<Longrightarrow> vmem (plot ps c s) a = vmem s a"
proof (induction ps arbitrary: s)
  case (Cons p ps)
  obtain x y where p: "p = (x, y)" by (cases p)
  have "same_screen s (graphics_put_pixel x y c s)" by (rule put_pixel_same) (simp add: same_screen_def)
  then show ?case using Cons.IH [of "graphics_put_pixel x y c s"] Cons.prems put_pixel_outside [OF Cons.prems, of x y c]
    by (simp add: p same_screen_simps)
qed simp

text \<open>The operations as plots.\<close>

lemma fold_inv_cong:
  assumes "\<And>i s. i \<in> set xs \<Longrightarrow> I s \<Longrightarrow> f i s = g i s \<and> I (g i s)" and "I s"
  shows "fold f xs s = fold g xs s"
  using assms by (induction xs arbitrary: s) auto

lemma fold_plot: "fold (\<lambda>j. plot (ps j) c) js s = plot (concat (map ps js)) c s"
  by (induction js arbitrary: s) auto

lemma draw_rect_plot:
  assumes "framebuffer s \<noteq> 0"
  shows "graphics_draw_rect x y w h c s = plot (concat (map (\<lambda>j. map (\<lambda>i. (x + i, y + j)) [0..w - 1]) [0..h - 1])) c s"
proof -
  have row: "fold (\<lambda>i s. let px = x + i in if px < 0 \<or> screen_width s \<le> px then s
      else s\<lparr>vmem := st32 (pixel_addr s px py) c (vmem s)\<rparr>) [0..w - 1] t = plot (map (\<lambda>i. (x + i, py)) [0..w - 1]) c t"
    if "0 \<le> py" "py < screen_height s" "same_screen s t" for py t
    unfolding plot_def fold_map comp_def prod.case
    by (rule fold_inv_cong [where I = "same_screen s"]) (use that assms in \<open>auto simp: graphics_put_pixel_def same_screen_def Let_def\<close>)
  have out: "plot (map (\<lambda>i. (x + i, py)) is) c t = t" if "py < 0 \<or> screen_height t \<le> py" for py t "is"
    by (induction "is") (use that in \<open>auto simp: graphics_put_pixel_def\<close>)
  show ?thesis
    unfolding graphics_draw_rect_def fold_plot [symmetric]
  proof (rule fold_inv_cong [where I = "same_screen s"])
    fix j t
    assume "same_screen s t"
    moreover have "same_screen t (plot (map (\<lambda>i. (x + i, y + j)) [0..w - 1]) c t)" by (rule plot_same)
    ultimately show "(let py = y + j in if py < 0 \<or> screen_height t \<le> py then t
       else fold (\<lambda>i s. let px = x + i in if px < 0 \<or> screen_width s \<le> px then s
              else s\<lparr>vmem := st32 (pixel_addr s px py) c (vmem s)\<rparr>) [0..w - 1] t) = plot (map (\<lambda>i. (x + i, y + j)) [0..w - 1]) c t \<and>
       same_screen s (plot (map (\<lambda>i. (x + i, y + j)) [0..w - 1]) c t)"
      using row [of "y + j" t] out [of "y + j" t] by (auto simp: Let_def same_screen_def)
  qed (simp add: same_screen_def)
qed

lemma clear_plot:
  assumes "framebuffer s \<noteq> 0" and "0 \<le> screen_width s"
  shows "graphics_clear c s =
    plot (map (\<lambda>i. (i mod screen_width s, i div screen_width s)) [0..screen_width s * screen_height s - 1]) c s"
proof -
  have "i div screen_width s < screen_height s" "0 < screen_width s" if "0 \<le> i" "i < screen_width s * screen_height s" for i
  proof -
    show w: "0 < screen_width s" using assms(2) that by (cases "screen_width s = 0") auto
    have "screen_height s * screen_width s \<le> i div screen_width s * screen_width s + i mod screen_width s" if "screen_height s \<le> i div screen_width s"
      using mult_right_mono [OF that, of "screen_width s"] pos_mod_sign [OF w, of i] w by linarith
    then show "i div screen_width s < screen_height s" using that(2) by (metis div_mult_mod_eq mult.commute not_le)
  qed
  then have g: "on_screen t (i mod screen_width s) (i div screen_width s)"
    if "same_screen s t" "0 \<le> i" "i < screen_width s * screen_height s" for i t
    using that by (simp add: on_screen_def same_screen_def pos_imp_zdiv_nonneg_iff)
  have a: "framebuffer t + 4 * word_of_int i = pixel_addr t (i mod screen_width s) (i div screen_width s)" if "same_screen s t" for i t
    using that unfolding pixel_addr_def same_screen_def by (simp add: div_mult_mod_eq del: of_int_add of_int_mult)
  have p: "t\<lparr>vmem := st32 (framebuffer t + 4 * word_of_int i) c (vmem t)\<rparr> = graphics_put_pixel (i mod screen_width s) (i div screen_width s) c t"
    if "same_screen s t" "0 \<le> i" "i < screen_width s * screen_height s" for i t
    using g [OF that] a [OF that(1), of i] that(1) assms(1) unfolding graphics_put_pixel_def on_screen_def same_screen_def by simp
  have "fold (\<lambda>i s. s\<lparr>vmem := st32 (framebuffer s + 4 * word_of_int i) c (vmem s)\<rparr>) [0..screen_width s * screen_height s - 1] s =
      fold (\<lambda>i. graphics_put_pixel (i mod screen_width s) (i div screen_width s) c) [0..screen_width s * screen_height s - 1] s"
    by (intro fold_inv_cong [where I = "same_screen s"]) (simp_all add: p, simp add: same_screen_def)
  then show ?thesis using assms(1) unfolding graphics_clear_def Let_def plot_def fold_map comp_def prod.case by simp
qed

lemma draw_char_plot:
  assumes "c < 128"
  shows "graphics_draw_char x y c col s =
    plot (concat (map (\<lambda>j. map (\<lambda>i. (x + int i, y + int j)) (filter (bit (font8x8_basic c ! j)) [0..<8])) [0..<8])) col s"
proof -
  have b: "w AND 2 ^ i = 0 \<longleftrightarrow> \<not> bit w i" for w :: u8 and i by (rule and_exp_eq_0_iff_not_bit)
  have f: "fold (\<lambda>i s. if font8x8_basic c ! j AND push_bit i 1 \<noteq> 0 then graphics_put_pixel (x + int i) (y + int j) col s else s) is t =
      plot (map (\<lambda>i. (x + int i, y + int j)) (filter (bit (font8x8_basic c ! j)) is)) col t" for j t "is"
    by (induction "is" arbitrary: t) (simp_all add: b)
  have "fold (\<lambda>j. fold (\<lambda>i s. if font8x8_basic c ! j AND push_bit i 1 \<noteq> 0 then graphics_put_pixel (x + int i) (y + int j) col s else s) [0..<8]) [0..<8] s =
      fold (\<lambda>j. plot (map (\<lambda>i. (x + int i, y + int j)) (filter (bit (font8x8_basic c ! j)) [0..<8])) col) [0..<8] s"
    by (rule arg_cong [where f = "\<lambda>g. fold g [0..<8] s"]) (intro ext f)
  then show ?thesis using assms unfolding graphics_draw_char_def fold_plot [symmetric] by (simp only: not_le [symmetric] if_False)
qed

lemma draw_string_outside:
  assumes "fb_wf s" and "a \<notin> fb_bytes s"
  shows "vmem (graphics_draw_string x y msg c s) a = vmem s a"
  using assms
proof (induction msg arbitrary: x s)
  case (Cons ch msg)
  have "same_screen s (graphics_draw_char x y ch c s) \<and> vmem (graphics_draw_char x y ch c s) a = vmem s a"
  proof (cases "ch < 128")
    case True
    then show ?thesis using Cons.prems by (simp add: draw_char_plot plot_same plot_outside)
  qed (simp add: graphics_draw_char_def same_screen_def)
  then show ?case using Cons by (simp add: same_screen_simps [of s "graphics_draw_char x y ch c s"])
qed simp

definition graphics_example :: graphics_state where
  "graphics_example = tables_state.extend tables_example (graphics_state.fields 0xE0000000 4 3 32)"

section \<open>Properties\<close>

text \<open>C28: drawing on a frame buffer that fits in memory sets exactly the pixels of the shape that are on the screen, a
  rectangle, the screen or the glyph of a character, and changes no byte outside the frame buffer.\<close>

theorem graphics_draw_correct:
  assumes "fb_wf s" and "on_screen s px py"
  shows "pixel (graphics_draw_rect x y w h c s) px py = (if px \<in> {x..<x + w} \<and> py \<in> {y..<y + h} then c else pixel s px py) \<and>
    pixel (graphics_clear c s) px py = c \<and>
    pixel (graphics_draw_char x y ch c s) px py =
      (if ch < 128 \<and> px \<in> {x..<x + 8} \<and> py \<in> {y..<y + 8} \<and> bit (font8x8_basic ch ! nat (py - y)) (nat (px - x)) then c
       else pixel s px py) \<and>
    (\<forall>a. a \<notin> fb_bytes s \<longrightarrow> vmem (graphics_draw_rect x y w h c s) a = vmem s a \<and> vmem (graphics_clear c s) a = vmem s a \<and>
       vmem (graphics_draw_string x y msg c s) a = vmem s a)"
proof (intro conjI allI impI)
  have f: "framebuffer s \<noteq> 0" "0 \<le> screen_width s" using assms by (auto simp: fb_wf_def on_screen_def)
  show "pixel (graphics_draw_rect x y w h c s) px py = (if px \<in> {x..<x + w} \<and> py \<in> {y..<y + h} then c else pixel s px py)"
  proof -
    have "(px, py) \<in> set (concat (map (\<lambda>j. map (\<lambda>i. (x + i, y + j)) [0..w - 1]) [0..h - 1])) \<longleftrightarrow> px - x \<in> {0..w - 1} \<and> py - y \<in> {0..h - 1}"
    proof -
      have "(\<exists>i \<in> {0..w - 1}. px = x + i) \<longleftrightarrow> px - x \<in> {0..w - 1}" "(\<exists>j \<in> {0..h - 1}. py = y + j) \<longleftrightarrow> py - y \<in> {0..h - 1}"
        by (auto intro: bexI [of _ "px - x"] bexI [of _ "py - y"])
      then show ?thesis by (auto simp: image_iff)
    qed
    then show ?thesis unfolding draw_rect_plot [OF f(1)] plot_pixel [OF assms] by auto
  qed
  have "(px, py) \<in> (\<lambda>i. (i mod screen_width s, i div screen_width s)) ` {0..screen_width s * screen_height s - 1}"
    using pixel_index [OF assms(2)] assms(2) by (intro image_eqI [of _ _ "py * screen_width s + px"]) (auto simp: on_screen_def)
  then show "pixel (graphics_clear c s) px py = c" unfolding clear_plot [OF f] plot_pixel [OF assms] by simp
  show "pixel (graphics_draw_char x y ch c s) px py =
      (if ch < 128 \<and> px \<in> {x..<x + 8} \<and> py \<in> {y..<y + 8} \<and> bit (font8x8_basic ch ! nat (py - y)) (nat (px - x)) then c
       else pixel s px py)"
  proof (cases "ch < 128")
    case True
    have "(\<exists>j < 8. \<exists>i < 8. bit (font8x8_basic ch ! j) i \<and> px = x + int i \<and> py = y + int j) \<longleftrightarrow>
        px \<in> {x..<x + 8} \<and> py \<in> {y..<y + 8} \<and> bit (font8x8_basic ch ! nat (py - y)) (nat (px - x))"
    proof -
      have "px = x + int i \<longleftrightarrow> x \<le> px \<and> i = nat (px - x)" "py = y + int j \<longleftrightarrow> y \<le> py \<and> j = nat (py - y)" for i j by auto
      then show ?thesis by auto
    qed
    then show ?thesis using True unfolding draw_char_plot [OF True] plot_pixel [OF assms] by (auto 0 3)
  qed (simp add: graphics_draw_char_def)
  fix a
  assume a: "a \<notin> fb_bytes s"
  show "vmem (graphics_draw_rect x y w h c s) a = vmem s a" "vmem (graphics_clear c s) a = vmem s a"
    unfolding draw_rect_plot [OF f(1)] clear_plot [OF f] using plot_outside assms(1) a by blast+
  show "vmem (graphics_draw_string x y msg c s) a = vmem s a" by (rule draw_string_outside [OF assms(1) a])
qed

theorem graphics_draw_correct_witness:
  "pixel (graphics_clear 7 graphics_example) 3 2 = 7 \<and>
   pixel (graphics_draw_rect 1 1 2 2 9 (graphics_clear 7 graphics_example)) 2 2 = 9"
proof -
  have w: "fb_wf graphics_example" "on_screen graphics_example 3 2" "on_screen graphics_example 2 2"
    by (simp_all add: graphics_example_def graphics_state.defs tables_state.defs fb_wf_def on_screen_def)
  have "same_screen graphics_example (graphics_clear 7 graphics_example)"
    using clear_plot [of graphics_example 7] plot_same w(1) by (simp add: graphics_example_def graphics_state.defs tables_state.defs)
  then show ?thesis using graphics_draw_correct [OF w(1,2), of _ _ _ _ 7]
      graphics_draw_correct [of "graphics_clear 7 graphics_example" 2 2 1 1 2 2 9] w by (simp add: same_screen_simps)
qed

end
