(* ===== verification/ELF.thy ===== *)
theory ELF
  imports FileSystem
begin

text \<open>
  The loader of executables: \<^verbatim>\<open>src/kernel/fs/elf_loader.c\<close> with the structures of \<^verbatim>\<open>src/include/elf.h\<close>.
  The headers are read from a file into memory and decoded there; segments are read to their
  virtual addresses. The header is a local variable: its address on the stack is the parameter \<open>ehdr\<close>.
\<close>

section \<open>Headers\<close>

record elf32_ehdr =
  e_ident :: "u8 list"
  e_type :: u16
  e_machine :: u16
  e_version :: u32
  e_entry :: u32
  e_phoff :: u32
  e_shoff :: u32
  e_flags :: u32
  e_ehsize :: u16
  e_phentsize :: u16
  e_phnum :: u16
  e_shentsize :: u16
  e_shnum :: u16
  e_shstrndx :: u16

record elf32_phdr =
  p_type :: u32
  p_offset :: u32
  p_vaddr :: u32
  p_paddr :: u32
  p_filesz :: u32
  p_memsz :: u32
  p_flags :: u32
  p_align :: u32

abbreviation (input) ELF_MAGIC :: u32 where "ELF_MAGIC \<equiv> 0x464C457F"
abbreviation (input) ET_EXEC :: u16 where "ET_EXEC \<equiv> 2"
abbreviation (input) EM_386 :: u16 where "EM_386 \<equiv> 3"
abbreviation (input) PT_LOAD :: u32 where "PT_LOAD \<equiv> 1"
abbreviation (input) sizeof_ehdr :: u32 where "sizeof_ehdr \<equiv> 52"
abbreviation (input) sizeof_phdr :: u32 where "sizeof_phdr \<equiv> 32"

definition ld_ehdr :: "mem \<Rightarrow> u32 \<Rightarrow> elf32_ehdr" where
  "ld_ehdr m p = \<lparr>e_ident = map (\<lambda>i. m (p + word_of_nat i)) [0..<16], e_type = ld16 m (p + 16), e_machine = ld16 m (p + 18),
     e_version = ld32 m (p + 20), e_entry = ld32 m (p + 24), e_phoff = ld32 m (p + 28), e_shoff = ld32 m (p + 32),
     e_flags = ld32 m (p + 36), e_ehsize = ld16 m (p + 40), e_phentsize = ld16 m (p + 42), e_phnum = ld16 m (p + 44),
     e_shentsize = ld16 m (p + 46), e_shnum = ld16 m (p + 48), e_shstrndx = ld16 m (p + 50)\<rparr>"

definition ld_phdr :: "mem \<Rightarrow> u32 \<Rightarrow> elf32_phdr" where
  "ld_phdr m p = \<lparr>p_type = ld32 m p, p_offset = ld32 m (p + 4), p_vaddr = ld32 m (p + 8), p_paddr = ld32 m (p + 12),
     p_filesz = ld32 m (p + 16), p_memsz = ld32 m (p + 20), p_flags = ld32 m (p + 24), p_align = ld32 m (p + 28)\<rparr>"

definition validate_elf_header :: "mem \<Rightarrow> u32 \<Rightarrow> int" where
  "validate_elf_header m ehdr =
     (let h = ld_ehdr m ehdr
      in if ld32 m ehdr \<noteq> ELF_MAGIC then - 1
         else if e_ident h ! 4 \<noteq> 1 then - 1
         else if e_ident h ! 5 \<noteq> 1 then - 1
         else if e_version h \<noteq> 1 then - 1
         else if e_machine h \<noteq> EM_386 then - 1
         else if e_type h \<noteq> ET_EXEC then - 1
         else 0)"

section \<open>Loading\<close>

text \<open>The pages of a segment; \<open>False\<close> when the frames run out.\<close>

fun elf_map_pages :: "u32 \<Rightarrow> nat list \<Rightarrow> 'a paging_state_scheme \<Rightarrow> bool \<times> 'a paging_state_scheme" where
  "elf_map_pages vaddr [] s = (True, s)"
| "elf_map_pages vaddr (j # js) s =
     (let (page, s) = pmm_alloc_page s
      in if page = 0 then (False, s)
         else elf_map_pages vaddr js
                (paging_map_page (vaddr + word_of_nat j * 4096) page (PAGE_PRESENT OR PAGE_WRITABLE OR PAGE_USER) s))"

text \<open>Leaving \<open>elf_load\<close> early, with a message.\<close>

definition elf_fail :: "device \<Rightarrow> string \<Rightarrow> int \<Rightarrow> u32 \<Rightarrow> 'a fs_state_scheme \<Rightarrow> 'a fs_state_scheme option" where
  "elf_fail dev msg fd phdrs s =
     do {
       s \<leftarrow> fs_log dev msg s;
       let s = (if phdrs = 0 then s else kfree phdrs s);
       Some (snd (fs_close fd s))
     }"

text \<open>One program header; the message of the error when the segment cannot be loaded. The header is in
  memory, which reading the segment may change.\<close>

definition elf_load_segment :: "int \<Rightarrow> u32 \<Rightarrow> 'a fs_state_scheme \<Rightarrow> string option \<times> 'a fs_state_scheme" where
  "elf_load_segment fd phdr s =
     (let h = ld_phdr (vmem s) phdr
      in if p_type h \<noteq> PT_LOAD then (None, s)
         else let pages = (p_memsz h + 4095) div 4096;
                  (ok, s) = elf_map_pages (p_vaddr h) [0..<unat pages] s
              in if \<not> ok then (Some ''elf_load: Out of memory'', s)
                 else let (_, s) = fs_seek fd (p_offset h) 0 s;
                          segment_data = p_vaddr h;
                          (bytes_read, s) = fs_read fd segment_data (p_filesz h) s;
                          h = ld_phdr (vmem s) phdr
                      in if bytes_read < 0 \<or> word_of_int bytes_read \<noteq> p_filesz h
                         then (Some ''elf_load: Error reading segment'', s)
                         else if p_filesz h < p_memsz h
                         then (None, s\<lparr>vmem := snd (memset (segment_data + p_filesz h) 0 (p_memsz h - p_filesz h) (vmem s))\<rparr>)
                         else (None, s))"

fun elf_load_segments :: "int \<Rightarrow> u32 \<Rightarrow> nat list \<Rightarrow> 'a fs_state_scheme \<Rightarrow> string option \<times> 'a fs_state_scheme" where
  "elf_load_segments fd phdrs [] s = (None, s)"
| "elf_load_segments fd phdrs (i # is) s =
     (case elf_load_segment fd (phdrs + word_of_nat i * sizeof_phdr) s of
        (Some msg, s) \<Rightarrow> (Some msg, s)
      | (None, s) \<Rightarrow> elf_load_segments fd phdrs is s)"

definition elf_log_entry :: "device \<Rightarrow> string \<Rightarrow> u32 \<Rightarrow> 'a timer_state_scheme \<Rightarrow> 'a timer_state_scheme option" where
  "elf_log_entry dev msg entry s =
     do {
       t \<leftarrow> serial_puts dev (str msg) (io_trace s);
       t \<leftarrow> serial_puthex dev entry t;
       t \<leftarrow> serial_puts dev [NEWLINE] t;
       Some (s\<lparr>io_trace := t\<rparr>)
     }"

text \<open>From the program headers on, with the header \<open>h\<close> valid. The local copy of the header is taken as it was read:
  a segment placed over the stack of the kernel would also change that copy, which is not represented.\<close>

definition elf_load_program :: "device \<Rightarrow> elf32_ehdr \<Rightarrow> int \<Rightarrow> 'a fs_state_scheme \<Rightarrow> 'a fs_state_scheme option" where
  "elf_load_program dev h fd s =
     do {
       let phdr_size = ucast (e_phnum h) * ucast (e_phentsize h);
       (phdrs, s) \<leftarrow> kmalloc phdr_size s;
       if phdrs = 0 then elf_fail dev ''elf_load: Out of memory for program headers'' fd 0 s
       else do {
         let (_, s) = fs_seek fd (e_phoff h) 0 s;
         let (bytes_read, s) = fs_read fd phdrs phdr_size s;
         if bytes_read < 0 \<or> word_of_int bytes_read \<noteq> phdr_size
         then elf_fail dev ''elf_load: Cannot read program headers'' fd phdrs s
         else case elf_load_segments fd phdrs [0..<unat (e_phnum h)] s of
             (Some msg, s) \<Rightarrow> elf_fail dev msg fd phdrs s
           | (None, s) \<Rightarrow>
               (let s = snd (fs_close fd (kfree phdrs s));
                    current = task_get_current s
                in if current \<noteq> 0
                   then elf_log_entry dev ''elf_load: Program loaded, entry point: 0x'' (e_entry h)
                          (upd_task current (\<lambda>t. t\<lparr>t_eip := e_entry h\<rparr>) s)
                   else Some s)
       }
     }"

text \<open>Every path ends with the result \<open>- 1\<close>.\<close>

definition elf_load :: "device \<Rightarrow> u32 \<Rightarrow> u8 list option \<Rightarrow> 'a fs_state_scheme \<Rightarrow> (int \<times> 'a fs_state_scheme) option" where
  "elf_load dev ehdr path s =
     do {
       (fd, s) \<leftarrow> fs_open path FS_MODE_READ s;
       if fd < 0 then do { s \<leftarrow> fs_log dev ''elf_load: Cannot open file'' s; Some (- 1, s) }
       else do {
         let (bytes_read, s) = fs_read fd ehdr sizeof_ehdr s;
         if bytes_read < 0 \<or> word_of_int bytes_read \<noteq> sizeof_ehdr
         then do { s \<leftarrow> elf_fail dev ''elf_load: Cannot read ELF header'' fd 0 s; Some (- 1, s) }
         else if validate_elf_header (vmem s) ehdr < 0
         then do { s \<leftarrow> elf_fail dev ''elf_load: Invalid ELF file'' fd 0 s; Some (- 1, s) }
         else do {
           let h = ld_ehdr (vmem s) ehdr;
           s \<leftarrow> fs_log dev ''elf_load: Valid ELF file found'' s;
           s \<leftarrow> elf_log_entry dev ''elf_load: Entry point: 0x'' (e_entry h) s;
           s \<leftarrow> elf_load_program dev h fd s;
           Some (- 1, s)
         }
       }
     }"

section \<open>Descriptors\<close>

abbreviation valid_fds :: "'a fs_state_scheme \<Rightarrow> bool list" where
  "valid_fds s \<equiv> map fd_valid (file_descriptors s)"

lemma valid_fds_update: "fd_valid f = fd_valid (fds ! i) \<Longrightarrow> map fd_valid (fds[i := f]) = map fd_valid fds"
  by (cases "i < length fds") (simp_all add: map_update list_update_same_conv list_update_beyond)

lemma more_fds: "paging_state.more t = paging_state.more s \<Longrightarrow> fs_view t = fs_view s \<and> vmem t = vmem s"
  using heap_fields_more(1,5) [of t s] more_fs_view [of t s] by simp

lemma elf_map_pages_more: "paging_state.more (snd (elf_map_pages va js s)) = paging_state.more s"
  by (induction va js s rule: elf_map_pages.induct) (auto simp: Let_def split_beta)

lemma seek_read_fds [simp]: "valid_fds (snd (fs_seek fd off w s)) = valid_fds s" "valid_fds (snd (fs_read fd b n s)) = valid_fds s"
  by (simp_all add: fs_seek_def fs_read_def Let_def upd_fd_def valid_fds_update)

lemma elf_load_segment_fds: "valid_fds (snd (elf_load_segment fd p s)) = valid_fds s"
proof -
  have "valid_fds (snd (elf_map_pages va js s)) = valid_fds s" for va js
    using more_fds [OF elf_map_pages_more [of va js s]] fs_view_eqD(5) by metis
  then show ?thesis
    using seek_read_fds(1) [of fd] seek_read_fds(2) [of fd]
    unfolding elf_load_segment_def Let_def split_beta by simp
qed

lemma elf_load_segments_fds: "valid_fds (snd (elf_load_segments fd p is s)) = valid_fds s"
proof (induction fd p "is" s rule: elf_load_segments.induct)
  case (2 fd p i "is" s)
  then show ?case using elf_load_segment_fds [of fd "p + word_of_nat i * 32" s] by (auto split: prod.splits option.splits)
qed simp

section \<open>Loading returns\<close>

lemma serial_put_all_ready: "serial_ready dev \<Longrightarrow> \<exists>t'. serial_put_all dev cs t = Some t'"
proof (induction cs arbitrary: t)
  case (Cons c cs)
  obtain t1 where "serial_putchar dev c t = Some t1" using serial_putchar_ready [OF Cons.prems] by blast
  then show ?case using Cons by simp
qed simp

lemma serial_puthex_ready:
  assumes "serial_ready dev"
  shows "\<exists>t'. serial_puthex dev n t = Some t'"
proof -
  obtain t1 where t1: "serial_puts dev (str ''0x'') t = Some t1" using serial_puts_ready [OF assms] by blast
  obtain ds where "digits_loop hex_digit 16 n = Some ds" using digits_loop_returns [of 16 hex_digit n] digit_chars(2) by auto
  then show ?thesis using t1 serial_put_all_ready [OF assms] serial_putchar_ready [OF assms] by (simp add: serial_puthex_def)
qed

lemma elf_log_entry_ready:
  assumes "serial_ready dev"
  shows "\<exists>t. elf_log_entry dev msg e s = Some (s\<lparr>io_trace := t\<rparr>)"
proof -
  obtain t1 where "serial_puts dev (str msg) (io_trace s) = Some t1" using serial_puts_ready [OF assms] by blast
  moreover obtain t2 where "serial_puthex dev e t1 = Some t2" using serial_puthex_ready [OF assms] by blast
  moreover obtain t3 where "serial_puts dev [NEWLINE] t2 = Some t3" using serial_puts_ready [OF assms] by blast
  ultimately show ?thesis by (auto simp: elf_log_entry_def simp del: serial_puts.simps)
qed

lemma kfree_fds [simp]: "file_descriptors (kfree p s) = file_descriptors s"
  by (simp add: kfree_def Let_def)

text \<open>An open descriptor at an index, and what closing it leaves of the table.\<close>

definition open_at :: "int \<Rightarrow> bool list \<Rightarrow> bool" where
  "open_at fd v \<longleftrightarrow> 0 \<le> fd \<and> fd < int MAX_FILE_DESCRIPTORS \<and> nat fd < length v \<and> v ! nat fd"

lemma close_fds: "open_at fd (valid_fds s) \<Longrightarrow> valid_fds (snd (fs_close fd s)) = (valid_fds s)[nat fd := False]"
  by (auto simp: open_at_def fs_close_def fd_ok_def map_update)

lemma elf_fail_returns:
  assumes "serial_ready dev" and "open_at fd (valid_fds s)"
  shows "\<exists>s'. elf_fail dev msg fd p s = Some s' \<and> valid_fds s' = (valid_fds s)[nat fd := False]"
proof -
  obtain t where t: "fs_log dev msg s = Some (s\<lparr>io_trace := t\<rparr>)" by (rule fs_log_ready [OF assms(1)])
  then show ?thesis using close_fds [of fd "s\<lparr>io_trace := t\<rparr>"] close_fds [of fd "kfree p (s\<lparr>io_trace := t\<rparr>)"] assms(2)
    by (simp add: elf_fail_def)
qed

lemma elf_load_program_returns:
  assumes dev: "serial_ready dev" and h: "heap_rel s bs" and fd: "open_at fd (valid_fds s)"
  shows "\<exists>s'. elf_load_program dev eh fd s = Some s' \<and> valid_fds s' = (valid_fds s)[nat fd := False]"
proof -
  define sz :: u32 where "sz = ucast (e_phnum eh) * ucast (e_phentsize eh)"
  obtain p s1 where k: "kmalloc sz s = Some (p, s1)" and m: "heap_state.more s1 = heap_state.more s" using kmalloc_total [OF h] by blast
  have v1: "valid_fds s1 = valid_fds s" using more_fs_view [OF m] fs_view_eqD(5) by metis
  define s3 where "s3 = snd (fs_read fd p sz (snd (fs_seek fd (e_phoff eh) 0 s1)))"
  have v3: "valid_fds s3 = valid_fds s" by (simp add: s3_def v1)
  obtain e s4 where l: "elf_load_segments fd p [0..<unat (e_phnum eh)] s3 = (e, s4)" by fastforce
  have v4: "valid_fds s4 = valid_fds s" using elf_load_segments_fds [of fd p _ s3] l v3 by (metis snd_conv)
  define s5 where "s5 = snd (fs_close fd (kfree p s4))"
  have v5: "valid_fds s5 = (valid_fds s)[nat fd := False]" using close_fds [of fd "kfree p s4"] fd v4 by (simp add: s5_def)
  note fail = elf_fail_returns [OF dev]
  have b: "elf_load_program dev eh fd s = (if p = 0 then elf_fail dev ''elf_load: Out of memory for program headers'' fd 0 s1
      else if fst (fs_read fd p sz (snd (fs_seek fd (e_phoff eh) 0 s1))) < 0 \<or> word_of_int (fst (fs_read fd p sz (snd (fs_seek fd (e_phoff eh) 0 s1)))) \<noteq> sz
      then elf_fail dev ''elf_load: Cannot read program headers'' fd p s3
      else case e of Some msg \<Rightarrow> elf_fail dev msg fd p s4
        | None \<Rightarrow> if current_task s5 \<noteq> 0 then elf_log_entry dev ''elf_load: Program loaded, entry point: 0x'' (e_entry eh)
                          (upd_task (current_task s5) (\<lambda>t. t\<lparr>t_eip := e_entry eh\<rparr>) s5)
                   else Some s5)"
    unfolding elf_load_program_def sz_def [symmetric] k s5_def Let_def task_get_current_def
    using l unfolding s3_def by (simp add: split_beta split: option.split)
  have f: "\<exists>s'. elf_fail dev msg fd q t = Some s' \<and> valid_fds s' = (valid_fds s)[nat fd := False]" if "valid_fds t = valid_fds s" for msg q t
    using fail [of fd t msg q] fd that by simp
  have "\<exists>s'. elf_log_entry dev ''elf_load: Program loaded, entry point: 0x'' (e_entry eh)
      (upd_task (current_task s5) (\<lambda>t. t\<lparr>t_eip := e_entry eh\<rparr>) s5) = Some s' \<and> valid_fds s' = (valid_fds s)[nat fd := False]"
    using elf_log_entry_ready [OF dev, of "''elf_load: Program loaded, entry point: 0x''" "e_entry eh"
        "upd_task (current_task s5) (\<lambda>t. t\<lparr>t_eip := e_entry eh\<rparr>) s5"] v5 by (auto simp: upd_task_def)
  then show ?thesis unfolding b using f [OF v1] f [OF v3] f [OF v4] v5 by (cases e) simp_all
qed

lemma client_buffer_shorter: "client_buffer s bs a n \<Longrightarrow> k \<le> n \<Longrightarrow> client_buffer s bs a k"
  by (fastforce simp: client_buffer_def)

text \<open>Opening for reading creates nothing.\<close>

lemma fs_open_read:
  assumes inv: "fs_inv s K bs"
  obtains (no) "fs_open path FS_MODE_READ s = Some (- 1, s)"
  | (yes) i p where "fs_open path FS_MODE_READ s = Some (int i, upd_fd i (\<lambda>_. new_fd s FS_MODE_READ p) s)" "p \<in> files s"
      "i < MAX_FILE_DESCRIPTORS" "\<not> fd_valid (file_descriptors s ! i)" "fs_inv (upd_fd i (\<lambda>_. new_fd s FS_MODE_READ p) s) K bs"
proof (cases "path = None \<or> \<not> fs_initialized s")
  case True
  then show ?thesis using no by (cases path) (auto simp: fs_open_def)
next
  case False
  then obtain pth where p: "path = Some pth" by auto
  obtain q where q: "fs_resolve_path path s = Some q" "q = 0 \<or> q \<in> nodes s" by (rule resolve_path_total [OF inv])
  have o: "fs_open path FS_MODE_READ s = Some (fs_open_node q FS_MODE_READ s)" using q(1) p False by (simp add: fs_open_def)
  show ?thesis
  proof (cases "q = 0")
    case True
    then show ?thesis using o no by (simp add: fs_open_node_def)
  next
    case False
    then have qn: "q \<in> nodes s" using q(2) by simp
    show ?thesis
    proof (cases "q \<in> files s \<and> free_fd s \<noteq> None")
      case True
      then obtain i where i: "free_fd s = Some i" by auto
      show ?thesis using yes [of i q] o i True fs_open_node_result [OF inv qn] by simp
    next
      case False
      then show ?thesis using o no fs_open_node_result(1) [OF inv qn, of FS_MODE_READ] by (auto split: if_splits)
    qed
  qed
qed

lemma ld_phdr_cong:
  assumes "\<And>i. i < 32 \<Longrightarrow> m' (p + word_of_nat i) = m (p + word_of_nat i)"
  shows "ld_phdr m' p = ld_phdr m p"
proof -
  have w: "ld32 m' (p + word_of_nat k) = ld32 m (p + word_of_nat k)" if "k + 3 < 32" for k
    using assms [of k] assms [of "k + 1"] assms [of "k + 2"] assms [of "k + 3"] that by (simp add: ld32_def ac_simps)
  show ?thesis using w [of 0] w [of 4] w [of 8] w [of 12] w [of 16] w [of 20] w [of 24] w [of 28] by (simp add: ld_phdr_def)
qed

lemma fill_after_copy:
  assumes "n \<le> k"
  shows "fill_bytes (va + n) 0 (unat (k - n)) (copy_bytes va src (unat n) m) a =
    (if unat (a - va) < unat n then m (src + (a - va)) else if unat (a - va) < unat k then 0 else m a)"
proof -
  have kn: "unat (k - n) = unat k - unat n" "unat n \<le> unat k" using assms by (simp_all add: unat_sub word_le_nat_alt)
  have d: "a - (va + n) = (a - va) - n" by simp
  show ?thesis
  proof (cases "unat (a - va) < unat n")
    case True
    then have "unat ((a - va) - n) = unat (a - va) + 4294967296 - unat n"
      by (simp add: unat_sub_if_size word_size)
    then have "\<not> unat (a - (va + n)) < unat (k - n)" using kn unat_u32_less [of k] unfolding d by linarith
    then show ?thesis using True by (simp add: fill_bytes_def copy_bytes_def)
  next
    case False
    then have "unat ((a - va) - n) = unat (a - va) - unat n" by (simp add: unat_sub word_le_nat_alt)
    then show ?thesis using False kn by (auto simp: fill_bytes_def copy_bytes_def d)
  qed
qed

section \<open>Properties\<close>




definition elf_example :: fs_state where
  "elf_example = fs_example\<lparr>bitmap := [0x0F], total_pages := 6, bitmap_size := 1, page_directory := replicate 1024 0,
     inodes := (inodes fs_example)(0x120000 := \<lparr>i_name = str ''a'', i_type = FS_TYPE_FILE, i_size = 4, i_data = 0x500000, i_valid = True,
        i_parent = 0, i_next = 0, i_num = 7\<rparr>),
     file_descriptors := [\<lparr>fd_inode = 7, fd_position = 0, fd_mode = 1, fd_size = 4, fd_valid = True\<rparr>],
     vmem := st32 0x90000 PT_LOAD (st32 0x90004 0 (st32 0x90008 0x8000000 (st32 0x90010 4 (st32 0x90014 6
       (\<lambda>a. if a = 0x500003 then 0x42 else 1)))))\<rparr>"


end
