(* ===== verification/Syscall.thy ===== *)
theory Syscall
  imports ELF Interrupts
begin

text \<open>
  System calls: \<^verbatim>\<open>src/kernel/task/syscall.c\<close> and the entry point of \<^verbatim>\<open>src/kernel/task/syscall.asm\<close>. A call
  may give the processor to another task; its result then comes when the task continues, which the
  first component of a result says. A call that waits for input for ever has the result \<open>None\<close>. What
  interrupts do while the processor is halted is the parameter \<open>intr\<close>.
\<close>

section \<open>Strings in memory\<close>

text \<open>The bytes up to the terminator.\<close>

partial_function (option) string_at :: "mem \<Rightarrow> u32 \<Rightarrow> u8 list option" where
  "string_at m a = (if m a = 0 then Some [] else Option.bind (string_at m (a + 1)) (\<lambda>cs. Some (m a # cs)))"

lemma cstr_string_at: "cstr m a cs \<Longrightarrow> string_at m a = Some cs"
proof (induction cs arbitrary: a)
  case Nil
  then show ?case by (simp add: string_at.simps)
next
  case (Cons c cs)
  then show ?case by (subst string_at.simps) simp
qed

section \<open>The calls\<close>

definition sys_exit :: "u32 \<Rightarrow> 'a console_state_scheme \<Rightarrow> (bool \<times> int \<times> 'a console_state_scheme) option" where
  "sys_exit exit_code s =
     do {
       let s = vga_puts (str ''Task exited with code: '') s;
       s \<leftarrow> vga_putdec exit_code s;
       let s = vga_puts [NEWLINE] s;
       (switched, s) \<leftarrow> task_exit s;
       Some (switched, 0, s)
     }"

definition sys_yield :: "'a task_state_scheme \<Rightarrow> (bool \<times> int \<times> 'a task_state_scheme) option" where
  "sys_yield s = map_option (\<lambda>(switched, s). (switched, 0, s)) (task_yield s)"

definition sys_sleep :: "u32 \<Rightarrow> 'a task_state_scheme \<Rightarrow> (bool \<times> int \<times> 'a task_state_scheme) option" where
  "sys_sleep milliseconds s = map_option (\<lambda>(switched, s). (switched, 0, s)) (task_sleep milliseconds s)"

text \<open>A descriptor is unsigned here and \<^verbatim>\<open>int\<close> in the file system.\<close>

definition sys_write :: "device \<Rightarrow> u32 \<Rightarrow> u32 \<Rightarrow> u32 \<Rightarrow> 'a fs_state_scheme \<Rightarrow> (int \<times> 'a fs_state_scheme) option" where
  "sys_write dev fd buf count s =
     (if buf = 0 \<or> count = 0 then Some (- 1, s)
      else if fd = 1 \<or> fd = 2
      then map_option (\<lambda>t. (sint count, s\<lparr>io_trace := t\<rparr>))
             (serial_put_all dev (bytes_at (vmem s) buf (unat count)) (io_trace s))
      else if 3 \<le> fd then Some (fs_write (sint fd) buf count s)
      else Some (- 1, s))"

partial_function (option) wait_for_data ::
  "device \<Rightarrow> ('a timer_state_scheme \<Rightarrow> 'a timer_state_scheme) \<Rightarrow> 'a timer_state_scheme \<Rightarrow> 'a timer_state_scheme option" where
  "wait_for_data dev intr s =
     (let (available, t) = serial_is_data_available dev (io_trace s);
          s = s\<lparr>io_trace := t\<rparr>
      in if available then Some s else wait_for_data dev intr (intr s))"

partial_function (option) read_line_loop ::
  "device \<Rightarrow> ('a timer_state_scheme \<Rightarrow> 'a timer_state_scheme) \<Rightarrow> u32 \<Rightarrow> u32 \<Rightarrow> u32 \<Rightarrow> 'a timer_state_scheme \<Rightarrow>
   (u32 \<times> 'a timer_state_scheme) option" where
  "read_line_loop dev intr buf count bytes_read s =
     (if bytes_read < count
      then Option.bind (wait_for_data dev intr s) (\<lambda>s.
             let (c, t) = serial_getchar dev (io_trace s);
                 s = s\<lparr>io_trace := t\<rparr>
             in if c = 0 then read_line_loop dev intr buf count bytes_read s
                else let s = s\<lparr>vmem := (vmem s)(buf + bytes_read := c)\<rparr>
                     in if c = NEWLINE \<or> c = CARRIAGE_RETURN then Some (bytes_read + 1, s)
                        else read_line_loop dev intr buf count (bytes_read + 1) s)
      else Some (bytes_read, s))"

definition sys_read ::
  "device \<Rightarrow> ('a fs_state_scheme \<Rightarrow> 'a fs_state_scheme) \<Rightarrow> u32 \<Rightarrow> u32 \<Rightarrow> u32 \<Rightarrow> 'a fs_state_scheme \<Rightarrow> (int \<times> 'a fs_state_scheme) option" where
  "sys_read dev intr fd buf count s =
     (if buf = 0 \<or> count = 0 then Some (- 1, s)
      else if fd = 0 then map_option (\<lambda>(n, s). (sint n, s)) (read_line_loop dev intr buf count 0 s)
      else if 3 \<le> fd then Some (fs_read (sint fd) buf count s)
      else Some (- 1, s))"

text \<open>The eleven words of \<^verbatim>\<open>struct task_context\<close>.\<close>

definition copy_frame :: "u32 \<Rightarrow> u32 \<Rightarrow> mem \<Rightarrow> mem" where
  "copy_frame child_stack parent_stack m =
     fold (\<lambda>i m. st32 (child_stack + 4 * word_of_nat i) (ld32 m (parent_stack + 4 * word_of_nat i)) m) [0..<11] m"

definition fork_link :: "u32 \<Rightarrow> 'a task_state_scheme \<Rightarrow> 'a task_state_scheme" where
  "fork_link child s =
     (let s = (if task_list s = 0 then upd_task child (\<lambda>t. t\<lparr>t_next := child\<rparr>) (s\<lparr>task_list := child\<rparr>)
               else upd_task (task_list s) (\<lambda>t. t\<lparr>t_next := child\<rparr>)
                      (upd_task child (\<lambda>t. t\<lparr>t_next := t_next (tasks s (task_list s))\<rparr>) s))
      in s\<lparr>task_count := task_count s + 1\<rparr>)"

definition sys_fork :: "'a task_state_scheme \<Rightarrow> (int \<times> 'a task_state_scheme) option" where
  "sys_fork s =
     (let parent = task_get_current s
      in if parent = 0 then Some (- 1, s)
         else if 256 \<le> task_count s then Some (- 1, s)
         else do {
           (child, s) \<leftarrow> kmalloc sizeof_task s;
           if child = 0 then Some (- 1, s)
           else do {
             let s = s\<lparr>tasks := (tasks s)(child := tasks s parent)\<rparr>;
             let s = upd_task child (\<lambda>t. t\<lparr>t_id := next_task_id s, t_state := TASK_READY\<rparr>) (s\<lparr>next_task_id := next_task_id s + 1\<rparr>);
             let (child_stack_top, s) = create_kernel_stack s;
             if child_stack_top = 0 then Some (- 1, kfree child s)
             else do {
               let child_stack = child_stack_top - 44;
               let m = copy_frame child_stack (t_esp (tasks s parent)) (vmem s);
               let s = s\<lparr>vmem := st32 (child_stack + 28) 0 m\<rparr>;
               let s = upd_task child (\<lambda>t. t\<lparr>t_esp := child_stack\<rparr>) s;
               let s = fork_link child s;
               Some (sint (t_id (tasks s child)), s)
             }
           }
         })"

definition sys_exec :: "device \<Rightarrow> u32 \<Rightarrow> u32 \<Rightarrow> 'a fs_state_scheme \<Rightarrow> (int \<times> 'a fs_state_scheme) option" where
  "sys_exec dev ehdr path_ptr s =
     (if path_ptr = 0 then Some (- 1, s)
      else do {
        path \<leftarrow> string_at (vmem s) path_ptr;
        (entry_point, s) \<leftarrow> elf_load dev ehdr (Some path) s;
        if entry_point < 0 then do { s \<leftarrow> fs_log dev ''sys_exec: Failed to load executable'' s; Some (- 1, s) }
        else do {
          let current = task_get_current s;
          if current = 0 then Some (- 1, s)
          else do {
            let s = upd_task current (\<lambda>t. t\<lparr>t_eip := word_of_int entry_point\<rparr>) s;
            s \<leftarrow> fs_log dev ''sys_exec: Program loaded successfully'' s;
            Some (0, s)
          }
        }
      })"

section \<open>Dispatch\<close>

text \<open>The table has seven entries; none of them reads the fourth argument.\<close>

definition syscall_handler ::
  "device \<Rightarrow> ('a fs_state_scheme \<Rightarrow> 'a fs_state_scheme) \<Rightarrow> u32 \<Rightarrow> u32 \<Rightarrow> u32 \<Rightarrow> u32 \<Rightarrow> u32 \<Rightarrow> u32 \<Rightarrow> 'a fs_state_scheme \<Rightarrow>
   (bool \<times> int \<times> 'a fs_state_scheme) option" where
  "syscall_handler dev intr ehdr syscall_num arg1 arg2 arg3 arg4 s =
     (let returns = map_option (\<lambda>(r, s). (False, r, s))
      in if 7 \<le> syscall_num then Some (False, - 1, s)
         else if syscall_num = 0 then sys_exit arg1 s
         else if syscall_num = 1 then sys_yield s
         else if syscall_num = 2 then sys_sleep arg1 s
         else if syscall_num = 3 then returns (sys_write dev arg1 arg2 arg3 s)
         else if syscall_num = 4 then returns (sys_read dev intr arg1 arg2 arg3 s)
         else if syscall_num = 5 then returns (sys_fork s)
         else returns (sys_exec dev ehdr arg1 s))"

text \<open>The registers that the entry point saves, below the stack pointer of the interrupted program. The
  handler's fifth parameter is the word above its four arguments, the saved \<^verbatim>\<open>eax\<close>. The registers are
  popped from memory after the call: also \<^verbatim>\<open>eax\<close>, in which the handler left its result.\<close>

definition syscall_save :: "regs \<Rightarrow> u32 \<times> mem \<Rightarrow> u32 \<times> mem" where
  "syscall_save r st =
     (let st = pushl (ebp r) (pushl (esi r) (pushl (edi r) st));
          st = pushl (fst st) st
      in pushl (eax r) (pushl (ecx r) (pushl (edx r) (pushl (ebx r) st))))"

definition syscall_restore :: "u32 \<Rightarrow> mem \<Rightarrow> regs" where
  "syscall_restore esp m =
     (let saved = ld32 m (esp + 16)
      in \<lparr>eax = ld32 m esp, ecx = ld32 m (esp + 4), edx = ld32 m (esp + 8), ebx = ld32 m (esp + 12),
          ebp = ld32 m saved, esi = ld32 m (saved + 4), edi = ld32 m (saved + 8)\<rparr>)"

definition syscall_entry ::
  "device \<Rightarrow> ('a tables_state_scheme \<Rightarrow> 'a tables_state_scheme) \<Rightarrow> u32 \<Rightarrow> regs \<Rightarrow> 'a tables_state_scheme \<Rightarrow>
   (bool \<times> regs \<times> 'a tables_state_scheme) option" where
  "syscall_entry dev intr ehdr r s =
     (let (esp, m) = syscall_save r (r_esp (cpu s), vmem s);
          m = snd (pushl (eax r) (pushl (ebx r) (pushl (ecx r) (pushl (edx r) (esp, m)))))
      in map_option (\<lambda>(switched, result, s). (switched, syscall_restore esp (vmem s), s))
           (syscall_handler dev intr ehdr (eax r) (ebx r) (ecx r) (edx r) (ld32 m esp) (s\<lparr>vmem := m\<rparr>)))"

section \<open>Saved registers\<close>

lemma pushl_pair: "pushl v st = (fst st - 4, st32 (fst st - 4) v (snd st))"
  by (simp add: pushl_def split_beta)

lemma ld32_frame:
  assumes "\<And>i. i < 32 \<Longrightarrow> m' (p + word_of_nat i) = m (p + word_of_nat i)" and "k \<in> {0, 4, 8, 12, 16, 20, 24, 28}"
  shows "ld32 m' (p + word_of_nat k) = ld32 m (p + word_of_nat k)"
  using assms(1) [of k] assms(1) [of "k + 1"] assms(1) [of "k + 2"] assms(1) [of "k + 3"] assms(2) by (auto simp: ld32_def ac_simps)

lemma syscall_frame:
  assumes "syscall_save r (sp, m) = (esp, m')"
  shows "esp = sp - 32" "syscall_restore esp m' = r" "ld32 m' (esp + 16) = esp + 20"
proof -
  show "esp = sp - 32" using assms by (auto simp: syscall_save_def pushl_pair Let_def)
  have w: "ld32 m' (esp + 16) = esp + 20" "ld32 m' esp = eax r" "ld32 m' (esp + 4) = ecx r" "ld32 m' (esp + 8) = edx r" "ld32 m' (esp + 12) = ebx r"
     "ld32 m' (esp + 20) = ebp r" "ld32 m' (esp + 24) = esi r" "ld32 m' (esp + 28) = edi r"
    using assms by (auto simp: syscall_save_def pushl_pair Let_def ld32_st32_other)
  then show "ld32 m' (esp + 16) = esp + 20" "syscall_restore esp m' = r" by (simp_all add: syscall_restore_def Let_def add.assoc)
qed

text \<open>The bytes sent to the serial port, oldest first.\<close>

fun serial_output :: "io \<Rightarrow> u8 list" where
  "serial_output [] = []"
| "serial_output (Out port v # t) = serial_output t @ (if port = serial_port then [v] else [])"
| "serial_output (_ # t) = serial_output t"

lemma serial_put_all_output:
  assumes "serial_ready dev"
  shows "\<exists>t'. serial_put_all dev cs t = Some t' \<and> serial_output t' = serial_output t @ cs"
proof (induction cs arbitrary: t)
  case (Cons c cs)
  have "serial_putchar dev c t = Some (Out serial_port c # In (serial_port + 5) (dev t (serial_port + 5)) # t)"
    unfolding serial_putchar_def using assms by (subst serial_wait_transmit.simps) (simp add: serial_ready_def inb_def outb_def)
  then show ?case using Cons [of "Out serial_port c # In (serial_port + 5) (dev t (serial_port + 5)) # t"] by auto
qed simp

lemma sint_positive:
  assumes "unat (x :: u32) < 0x80000000"
  shows "sint x = int (unat x)"
proof -
  have "uint x < 0x80000000" "0 \<le> uint x" using assms uint_nat [of x] by linarith+
  then have "signed_take_bit 31 (uint x) = uint x" by (intro signed_take_bit_int_eq_self) (auto intro: order_trans [of _ 0])
  then show ?thesis by (simp add: sint_uint)
qed

section \<open>Properties\<close>

text \<open>C23: the program that makes a system call never sees its result: the entry point restores \<^verbatim>\<open>eax\<close> with all other registers
  from the stack, so after every call that leaves the saved registers alone the program has the registers that
  it had before, and \<^verbatim>\<open>eax\<close> is still the number of the call.\<close>

theorem syscall_result_lost:
  fixes s :: "'a tables_state_scheme"
  assumes "syscall_save r (r_esp (cpu s), vmem s) = (esp, m1)"
    and "m = snd (pushl (eax r) (pushl (ebx r) (pushl (ecx r) (pushl (edx r) (esp, m1)))))"
    and "syscall_handler dev intr ehdr (eax r) (ebx r) (ecx r) (edx r) (eax r) (s\<lparr>vmem := m\<rparr>) = Some (switched, v, s')"
    and "\<And>i. i < 32 \<Longrightarrow> vmem s' (esp + word_of_nat i) = m (esp + word_of_nat i)"
  shows "syscall_entry dev intr ehdr r s = Some (switched, r, s')"
proof -
  note f = syscall_frame [OF assms(1)]
  have m: "m (esp + word_of_nat i) = m1 (esp + word_of_nat i)" if "i < 32" for i
  proof -
    have "st32 (esp - word_of_nat j) x n (esp + word_of_nat i) = n (esp + word_of_nat i)" if "j \<in> {4, 8, 12, 16}" for j x n
    proof (rule st32_other)
      have "esp + word_of_nat i - (esp - word_of_nat j) = (word_of_nat (i + j) :: u32)" by simp
      moreover have "unat (word_of_nat (i + j) :: u32) = i + j" using that \<open>i < 32\<close> by (intro unat_u32_of_nat) auto
      ultimately show "4 \<le> unat (esp + word_of_nat i - (esp - word_of_nat j))" using that by auto
    qed
    from this [of 4] this [of 8] this [of 12] this [of 16] show ?thesis using assms(2) by (simp add: pushl_pair)
  qed
  then have sm: "vmem s' (esp + word_of_nat i) = m1 (esp + word_of_nat i)" if "i < 32" for i using assms(4) that by simp
  have "ld32 (vmem s') (esp + word_of_nat k) = ld32 m1 (esp + word_of_nat k)" "ld32 m (esp + word_of_nat k) = ld32 m1 (esp + word_of_nat k)"
    if "k \<in> {0, 4, 8, 12, 16, 20, 24, 28}" for k using ld32_frame [of "vmem s'" esp m1 k, OF sm that] ld32_frame [of m esp m1 k, OF m that] by auto
  note w = this [of 0] this [of 4] this [of 8] this [of 12] this [of 16] this [of 20] this [of 24] this [of 28]
  have "syscall_restore esp (vmem s') = syscall_restore esp m1" using w f(3) by (simp add: syscall_restore_def Let_def add.assoc)
  moreover have "ld32 m esp = eax r" using w(2) f(2) by (simp add: syscall_restore_def Let_def) (metis regs.select_convs(1))
  ultimately show ?thesis using assms(1-3) f(2) unfolding syscall_entry_def by (simp add: Let_def)
qed

theorem syscall_result_lost_witness:
  "\<exists>s'. syscall_handler (\<lambda>_ _. 0xFF) (\<lambda>s. s) 0x90000 77 1 2 3 77 tables_example = Some (False, - 1, tables_example) \<and>
     syscall_entry (\<lambda>_ _. 0xFF) (\<lambda>s. s) 0x90000 \<lparr>eax = 77, ecx = 2, edx = 3, ebx = 1, ebp = 5, esi = 6, edi = 7\<rparr> tables_example =
       Some (False, \<lparr>eax = 77, ecx = 2, edx = 3, ebx = 1, ebp = 5, esi = 6, edi = 7\<rparr>, s')"
proof -
  let ?r = "\<lparr>eax = 77, ecx = 2, edx = 3, ebx = 1, ebp = 5, esi = 6, edi = 7\<rparr>"
  obtain esp m1 where "syscall_save ?r (r_esp (cpu tables_example), vmem tables_example) = (esp, m1)" by fastforce
  from syscall_result_lost [OF this refl, of "\<lambda>_ _. 0xFF" "\<lambda>s. s" "0x90000"] show ?thesis
    by (auto simp: syscall_handler_def)
qed

text \<open>Writing to descriptor 1 or 2 sends exactly the bytes of the buffer to the serial port, in order, and returns
  their number.\<close>

theorem syscall_write_correct:
  assumes "serial_ready dev" and "buf \<noteq> 0" and "0 < unat count" and "unat count < 0x80000000" and "fd \<in> {1, 2}"
  shows "\<exists>t. syscall_handler dev intr ehdr 3 fd buf count x s = Some (False, int (unat count), s\<lparr>io_trace := t\<rparr>) \<and>
    serial_output t = serial_output (io_trace s) @ bytes_at (vmem s) buf (unat count)"
proof -
  obtain t where "serial_put_all dev (bytes_at (vmem s) buf (unat count)) (io_trace s) = Some t"
      "serial_output t = serial_output (io_trace s) @ bytes_at (vmem s) buf (unat count)"
    using serial_put_all_output [OF assms(1)] by blast
  then show ?thesis using assms(2-5) sint_positive [OF assms(4)] by (auto simp: syscall_handler_def sys_write_def)
qed

theorem syscall_write_correct_witness:
  "\<exists>t. syscall_handler (\<lambda>_ _. 0xFF) (\<lambda>s. s) 0x90000 3 1 0x90000 5 0 fs_example = Some (False, 5, fs_example\<lparr>io_trace := t\<rparr>) \<and>
     serial_output t = serial_output (io_trace fs_example) @ bytes_at (vmem fs_example) 0x90000 5"
  using syscall_write_correct [OF no_devices(1), of "0x90000" 5 1 "\<lambda>s. s" "0x90000" 0 fs_example] by simp

end
