(* ===== verification/Shell.thy ===== *)
theory Shell
  imports Graphics Syscall
begin

text \<open>
  The shell: \<^verbatim>\<open>src/kernel/shell/shell.c\<close>. A command line is copied to the heap and cut there into words,
  whose addresses are the arguments of a command. A command returns a number, gives the processor to another
  task, or restarts the machine. Arguments are addresses and their strings are read from memory at each use. The
  addresses of local buffers, of string literals that are written to files, and of the functions that
  run as tasks are fields of an environment, together with the devices.
\<close>

section \<open>State\<close>

datatype command_handler = Cmd_help | Cmd_clear | Cmd_echo | Cmd_time | Cmd_meminfo | Cmd_reboot | Cmd_ls | Cmd_cat |
  Cmd_mkdir | Cmd_rm | Cmd_pwd | Cmd_cd | Cmd_touch | Cmd_mv | Cmd_cp | Cmd_find | Cmd_grep | Cmd_wc | Cmd_head |
  Cmd_tail | Cmd_save | Cmd_test_sync | Cmd_test_sleep

record shell_command =
  c_name :: "u8 list"
  c_description :: "u8 list"
  c_handler :: "command_handler option"

record shell_state = graphics_state +
  commands :: "shell_command list"
  command_count :: u32
  input_buffer :: u32
  input_pos :: u32
  test_mutex :: u32
  shared_counter :: u32

record shell_env =
  e_dev :: device
  e_buffer :: u32
  e_sector :: u32
  e_space :: u32
  e_newline :: u32
  e_start :: u32
  e_sync_task1 :: u32
  e_sync_task2 :: u32

datatype outcome = Returns int | Switched | Restarted

type_synonym 's command_result = "(outcome \<times> 's) option"

abbreviation (input) MAX_COMMANDS :: nat where "MAX_COMMANDS \<equiv> 32"
abbreviation (input) SHELL_MAX_LINE_LENGTH :: u32 where "SHELL_MAX_LINE_LENGTH \<equiv> 256"
abbreviation (input) SHELL_MAX_ARGS :: nat where "SHELL_MAX_ARGS \<equiv> 16"
abbreviation (input) QUOTE :: u8 where "QUOTE \<equiv> 39"

section \<open>Output and arguments\<close>

definition put :: "shell_env \<Rightarrow> u8 list \<Rightarrow> 'a timer_state_scheme \<Rightarrow> 'a timer_state_scheme option" where
  "put env msg s = map_option (\<lambda>t. s\<lparr>io_trace := t\<rparr>) (serial_puts (e_dev env) msg (io_trace s))"

definition put_line :: "shell_env \<Rightarrow> string \<Rightarrow> 'a timer_state_scheme \<Rightarrow> 'a timer_state_scheme option" where
  "put_line env msg = put env (str msg @ [NEWLINE])"

definition put_dec :: "shell_env \<Rightarrow> u32 \<Rightarrow> 'a timer_state_scheme \<Rightarrow> 'a timer_state_scheme option" where
  "put_dec env n s = map_option (\<lambda>t. s\<lparr>io_trace := t\<rparr>) (serial_putdec (e_dev env) n (io_trace s))"

definition put_chars :: "shell_env \<Rightarrow> u8 list \<Rightarrow> 'a timer_state_scheme \<Rightarrow> 'a timer_state_scheme option" where
  "put_chars env cs s = map_option (\<lambda>t. s\<lparr>io_trace := t\<rparr>) (serial_put_all (e_dev env) cs (io_trace s))"

definition put_string :: "shell_env \<Rightarrow> u32 \<Rightarrow> 'a timer_state_scheme \<Rightarrow> 'a timer_state_scheme option" where
  "put_string env a s = Option.bind (string_at (vmem s) a) (\<lambda>cs. put env cs s)"

text \<open>The messages around an argument that end a command.\<close>

definition complain :: "shell_env \<Rightarrow> string \<Rightarrow> u32 \<Rightarrow> u8 list \<Rightarrow> 'a timer_state_scheme \<Rightarrow> 'a timer_state_scheme command_result" where
  "complain env msg a rest s =
     do {
       s \<leftarrow> put env (str msg) s;
       s \<leftarrow> put_string env a s;
       s \<leftarrow> put env (rest @ [NEWLINE]) s;
       Some (Returns (- 1), s)
     }"

definition refuse :: "shell_env \<Rightarrow> string \<Rightarrow> 'a timer_state_scheme \<Rightarrow> 'a timer_state_scheme command_result" where
  "refuse env msg s = map_option (Pair (Returns (- 1))) (put_line env msg s)"

text \<open>A function of the file system on the path in memory.\<close>

definition open_arg :: "u32 \<Rightarrow> u32 \<Rightarrow> 'a fs_state_scheme \<Rightarrow> (int \<times> 'a fs_state_scheme) option" where
  "open_arg a mode s = Option.bind (string_at (vmem s) a) (\<lambda>path. fs_open (Some path) mode s)"

section \<open>Information\<close>

fun help_loop :: "shell_env \<Rightarrow> shell_command list \<Rightarrow> 'a timer_state_scheme \<Rightarrow> 'a timer_state_scheme option" where
  "help_loop env [] s = Some s"
| "help_loop env (c # rest) s =
     do {
       s \<leftarrow> put env (str ''  '') s;
       s \<leftarrow> put env (c_name c) s;
       s \<leftarrow> put env (str '' - '') s;
       s \<leftarrow> put env (c_description c) s;
       s \<leftarrow> put env [NEWLINE] s;
       help_loop env rest s
     }"

definition cmd_help :: "shell_env \<Rightarrow> 'a shell_state_scheme \<Rightarrow> 'a shell_state_scheme command_result" where
  "cmd_help env s =
     do {
       s \<leftarrow> put env ([NEWLINE] @ str ''Available commands:'' @ [NEWLINE]) s;
       s \<leftarrow> put_line env ''=================='' s;
       s \<leftarrow> help_loop env (take (unat (command_count s)) (commands s)) s;
       s \<leftarrow> put env [NEWLINE] s;
       Some (Returns 0, s)
     }"

definition cmd_clear :: "'a console_state_scheme \<Rightarrow> 'a console_state_scheme command_result" where
  "cmd_clear s = Some (Returns 0, vga_clear s)"

definition cmd_time :: "shell_env \<Rightarrow> 'a timer_state_scheme \<Rightarrow> 'a timer_state_scheme command_result" where
  "cmd_time env s =
     do {
       let ms = timer_get_ms s;
       let seconds = ms div 1000;
       let minutes = seconds div 60;
       let hours = minutes div 60;
       s \<leftarrow> put env (str ''System uptime: '') s;
       s \<leftarrow> put_dec env hours s;
       s \<leftarrow> put env (str ''h '') s;
       s \<leftarrow> put_dec env (minutes mod 60) s;
       s \<leftarrow> put env (str ''m '') s;
       s \<leftarrow> put_dec env (seconds mod 60) s;
       s \<leftarrow> put env (str ''s ('') s;
       s \<leftarrow> put_dec env ms s;
       s \<leftarrow> put_line env '' ms)'' s;
       Some (Returns 0, s)
     }"

definition put_pages :: "shell_env \<Rightarrow> string \<Rightarrow> u32 \<Rightarrow> 'a timer_state_scheme \<Rightarrow> 'a timer_state_scheme option" where
  "put_pages env msg n s =
     do {
       s \<leftarrow> put env (str msg) s;
       s \<leftarrow> put_dec env n s;
       s \<leftarrow> put env (str '' ('') s;
       s \<leftarrow> put_dec env (n * 4) s;
       put_line env '' KB)'' s
     }"

definition cmd_meminfo :: "shell_env \<Rightarrow> 'a timer_state_scheme \<Rightarrow> 'a timer_state_scheme command_result" where
  "cmd_meminfo env s =
     do {
       let total = pmm_get_total_pages s;
       let free = pmm_get_free_pages s;
       let used = total - free;
       s \<leftarrow> put_line env ''Memory Information:'' s;
       s \<leftarrow> put_pages env ''  Total pages: '' total s;
       s \<leftarrow> put_pages env ''  Used pages: '' used s;
       s \<leftarrow> put_pages env ''  Free pages: '' free s;
       Some (Returns 0, s)
     }"

text \<open>The keyboard controller resets the machine; if it did not, the interrupt that follows has no gate.\<close>

partial_function (option) wait_controller :: "device \<Rightarrow> io \<Rightarrow> io option" where
  "wait_controller dev t =
     (let (temp, t) = inb dev 0x64 t in if temp AND 0x02 \<noteq> 0 then wait_controller dev t else Some t)"

definition cmd_reboot :: "shell_env \<Rightarrow> 'a timer_state_scheme \<Rightarrow> 'a timer_state_scheme command_result" where
  "cmd_reboot env s =
     do {
       s \<leftarrow> put_line env ''Rebooting system...'' s;
       t \<leftarrow> wait_controller (e_dev env) (io_trace s);
       Some (Restarted, s\<lparr>io_trace := outb 0x64 0xFE t\<rparr>)
     }"

section \<open>Synchronisation tests\<close>

definition cmd_test_sync :: "shell_env \<Rightarrow> 'a shell_state_scheme \<Rightarrow> 'a shell_state_scheme command_result" where
  "cmd_test_sync env s =
     do {
       let s = (mutex_init (test_mutex s) s)\<lparr>shared_counter := 0\<rparr>;
       s \<leftarrow> put_line env ''Starting synchronization test...'' s;
       (_, s) \<leftarrow> task_create (e_start env) (e_sync_task1 env) (Some (str ''sync_task1'')) 1 s;
       (_, s) \<leftarrow> task_create (e_start env) (e_sync_task2 env) (Some (str ''sync_task2'')) 1 s;
       Some (Returns 0, s)
     }"

text \<open>The bodies of both tasks, cut where the task may lose the processor: the round with the lock held, the
  value read before the sleep, and the sleep after the release. The number of the task is part of its messages.\<close>

datatype sync_pc = Sync_start | Sync_lock nat | Sync_locked nat | Sync_slept nat u32 | Sync_exit

definition sync_task :: "shell_env \<Rightarrow> string \<Rightarrow> sync_pc \<Rightarrow> 'a shell_state_scheme \<Rightarrow> (sync_pc \<times> bool \<times> 'a shell_state_scheme) option" where
  "sync_task env n pc s =
     (case pc of
        Sync_start \<Rightarrow> map_option (\<lambda>s. (Sync_lock 0, False, s)) (put_line env (''### sync_task'' @ n @ '' STARTED ###'') s)
      | Sync_lock i \<Rightarrow>
          (if i < 5 then map_option (\<lambda>(switched, s). (Sync_locked i, switched, s)) (mutex_lock (test_mutex s) s)
           else map_option (\<lambda>s. (Sync_exit, False, s)) (put_line env (''### sync_task'' @ n @ '' EXITED ###'') s))
      | Sync_locked i \<Rightarrow>
          (let val = shared_counter s in map_option (\<lambda>(switched, s). (Sync_slept i val, switched, s)) (task_sleep 100 s))
      | Sync_slept i val \<Rightarrow>
          do {
            let s = s\<lparr>shared_counter := val + 1\<rparr>;
            s \<leftarrow> put env (str (''[Task '' @ n @ ''] incremented counter to: '')) s;
            s \<leftarrow> put_dec env (shared_counter s) s;
            s \<leftarrow> put env [NEWLINE] s;
            let s = mutex_unlock (test_mutex s) s;
            (switched, s) \<leftarrow> task_sleep 50 s;
            Some (Sync_lock (i + 1), switched, s)
          }
      | Sync_exit \<Rightarrow> map_option (\<lambda>(switched, s). (Sync_exit, switched, s)) (task_exit s))"

definition cmd_test_sleep :: "shell_env \<Rightarrow> 'a task_state_scheme \<Rightarrow> 'a task_state_scheme command_result" where
  "cmd_test_sleep env s =
     do {
       s \<leftarrow> put_line env ''Sleeping for 1 second...'' s;
       (switched, s) \<leftarrow> task_sleep 1000 s;
       if switched then Some (Switched, s)
       else do { s \<leftarrow> put_line env ''Awake!'' s; Some (Returns 0, s) }
     }"

section \<open>Directories and files\<close>

text \<open>\<^verbatim>\<open>strcmp\<close> of two strings is zero exactly when they are equal; string literals are lists of bytes.\<close>

definition arg_is :: "u32 \<Rightarrow> string \<Rightarrow> 'a heap_state_scheme \<Rightarrow> bool option" where
  "arg_is a lit s = map_option (\<lambda>cs. cs = str lit) (string_at (vmem s) a)"

text \<open>The index of the first \<^verbatim>\<open>>\<close> that an argument follows, from \<open>i\<close> on; \<open>-1\<close> if there is none.\<close>

function redirect_from :: "u32 list \<Rightarrow> nat \<Rightarrow> 'a heap_state_scheme \<Rightarrow> int option" where
  "redirect_from argv i s =
     (if i < length argv
      then Option.bind (arg_is (argv ! i) ''>'' s) (\<lambda>eq.
             if eq \<and> i + 1 < length argv then Some (int i) else redirect_from argv (i + 1) s)
      else Some (- 1))"
  by pat_completeness auto
termination
  by (relation "measure (\<lambda>(argv, i, s). length argv - i)") auto

declare redirect_from.simps [simp del]

fun echo_write :: "shell_env \<Rightarrow> int \<Rightarrow> u32 list \<Rightarrow> 'a fs_state_scheme \<Rightarrow> 'a fs_state_scheme option" where
  "echo_write env fd [] s = Some s"
| "echo_write env fd (a # rest) s =
     do {
       n \<leftarrow> strlen (vmem s) a;
       let s = snd (fs_write fd a n s);
       let s = (if rest \<noteq> [] then snd (fs_write fd (e_space env) 1 s) else s);
       echo_write env fd rest s
     }"

fun echo_print :: "shell_env \<Rightarrow> u32 list \<Rightarrow> 'a timer_state_scheme \<Rightarrow> 'a timer_state_scheme option" where
  "echo_print env [] s = Some s"
| "echo_print env (a # rest) s =
     do {
       s \<leftarrow> put_string env a s;
       s \<leftarrow> (if rest \<noteq> [] then put env (str '' '') s else Some s);
       echo_print env rest s
     }"

definition cmd_echo :: "shell_env \<Rightarrow> u32 list \<Rightarrow> 'a fs_state_scheme \<Rightarrow> 'a fs_state_scheme command_result" where
  "cmd_echo env argv s =
     (if length argv < 2 then do { s \<leftarrow> put env [NEWLINE] s; Some (Returns 0, s) }
      else do {
        redirect_index \<leftarrow> redirect_from argv 1 s;
        if 0 < redirect_index
        then do {
          let filename = argv ! nat (redirect_index + 1);
          (fd, s) \<leftarrow> open_arg filename FS_MODE_WRITE s;
          if fd < 0 then complain env (''Error: Cannot create file '' @ [CHR 0x27]) filename [QUOTE] s
          else do {
            s \<leftarrow> echo_write env fd (take (nat redirect_index - 1) (drop 1 argv)) s;
            let s = snd (fs_write fd (e_newline env) 1 s);
            let s = snd (fs_close fd s);
            Some (Returns 0, s)
          }
        }
        else do {
          s \<leftarrow> echo_print env (drop 1 argv) s;
          s \<leftarrow> put env [NEWLINE] s;
          Some (Returns 0, s)
        }
      })"

fun ls_loop :: "shell_env \<Rightarrow> dirent list \<Rightarrow> 'a timer_state_scheme \<Rightarrow> 'a timer_state_scheme option" where
  "ls_loop env [] s = Some s"
| "ls_loop env (e # rest) s =
     do {
       s \<leftarrow> (if d_type e = FS_TYPE_DIR
             then do { s \<leftarrow> put env (str ''['') s; s \<leftarrow> put env (d_name e) s; put env (str '']'') s }
             else do {
               s \<leftarrow> put env (d_name e) s;
               s \<leftarrow> put env (str '' ('') s;
               s \<leftarrow> put_dec env (d_size e) s;
               put env (str '' bytes)'') s
             });
       s \<leftarrow> put env [NEWLINE] s;
       ls_loop env rest s
     }"

text \<open>An optional argument.\<close>

definition arg_or :: "u32 list \<Rightarrow> nat \<Rightarrow> string \<Rightarrow> 'a heap_state_scheme \<Rightarrow> u8 list option" where
  "arg_or argv i lit s = (if i < length argv then string_at (vmem s) (argv ! i) else Some (str lit))"

definition cmd_ls :: "shell_env \<Rightarrow> u32 list \<Rightarrow> 'a fs_state_scheme \<Rightarrow> 'a fs_state_scheme command_result" where
  "cmd_ls env argv s =
     do {
       path \<leftarrow> arg_or argv 1 ''.'' s;
       (count, entries) \<leftarrow> fs_readdir (Some path) True 64 s;
       if count < 0 then refuse env ''Error: Cannot read directory'' s
       else if count = 0 then do { s \<leftarrow> put_line env ''(empty)'' s; Some (Returns 0, s) }
       else do { s \<leftarrow> ls_loop env entries s; Some (Returns 0, s) }
     }"

partial_function (option) cat_loop :: "shell_env \<Rightarrow> int \<Rightarrow> 'a fs_state_scheme \<Rightarrow> 'a fs_state_scheme option" where
  "cat_loop env fd s =
     (let (bytes_read, s) = fs_read fd (e_buffer env) 255 s
      in if 0 < bytes_read
         then let s = s\<lparr>vmem := (vmem s)(e_buffer env + word_of_int bytes_read := 0)\<rparr>
              in Option.bind (put_string env (e_buffer env) s) (\<lambda>s. cat_loop env fd s)
         else Some s)"

definition cmd_cat :: "shell_env \<Rightarrow> u32 list \<Rightarrow> 'a fs_state_scheme \<Rightarrow> 'a fs_state_scheme command_result" where
  "cmd_cat env argv s =
     (if length argv < 2 then refuse env ''Usage: cat <file>'' s
      else do {
        (fd, s) \<leftarrow> open_arg (argv ! 1) FS_MODE_READ s;
        if fd < 0 then complain env (''Error: Cannot open file '' @ [CHR 0x27]) (argv ! 1) [QUOTE] s
        else do {
          s \<leftarrow> cat_loop env fd s;
          s \<leftarrow> put env [NEWLINE] s;
          Some (Returns 0, snd (fs_close fd s))
        }
      })"

definition cmd_mkdir :: "shell_env \<Rightarrow> u32 list \<Rightarrow> 'a fs_state_scheme \<Rightarrow> 'a fs_state_scheme command_result" where
  "cmd_mkdir env argv s =
     (if length argv < 2 then refuse env ''Usage: mkdir <directory>'' s
      else do {
        path \<leftarrow> string_at (vmem s) (argv ! 1);
        (r, s) \<leftarrow> fs_mkdir (Some path) s;
        if r < 0 then complain env (''Error: Cannot create directory '' @ [CHR 0x27]) (argv ! 1) [QUOTE] s
        else Some (Returns 0, s)
      })"

definition cmd_rm :: "shell_env \<Rightarrow> u32 list \<Rightarrow> 'a fs_state_scheme \<Rightarrow> 'a fs_state_scheme command_result" where
  "cmd_rm env argv s =
     (if length argv < 2 then refuse env ''Usage: rm <file|directory>'' s
      else do {
        path \<leftarrow> string_at (vmem s) (argv ! 1);
        (r, s) \<leftarrow> fs_remove (Some path) s;
        if r < 0 then complain env (''Error: Cannot remove '' @ [CHR 0x27]) (argv ! 1) [QUOTE] s
        else Some (Returns 0, s)
      })"

definition cmd_pwd :: "shell_env \<Rightarrow> 'a fs_state_scheme \<Rightarrow> 'a fs_state_scheme command_result" where
  "cmd_pwd env s =
     do {
       s \<leftarrow> put env (fs_get_current_path s) s;
       s \<leftarrow> put env [NEWLINE] s;
       Some (Returns 0, s)
     }"

definition cmd_cd :: "shell_env \<Rightarrow> u32 list \<Rightarrow> 'a fs_state_scheme \<Rightarrow> 'a fs_state_scheme command_result" where
  "cmd_cd env argv s =
     do {
       path \<leftarrow> arg_or argv 1 ''/'' s;
       let report = (\<lambda>msg s. do {
             s \<leftarrow> put env (str msg) s;
             s \<leftarrow> put env path s;
             s \<leftarrow> put env [NEWLINE] s;
             Some (Returns (- 1), s) });
       dir \<leftarrow> fs_resolve_path (Some path) s;
       if dir = 0 then report ''Error: Directory not found: '' s
       else do {
         typ \<leftarrow> fs_type (Some path) s;
         if typ \<noteq> FS_TYPE_DIR then report ''Error: Not a directory: '' s
         else let (r, s) = fs_set_current_dir dir s
              in if r < 0 then refuse env ''Error: Cannot change directory'' s else Some (Returns 0, s)
       }
     }"

definition cmd_touch :: "shell_env \<Rightarrow> u32 list \<Rightarrow> 'a fs_state_scheme \<Rightarrow> 'a fs_state_scheme command_result" where
  "cmd_touch env argv s =
     (if length argv < 2 then refuse env ''Usage: touch <file>'' s
      else do {
        (fd, s) \<leftarrow> open_arg (argv ! 1) FS_MODE_WRITE s;
        if fd < 0 then complain env (''Error: Cannot create file '' @ [CHR 0x27]) (argv ! 1) [QUOTE] s
        else Some (Returns 0, snd (fs_close fd s))
      })"

section \<open>Copying\<close>

text \<open>The part that \<open>cmd_mv\<close> and \<open>cmd_cp\<close> have in common: they differ in the name of the action.\<close>

definition finish :: "('a \<Rightarrow> 'a) \<Rightarrow> 'a command_result \<Rightarrow> 'a command_result" where
  "finish f r = map_option (\<lambda>(out, s). (out, f s)) r"

definition copy_file :: "shell_env \<Rightarrow> string \<Rightarrow> u32 \<Rightarrow> u32 \<Rightarrow> 'a fs_state_scheme \<Rightarrow> 'a fs_state_scheme command_result" where
  "copy_file env action src dst s =
     do {
       path \<leftarrow> string_at (vmem s) src;
       ex \<leftarrow> fs_exists (Some path) s;
       typ \<leftarrow> fs_type (Some path) s;
       if ex = 0 then complain env ''Error: Source file not found: '' src [] s
       else if typ = FS_TYPE_DIR then refuse env (''Error: '' @ action @ '' directories not yet supported'') s
       else do {
         (src_fd, s) \<leftarrow> open_arg src FS_MODE_READ s;
         if src_fd < 0 then refuse env ''Error: Cannot open source file'' s
         else do {
           let file_size = fs_size src_fd s;
           (buffer, s) \<leftarrow> kmalloc file_size s;
           if buffer = 0 then finish (\<lambda>s. snd (fs_close src_fd s)) (refuse env ''Error: Out of memory'' s)
           else do {
             let (bytes_read, s) = fs_read src_fd buffer file_size s;
             let s = snd (fs_close src_fd s);
             if bytes_read < 0 \<or> word_of_int bytes_read \<noteq> file_size
             then finish (kfree buffer) (refuse env ''Error: Cannot read source file'' s)
             else do {
               (dst_fd, s) \<leftarrow> open_arg dst FS_MODE_WRITE s;
               if dst_fd < 0 then finish (kfree buffer) (refuse env ''Error: Cannot create destination file'' s)
               else let (bytes_written, s) = fs_write dst_fd buffer file_size s;
                        s = snd (fs_close dst_fd s);
                        s = kfree buffer s
                    in if bytes_written < 0 \<or> word_of_int bytes_written \<noteq> file_size
                       then refuse env ''Error: Cannot write to destination file'' s
                       else Some (Returns 0, s)
             }
           }
         }
       }
     }"

definition cmd_mv :: "shell_env \<Rightarrow> u32 list \<Rightarrow> 'a fs_state_scheme \<Rightarrow> 'a fs_state_scheme command_result" where
  "cmd_mv env argv s =
     (if length argv < 3 then refuse env ''Usage: mv <source> <destination>'' s
      else do {
        (out, s) \<leftarrow> copy_file env ''Moving'' (argv ! 1) (argv ! 2) s;
        if out \<noteq> Returns 0 then Some (out, s)
        else do {
          path \<leftarrow> string_at (vmem s) (argv ! 1);
          (r, s) \<leftarrow> fs_remove (Some path) s;
          if r < 0 then refuse env ''Warning: File copied but source could not be removed'' s
          else Some (Returns 0, s)
        }
      })"

definition cmd_cp :: "shell_env \<Rightarrow> u32 list \<Rightarrow> 'a fs_state_scheme \<Rightarrow> 'a fs_state_scheme command_result" where
  "cmd_cp env argv s =
     (if length argv < 3 then refuse env ''Usage: cp <source> <destination>'' s
      else copy_file env ''Copying'' (argv ! 1) (argv ! 2) s)"

section \<open>Searching and counting\<close>

text \<open>The path of a match, printed before its name.\<close>

definition find_prefix :: "shell_env \<Rightarrow> u8 list \<Rightarrow> 'a fs_state_scheme \<Rightarrow> 'a fs_state_scheme option" where
  "find_prefix env search_path s =
     (if search_path \<noteq> [] \<and> hd search_path = SLASH
      then if search_path \<noteq> [SLASH]
           then Option.bind (put env search_path s) (put env [SLASH])
           else put env [SLASH] s
      else do {
        let current_path = fs_get_current_path s;
        s \<leftarrow> (if current_path \<noteq> [SLASH] then Option.bind (put env current_path s) (put env [SLASH]) else Some s);
        if search_path \<noteq> [DOT] then Option.bind (put env search_path s) (put env [SLASH]) else Some s
      })"

fun find_loop :: "shell_env \<Rightarrow> u8 list \<Rightarrow> u8 list \<Rightarrow> dirent list \<Rightarrow> int \<Rightarrow> 'a fs_state_scheme \<Rightarrow> (int \<times> 'a fs_state_scheme) option" where
  "find_loop env search_path pattern [] found s = Some (found, s)"
| "find_loop env search_path pattern (e # rest) found s =
     (if d_name e = pattern
      then do {
        s \<leftarrow> find_prefix env search_path s;
        s \<leftarrow> put env (d_name e) s;
        s \<leftarrow> put env [NEWLINE] s;
        find_loop env search_path pattern rest (found + 1) s
      }
      else find_loop env search_path pattern rest found s)"

definition cmd_find :: "shell_env \<Rightarrow> u32 list \<Rightarrow> 'a fs_state_scheme \<Rightarrow> 'a fs_state_scheme command_result" where
  "cmd_find env argv s =
     (if length argv \<le> 2
      then do {
        s \<leftarrow> put_line env ''Usage: find <path> <pattern>'' s;
        refuse env ''Example: find / file.txt'' s
      }
      else do {
        search_path \<leftarrow> string_at (vmem s) (argv ! 1);
        pattern \<leftarrow> string_at (vmem s) (argv ! 2);
        (count, entries) \<leftarrow> fs_readdir (Some search_path) True 64 s;
        if count < 0 then complain env ''Error: Cannot read directory: '' (argv ! 1) [] s
        else do {
          (found, s) \<leftarrow> find_loop env search_path pattern entries 0 s;
          if found = 0
          then do {
            s \<leftarrow> put env (str ''No files found matching '' @ [QUOTE]) s;
            s \<leftarrow> put env pattern s;
            s \<leftarrow> put env ([QUOTE] @ str '' in '') s;
            s \<leftarrow> put env search_path s;
            s \<leftarrow> put env [NEWLINE] s;
            Some (Returns 0, s)
          }
          else Some (Returns 0, s)
        }
      })"

text \<open>Opening a file and reading all of it into a terminated buffer, as \<open>cmd_grep\<close>, \<open>cmd_wc\<close>, \<open>cmd_head\<close>
  and \<open>cmd_tail\<close> do: the outcome of the command when that fails, or the buffer and the size.\<close>

definition read_buffer ::
  "shell_env \<Rightarrow> int \<Rightarrow> 'a fs_state_scheme \<Rightarrow> ((outcome + u32 \<times> u32) \<times> 'a fs_state_scheme) option" where
  "read_buffer env fd s =
     do {
       let file_size = fs_size fd s;
       (buffer, s) \<leftarrow> kmalloc (file_size + 1) s;
       if buffer = 0
       then map_option (\<lambda>(out, s). (Inl out, snd (fs_close fd s))) (refuse env ''Error: Out of memory'' s)
       else let (bytes_read, s) = fs_read fd buffer file_size s;
                s = snd (fs_close fd s)
            in if bytes_read < 0 \<or> word_of_int bytes_read \<noteq> file_size
               then map_option (\<lambda>(out, s). (Inl out, kfree buffer s)) (refuse env ''Error: Cannot read file'' s)
               else Some (Inr (buffer, file_size), s\<lparr>vmem := (vmem s)(buffer + file_size := 0)\<rparr>)
     }"

definition load_file ::
  "shell_env \<Rightarrow> u32 \<Rightarrow> 'a fs_state_scheme \<Rightarrow> ((outcome + u32 \<times> u32) \<times> 'a fs_state_scheme) option" where
  "load_file env filename s =
     do {
       (fd, s) \<leftarrow> open_arg filename FS_MODE_READ s;
       if fd < 0 then map_option (\<lambda>(out, s). (Inl out, s)) (complain env ''Error: Cannot open file: '' filename [] s)
       else read_buffer env fd s
     }"

text \<open>One match at the index \<open>i\<close>: \<open>text\<close> is the file. The line starts after the last newline before the match and
  ends before the first newline, zero or end of file after it.\<close>

definition grep_line :: "u8 list \<Rightarrow> nat \<Rightarrow> u32 \<times> u8 list" where
  "grep_line text i =
     (let before = take i text;
          line_num = 1 + word_of_nat (length (filter (\<lambda>c. c = NEWLINE) before));
          line_start = i - length (takeWhile (\<lambda>c. c \<noteq> NEWLINE) (rev before));
          line_end = i + length (takeWhile (\<lambda>c. c \<noteq> NEWLINE \<and> c \<noteq> 0) (drop i text))
      in (line_num, take (line_end - line_start) (drop line_start text)))"

fun grep_loop ::
  "shell_env \<Rightarrow> u32 \<Rightarrow> u32 \<Rightarrow> u32 \<Rightarrow> u8 list \<Rightarrow> nat list \<Rightarrow> int \<Rightarrow> 'a timer_state_scheme \<Rightarrow> (int \<times> 'a timer_state_scheme) option" where
  "grep_loop env buffer pattern pattern_len text [] found s = Some (found, s)"
| "grep_loop env buffer pattern pattern_len text (i # is) found s =
     (if memcmp (vmem s) (buffer + word_of_nat i) pattern pattern_len = 0
      then do {
        let (line_num, line) = grep_line text i;
        s \<leftarrow> put_dec env line_num s;
        s \<leftarrow> put env (str '': '') s;
        s \<leftarrow> put_chars env line s;
        s \<leftarrow> put env [NEWLINE] s;
        grep_loop env buffer pattern pattern_len text is (found + 1) s
      }
      else grep_loop env buffer pattern pattern_len text is found s)"

definition cmd_grep :: "shell_env \<Rightarrow> u32 list \<Rightarrow> 'a fs_state_scheme \<Rightarrow> 'a fs_state_scheme command_result" where
  "cmd_grep env argv s =
     (if length argv < 3
      then do {
        s \<leftarrow> put_line env ''Usage: grep <pattern> <file>'' s;
        refuse env ''Example: grep hello file.txt'' s
      }
      else do {
        let pattern = argv ! 1;
        let filename = argv ! 2;
        (fd, s) \<leftarrow> open_arg filename FS_MODE_READ s;
        if fd < 0 then complain env ''Error: Cannot open file: '' filename [] s
        else if fs_size fd s = 0 then Some (Returns 0, snd (fs_close fd s))
        else do {
          (r, s) \<leftarrow> read_buffer env fd s;
          case r of
            Inl out \<Rightarrow> Some (out, s)
          | Inr (buffer, file_size) \<Rightarrow>
              do {
                pattern_len \<leftarrow> strlen (vmem s) pattern;
                let text = bytes_at (vmem s) buffer (unat file_size);
                (found, s) \<leftarrow> grep_loop env buffer pattern pattern_len text
                   [0..<nat (sint file_size - sint pattern_len + 1)] 0 s;
                s \<leftarrow> (if found = 0 then put_line env ''Pattern not found'' s else Some s);
                Some (Returns 0, kfree buffer s)
              }
        }
      })"

definition wc_step :: "u8 \<Rightarrow> u32 \<times> u32 \<times> bool \<Rightarrow> u32 \<times> u32 \<times> bool" where
  "wc_step c = (\<lambda>(lines, words, in_word).
     let lines = (if c = NEWLINE then lines + 1 else lines)
     in if c = of_char CHR '' '' \<or> c = TAB \<or> c = NEWLINE \<or> c = CARRIAGE_RETURN
        then if in_word then (lines, words + 1, False) else (lines, words, in_word)
        else (lines, words, True))"

definition wc_count :: "u8 list \<Rightarrow> u32 \<times> u32" where
  "wc_count text =
     (case fold wc_step text (0, 0, False) of (lines, words, in_word) \<Rightarrow> (lines, if in_word then words + 1 else words))"

definition cmd_wc :: "shell_env \<Rightarrow> u32 list \<Rightarrow> 'a fs_state_scheme \<Rightarrow> 'a fs_state_scheme command_result" where
  "cmd_wc env argv s =
     (if length argv < 2 then refuse env ''Usage: wc <file>'' s
      else do {
        let filename = argv ! 1;
        (r, s) \<leftarrow> load_file env filename s;
        case r of
          Inl out \<Rightarrow> Some (out, s)
        | Inr (buffer, file_size) \<Rightarrow>
            do {
              let (lines, words) = wc_count (bytes_at (vmem s) buffer (unat file_size));
              s \<leftarrow> put_dec env lines s;
              s \<leftarrow> put env (str '' '') s;
              s \<leftarrow> put_dec env words s;
              s \<leftarrow> put env (str '' '') s;
              s \<leftarrow> put_dec env file_size s;
              s \<leftarrow> put env (str '' '') s;
              s \<leftarrow> put_string env filename s;
              s \<leftarrow> put env [NEWLINE] s;
              Some (Returns 0, kfree buffer s)
            }
      })"

text \<open>The optional number of lines: its leading digits, or 10 when they give 0.\<close>

definition is_digit :: "u8 \<Rightarrow> bool" where
  "is_digit c \<longleftrightarrow> of_char CHR ''0'' \<le> c \<and> c \<le> of_char CHR ''9''"

definition parse_lines :: "u8 list \<Rightarrow> u32" where
  "parse_lines num_str =
     (let n = fold (\<lambda>c n. n * 10 + (ucast c - 48)) (takeWhile is_digit num_str) 0 in if n = 0 then 10 else n)"

definition num_lines :: "u32 list \<Rightarrow> 'a heap_state_scheme \<Rightarrow> u32 option" where
  "num_lines argv s = (if 2 < length argv then map_option parse_lines (string_at (vmem s) (argv ! 2)) else Some 10)"

fun head_text :: "u32 \<Rightarrow> u8 list \<Rightarrow> u8 list" where
  "head_text n [] = []"
| "head_text n (c # cs) = (if 0 < n then c # head_text (if c = NEWLINE then n - 1 else n) cs else [])"

definition cmd_head :: "shell_env \<Rightarrow> u32 list \<Rightarrow> 'a fs_state_scheme \<Rightarrow> 'a fs_state_scheme command_result" where
  "cmd_head env argv s =
     (if length argv < 2
      then do { s \<leftarrow> put_line env ''Usage: head <file> [lines]'' s; refuse env ''Default: 10 lines'' s }
      else do {
        n \<leftarrow> num_lines argv s;
        (r, s) \<leftarrow> load_file env (argv ! 1) s;
        case r of
          Inl out \<Rightarrow> Some (out, s)
        | Inr (buffer, file_size) \<Rightarrow>
            do {
              s \<leftarrow> put_chars env (head_text n (bytes_at (vmem s) buffer (unat file_size))) s;
              Some (Returns 0, kfree buffer s)
            }
      })"

text \<open>The search for the start: the rest after the newline with which the number of skipped lines exceeds
  \<open>lines_to_skip\<close>; the whole text when there is none.\<close>

fun tail_from :: "u32 \<Rightarrow> u32 \<Rightarrow> u8 list \<Rightarrow> u8 list \<Rightarrow> u8 list" where
  "tail_from lines_skipped lines_to_skip text [] = text"
| "tail_from lines_skipped lines_to_skip text (c # cs) =
     (if c = NEWLINE
      then if lines_to_skip < lines_skipped + 1 then cs else tail_from (lines_skipped + 1) lines_to_skip text cs
      else tail_from lines_skipped lines_to_skip text cs)"

definition tail_text :: "u32 \<Rightarrow> u8 list \<Rightarrow> u8 list" where
  "tail_text n text =
     (let total_lines = word_of_nat (length (filter (\<lambda>c. c = NEWLINE) text));
          lines_to_skip = (if n < total_lines then total_lines - n else 0)
      in tail_from 0 lines_to_skip text text)"

definition cmd_tail :: "shell_env \<Rightarrow> u32 list \<Rightarrow> 'a fs_state_scheme \<Rightarrow> 'a fs_state_scheme command_result" where
  "cmd_tail env argv s =
     (if length argv < 2
      then do { s \<leftarrow> put_line env ''Usage: tail <file> [lines]'' s; refuse env ''Default: 10 lines'' s }
      else do {
        n \<leftarrow> num_lines argv s;
        (r, s) \<leftarrow> load_file env (argv ! 1) s;
        case r of
          Inl out \<Rightarrow> Some (out, s)
        | Inr (buffer, file_size) \<Rightarrow>
            do {
              s \<leftarrow> put_chars env (tail_text n (bytes_at (vmem s) buffer (unat file_size))) s;
              Some (Returns 0, kfree buffer s)
            }
      })"

definition cmd_save :: "shell_env \<Rightarrow> 'a fs_state_scheme \<Rightarrow> 'a fs_state_scheme command_result" where
  "cmd_save env s =
     do {
       s \<leftarrow> put_line env ''Saving filesystem to disk...'' s;
       (r, s) \<leftarrow> fs_save (e_dev env) (e_sector env) s;
       if r = 0 then do { s \<leftarrow> put_line env ''Filesystem saved successfully!'' s; Some (Returns 0, s) }
       else do {
         s \<leftarrow> put_line env ''Error: Failed to save filesystem'' s;
         refuse env ''(Make sure QEMU has a disk attached: -hda disk.img)'' s
       }
     }"

section \<open>Commands\<close>

definition run_handler ::
  "command_handler \<Rightarrow> shell_env \<Rightarrow> u32 list \<Rightarrow> 'a shell_state_scheme \<Rightarrow> 'a shell_state_scheme command_result" where
  "run_handler h env argv =
     (case h of
        Cmd_help \<Rightarrow> cmd_help env
      | Cmd_clear \<Rightarrow> cmd_clear
      | Cmd_echo \<Rightarrow> cmd_echo env argv
      | Cmd_time \<Rightarrow> cmd_time env
      | Cmd_meminfo \<Rightarrow> cmd_meminfo env
      | Cmd_reboot \<Rightarrow> cmd_reboot env
      | Cmd_ls \<Rightarrow> cmd_ls env argv
      | Cmd_cat \<Rightarrow> cmd_cat env argv
      | Cmd_mkdir \<Rightarrow> cmd_mkdir env argv
      | Cmd_rm \<Rightarrow> cmd_rm env argv
      | Cmd_pwd \<Rightarrow> cmd_pwd env
      | Cmd_cd \<Rightarrow> cmd_cd env argv
      | Cmd_touch \<Rightarrow> cmd_touch env argv
      | Cmd_mv \<Rightarrow> cmd_mv env argv
      | Cmd_cp \<Rightarrow> cmd_cp env argv
      | Cmd_find \<Rightarrow> cmd_find env argv
      | Cmd_grep \<Rightarrow> cmd_grep env argv
      | Cmd_wc \<Rightarrow> cmd_wc env argv
      | Cmd_head \<Rightarrow> cmd_head env argv
      | Cmd_tail \<Rightarrow> cmd_tail env argv
      | Cmd_save \<Rightarrow> cmd_save env
      | Cmd_test_sync \<Rightarrow> cmd_test_sync env
      | Cmd_test_sleep \<Rightarrow> cmd_test_sleep env)"

definition shell_register_command :: "string \<Rightarrow> string \<Rightarrow> command_handler \<Rightarrow> 'a shell_state_scheme \<Rightarrow> 'a shell_state_scheme" where
  "shell_register_command name description handler s =
     (if word_of_nat MAX_COMMANDS \<le> command_count s then s
      else s\<lparr>commands := (commands s)[unat (command_count s) :=
               \<lparr>c_name = str name, c_description = str description, c_handler = Some handler\<rparr>],
             command_count := command_count s + 1\<rparr>)"

definition builtin_commands :: "(string \<times> string \<times> command_handler) list" where
  "builtin_commands =
    [(''help'', ''Show available commands'', Cmd_help),
     (''clear'', ''Clear the screen'', Cmd_clear),
     (''echo'', ''Echo arguments'', Cmd_echo),
     (''time'', ''Show system uptime'', Cmd_time),
     (''meminfo'', ''Show memory information'', Cmd_meminfo),
     (''reboot'', ''Reboot the system'', Cmd_reboot),
     (''ls'', ''List directory contents'', Cmd_ls),
     (''cat'', ''Display file contents'', Cmd_cat),
     (''mkdir'', ''Create directory'', Cmd_mkdir),
     (''rm'', ''Remove file or directory'', Cmd_rm),
     (''pwd'', ''Print working directory'', Cmd_pwd),
     (''cd'', ''Change directory'', Cmd_cd),
     (''touch'', ''Create empty file'', Cmd_touch),
     (''mv'', ''Move or rename file'', Cmd_mv),
     (''cp'', ''Copy file'', Cmd_cp),
     (''find'', ''Find files'', Cmd_find),
     (''grep'', ''Search text in files'', Cmd_grep),
     (''wc'', ''Word and line count'', Cmd_wc),
     (''head'', ''Show first lines of file'', Cmd_head),
     (''tail'', ''Show last lines of file'', Cmd_tail),
     (''tail'', ''Show last lines of file'', Cmd_tail),
     (''save'', ''Save filesystem to disk'', Cmd_save),
     (''test_sync'', ''Test synchronization primitives'', Cmd_test_sync),
     (''test_sleep'', ''Test timer-based sleep'', Cmd_test_sleep)]"

definition shell_init :: "'a shell_state_scheme \<Rightarrow> 'a shell_state_scheme" where
  "shell_init s =
     (let s = s\<lparr>command_count := 0, input_pos := 0, vmem := snd (memset (input_buffer s) 0 SHELL_MAX_LINE_LENGTH (vmem s)),
                commands := replicate MAX_COMMANDS \<lparr>c_name = [], c_description = [], c_handler = None\<rparr>\<rparr>
      in fold (\<lambda>(name, description, handler). shell_register_command name description handler) builtin_commands s)"

definition shell_get_command :: "u8 list \<Rightarrow> 'a shell_state_scheme \<Rightarrow> nat option" where
  "shell_get_command name s = for_find (\<lambda>i. c_name (commands s ! i) = name) 0 (unat (command_count s))"

section \<open>Command lines\<close>

definition is_blank :: "u8 \<Rightarrow> bool" where
  "is_blank c \<longleftrightarrow> c = of_char CHR '' '' \<or> c = TAB"

definition is_space :: "u8 \<Rightarrow> bool" where
  "is_space c \<longleftrightarrow> is_blank c \<or> c = NEWLINE"

partial_function (option) skip_while :: "(u8 \<Rightarrow> bool) \<Rightarrow> mem \<Rightarrow> u32 \<Rightarrow> u32 option" where
  "skip_while p m a = (if p (m a) then skip_while p m (a + 1) else Some a)"

text \<open>The loop that cuts the copy of the line into words: \<open>n\<close> is the room left for arguments. It writes a
  terminator after each word that is not the last, and collects the addresses of the words.\<close>

fun tokenize :: "nat \<Rightarrow> u32 \<Rightarrow> u32 \<Rightarrow> mem \<Rightarrow> (u32 list \<times> mem) option" where
  "tokenize 0 start end_ptr m = Some ([], m)"
| "tokenize (Suc n) start end_ptr m =
     (if m end_ptr = 0 then Some ([], m)
      else do {
        start \<leftarrow> skip_while is_space m start;
        if m start = 0 then Some ([], m)
        else do {
          end_ptr \<leftarrow> skip_while (\<lambda>c. c \<noteq> 0 \<and> \<not> is_space c) m start;
          let (end_ptr, m) = (if m end_ptr \<noteq> 0 then (end_ptr + 1, m(end_ptr := 0)) else (end_ptr, m));
          (args, m) \<leftarrow> tokenize n end_ptr end_ptr m;
          Some (start # args, m)
        }
      })"

definition shell_execute :: "shell_env \<Rightarrow> u32 list \<Rightarrow> 'a shell_state_scheme \<Rightarrow> 'a shell_state_scheme command_result" where
  "shell_execute env args s =
     do {
       name \<leftarrow> string_at (vmem s) (args ! 0);
       case shell_get_command name s of
         None \<Rightarrow> do {
           s \<leftarrow> put env (str ''Command not found: '') s;
           s \<leftarrow> put_string env (args ! 0) s;
           s \<leftarrow> put env [NEWLINE] s;
           s \<leftarrow> put env (str ''Type '' @ [QUOTE] @ str ''help'' @ [QUOTE] @ str '' for available commands.'' @ [NEWLINE]) s;
           Some (Returns (- 1), s)
         }
       | Some i \<Rightarrow> (case c_handler (commands s ! i) of None \<Rightarrow> None | Some h \<Rightarrow> run_handler h env args s)
     }"

text \<open>A command that gives the processor away releases the copy of the line when it continues.\<close>

definition shell_process_command :: "shell_env \<Rightarrow> u32 \<Rightarrow> 'a shell_state_scheme \<Rightarrow> 'a shell_state_scheme command_result" where
  "shell_process_command env line s =
     (if line = 0 then Some (Returns 0, s)
      else do {
        n \<leftarrow> strlen (vmem s) line;
        if n = 0 then Some (Returns 0, s)
        else do {
          line \<leftarrow> skip_while is_blank (vmem s) line;
          if vmem s line = 0 then Some (Returns 0, s)
          else do {
            n \<leftarrow> strlen (vmem s) line;
            (line_copy, s) \<leftarrow> kmalloc (n + 1) s;
            if line_copy = 0 then Some (Returns (- 1), s)
            else do {
              (_, m) \<leftarrow> strcpy line_copy line (vmem s);
              (args, m) \<leftarrow> tokenize (SHELL_MAX_ARGS - 1) line_copy line_copy m;
              let s = s\<lparr>vmem := m\<rparr>;
              if args = [] then Some (Returns 0, kfree line_copy s)
              else do {
                (out, s) \<leftarrow> shell_execute env args s;
                case out of Returns _ \<Rightarrow> Some (out, kfree line_copy s) | _ \<Rightarrow> Some (out, s)
              }
            }
          }
        }
      })"

section \<open>The interactive shell\<close>

abbreviation (input) VGA_COLOR_LIGHT_GREEN :: u8 where "VGA_COLOR_LIGHT_GREEN \<equiv> 10"
abbreviation (input) VGA_COLOR_LIGHT_CYAN :: u8 where "VGA_COLOR_LIGHT_CYAN \<equiv> 11"
abbreviation (input) BACKSPACE :: u8 where "BACKSPACE \<equiv> 8"

definition shell_banner :: "'a console_state_scheme \<Rightarrow> 'a console_state_scheme" where
  "shell_banner s =
     (let s = vga_puts [NEWLINE] s;
          s = vga_set_color VGA_COLOR_LIGHT_GREEN VGA_COLOR_BLACK s;
          s = vga_puts (str ''FlowDay-OS Shell v0.1'' @ [NEWLINE]) s;
          s = vga_set_color VGA_COLOR_WHITE VGA_COLOR_BLACK s;
          s = vga_puts (str ''Type '' @ [QUOTE] @ str ''help'' @ [QUOTE] @ str '' for available commands.'' @ [NEWLINE]) s;
          s = vga_puts [NEWLINE] s
      in vga_puts (str ''Shell is ready. Prompt should appear below.'' @ [NEWLINE]) s)"

definition shell_prompt :: "'a shell_state_scheme \<Rightarrow> 'a shell_state_scheme" where
  "shell_prompt s =
     (let s = vga_set_color VGA_COLOR_LIGHT_CYAN VGA_COLOR_BLACK s;
          s = vga_puts (str ''FlowDay-OS> '') s;
          s = vga_set_color VGA_COLOR_WHITE VGA_COLOR_BLACK s
      in s\<lparr>input_pos := 0, vmem := snd (memset (input_buffer s) 0 SHELL_MAX_LINE_LENGTH (vmem s))\<rparr>)"

text \<open>One key. The result says whether the line was finished; the outcome of its command is ignored unless
  the command does not return.\<close>

definition shell_key :: "shell_env \<Rightarrow> u8 \<Rightarrow> 'a shell_state_scheme \<Rightarrow> (bool \<times> outcome \<times> 'a shell_state_scheme) option" where
  "shell_key env key s =
     (if key = NEWLINE \<or> key = CARRIAGE_RETURN
      then let s = vga_putchar NEWLINE s
           in if 0 < input_pos s
              then map_option (Pair True) (shell_process_command env (input_buffer s) s)
              else Some (True, Returns 0, s)
      else if key = BACKSPACE
      then if 0 < input_pos s
           then let s = s\<lparr>input_pos := input_pos s - 1\<rparr>;
                    s = s\<lparr>vmem := (vmem s)(input_buffer s + input_pos s := 0)\<rparr>
                in Some (False, Returns 0, vga_putchar BACKSPACE (vga_putchar (of_char CHR '' '') (vga_putchar BACKSPACE s)))
           else Some (False, Returns 0, s)
      else if 32 \<le> key \<and> key < 127
      then if input_pos s < SHELL_MAX_LINE_LENGTH - 1
           then let s = s\<lparr>vmem := (vmem s)(input_buffer s + input_pos s := key), input_pos := input_pos s + 1\<rparr>
                in Some (False, Returns 0, vga_putchar key s)
           else Some (False, Returns 0, s)
      else Some (False, Returns 0, s))"

text \<open>One round of the inner loop, up to \<^verbatim>\<open>hlt\<close>; when the line is finished the outer loop shows the prompt.\<close>

definition shell_round :: "shell_env \<Rightarrow> 'a shell_state_scheme \<Rightarrow> (outcome \<times> 'a shell_state_scheme) option" where
  "shell_round env s =
     (let s = s\<lparr>cpu := (cpu s)\<lparr>r_eflags := r_eflags (cpu s) OR 0x200\<rparr>\<rparr>;
          (available, s) = keyboard_is_key_available (e_dev env) s
      in if available
         then let (key, s) = keyboard_get_key s
              in map_option (\<lambda>(finished, out, s). (out, case out of Returns _ \<Rightarrow> if finished then shell_prompt s else s | _ \<Rightarrow> s))
                   (shell_key env key s)
         else Some (Returns 0, s))"

text \<open>\<open>n\<close> rounds of \<open>shell_run\<close>, with what interrupts do between them, as long as the task keeps the processor.\<close>

fun shell_rounds :: "shell_env \<Rightarrow> ('a shell_state_scheme \<Rightarrow> 'a shell_state_scheme) \<Rightarrow> nat \<Rightarrow> 'a shell_state_scheme \<Rightarrow> 'a shell_state_scheme command_result" where
  "shell_rounds env intr 0 s = Some (Returns 0, s)"
| "shell_rounds env intr (Suc n) s =
     (case shell_round env s of
        None \<Rightarrow> None
      | Some (Returns _, s) \<Rightarrow> shell_rounds env intr n (intr s)
      | Some (out, s) \<Rightarrow> Some (out, s))"

definition shell_run :: "shell_env \<Rightarrow> ('a shell_state_scheme \<Rightarrow> 'a shell_state_scheme) \<Rightarrow> nat \<Rightarrow> 'a shell_state_scheme \<Rightarrow> 'a shell_state_scheme command_result" where
  "shell_run env intr n s = shell_rounds env intr n (shell_prompt (shell_banner s))"

end
