(* ===== verification/ShellSpec.thy ===== *)
theory ShellSpec
  imports Shell
begin

text \<open>
  What the shell does with text: the words of a command line, the counts of \<open>cmd_wc\<close>, the lines of
  \<open>cmd_head\<close> and \<open>cmd_tail\<close>. The reference for words is the list of maximal runs of characters that are not
  separators, the reference for lines is the list of lines with their newlines.
\<close>

section \<open>Words\<close>

function word_list :: "(u8 \<Rightarrow> bool) \<Rightarrow> u8 list \<Rightarrow> u8 list list" where
  "word_list sep cs =
     (case dropWhile sep cs of
        [] \<Rightarrow> []
      | c # rest \<Rightarrow> (c # takeWhile (\<lambda>c. \<not> sep c) rest) # word_list sep (dropWhile (\<lambda>c. \<not> sep c) rest))"
  by pat_completeness auto
termination
proof (relation "measure (\<lambda>(sep, cs). length cs)")
  fix sep and cs rest :: "u8 list" and c
  assume "dropWhile sep cs = c # rest"
  then have "length (c # rest) \<le> length cs" using length_dropWhile_le [of sep cs] by simp
  moreover have "length (dropWhile (\<lambda>c. \<not> sep c) rest) \<le> length rest" by (rule length_dropWhile_le)
  ultimately show "((sep, dropWhile (\<lambda>c. \<not> sep c) rest), (sep, cs)) \<in> measure (\<lambda>(sep, cs). length cs)" by simp
qed simp

declare word_list.simps [simp del]

lemma word_list_Nil [simp]: "word_list sep [] = []"
  by (simp add: word_list.simps)

lemma word_list_sep: "sep c \<Longrightarrow> word_list sep (c # cs) = word_list sep cs"
  by (simp add: word_list.simps [of sep "c # cs"] word_list.simps [of sep cs])

lemma word_list_skip: "(\<And>c. c \<in> set xs \<Longrightarrow> sep c) \<Longrightarrow> word_list sep (xs @ cs) = word_list sep cs"
  by (induction xs) (simp_all add: word_list_sep)

lemma word_list_word:
  assumes "w \<noteq> []" and "\<And>c. c \<in> set w \<Longrightarrow> \<not> sep c" and "rest = [] \<or> sep (hd rest)"
  shows "word_list sep (w @ rest) = w # word_list sep rest"
proof -
  obtain c v where w: "w = c # v" using assms(1) by (cases w) auto
  have "takeWhile (\<lambda>c. \<not> sep c) (v @ rest) = v" "dropWhile (\<lambda>c. \<not> sep c) (v @ rest) = rest"
    using assms(2,3) unfolding w by (cases rest; simp add: takeWhile_append2 dropWhile_append2)+
  then show ?thesis using assms(2) by (simp add: word_list.simps [of sep "c # v @ rest"] w)
qed

text \<open>A nonempty text starts with separators and a word.\<close>

lemma word_list_split:
  obtains (none) "\<And>c. c \<in> set cs \<Longrightarrow> sep c"
  | (some) xs w rest where "cs = xs @ w @ rest" "\<And>c. c \<in> set xs \<Longrightarrow> sep c" "w \<noteq> []" "\<And>c. c \<in> set w \<Longrightarrow> \<not> sep c" "rest = [] \<or> sep (hd rest)"
proof (cases "dropWhile sep cs")
  case Nil
  then show ?thesis using none by (auto simp: dropWhile_eq_Nil_conv)
next
  case (Cons c r)
  let ?xs = "takeWhile sep cs" and ?w = "takeWhile (\<lambda>c. \<not> sep c) (c # r)" and ?r = "dropWhile (\<lambda>c. \<not> sep c) (c # r)"
  have n: "\<not> sep c" using hd_dropWhile [of sep cs] unfolding Cons by simp
  show ?thesis
  proof (rule some)
    show "cs = ?xs @ ?w @ ?r" by (simp only: Cons [symmetric] takeWhile_dropWhile_id)
    show "sep x" if "x \<in> set ?xs" for x using that by (rule set_takeWhileD [THEN conjunct2])
    show "\<not> sep x" if "x \<in> set ?w" for x using that by (rule set_takeWhileD [THEN conjunct2])
    show "?w \<noteq> []" using n by simp
    show "?r = [] \<or> sep (hd ?r)" using hd_dropWhile [of "\<lambda>c. \<not> sep c" "c # r"] by blast
  qed
qed

section \<open>Cutting a line into words\<close>

lemma cstr_append: "cstr m a (xs @ ys) \<longleftrightarrow> (\<forall>i < length xs. m (a + word_of_nat i) = xs ! i \<and> xs ! i \<noteq> 0) \<and> cstr m (a + word_of_nat (length xs)) ys"
  by (induction xs arbitrary: a) (auto simp: less_Suc_eq_0_disj add.assoc)

lemma skip_while_cstr:
  assumes "cstr m a (xs @ ys)" and "\<And>c. c \<in> set xs \<Longrightarrow> p c" and "\<not> p (case ys of [] \<Rightarrow> 0 | y # _ \<Rightarrow> y)"
  shows "skip_while p m a = Some (a + word_of_nat (length xs))"
  using assms
proof (induction xs arbitrary: a)
  case Nil
  then show ?case by (subst skip_while.simps) (auto split: list.splits)
next
  case (Cons c xs)
  then have "skip_while p m (a + 1) = Some (a + 1 + word_of_nat (length xs))" by (intro Cons.IH) auto
  then show ?case using Cons.prems by (subst skip_while.simps) simp
qed

lemma is_space_zero [simp]: "\<not> is_space 0" "\<not> is_blank 0"
  by (simp_all add: is_space_def is_blank_def)

lemma offset_distinct:
  assumes "i < j" and "unat (a :: u32) + j < 4294967296"
  shows "a + word_of_nat i \<noteq> a + word_of_nat j" "unat (a + word_of_nat j) = unat a + j"
proof -
  have "unat (word_of_nat j :: u32) = j" using assms(2) by (intro unat_u32_of_nat) simp
  then show "unat (a + word_of_nat j) = unat a + j" using assms(2) by (subst unat_u32_add) simp_all
  have "(word_of_nat i :: u32) \<noteq> word_of_nat j" using assms by (simp add: u32_eq_unat unat_u32_of_nat)
  then show "a + word_of_nat i \<noteq> a + word_of_nat j" by simp
qed

lemma tokenize_words:
  assumes "cstr m a cs" and "unat a + length cs < 4294967296"
  shows "\<exists>args m'. tokenize n a a m = Some (args, m') \<and> list_all2 (cstr m') args (take n (word_list is_space cs)) \<and>
    (\<forall>b. unat b < unat a \<or> unat a + length cs \<le> unat b \<longrightarrow> m' b = m b)"
  using assms
proof (induction n arbitrary: a m cs)
  case (Suc n)
  show ?case
  proof (cases rule: word_list_split [of cs is_space])
    case none
    show ?thesis
    proof (cases cs)
      case (Cons c r)
      have "skip_while is_space m a = Some (a + word_of_nat (length cs))"
        by (rule skip_while_cstr [of _ _ _ "[]"]) (use Suc.prems none in auto)
      moreover have "m (a + word_of_nat (length cs)) = 0" "m a \<noteq> 0" using Suc.prems(1) Cons by (auto simp: cstr_nth)
      moreover have "word_list is_space cs = []" using word_list_skip [of cs is_space "[]"] none by simp
      ultimately show ?thesis by simp
    qed (use Suc.prems in simp)
  next
    case (some xs w rest)
    define st where "st = a + word_of_nat (length xs)"
    define e where "e = st + word_of_nat (length w)"
    have len: "unat a + length xs + length w + length rest < 4294967296" using Suc.prems(2) some(1) by simp
    have m: "cstr m a (xs @ w @ rest)" "cstr m st (w @ rest)" "cstr m e rest"
      using Suc.prems(1) some(1) by (auto simp: cstr_append st_def e_def)
    have u: "unat st = unat a + length xs" "unat e = unat a + length xs + length w"
      using offset_distinct(2) [of "length xs" "length xs"] unat_u32_add [of a "word_of_nat (length xs)"] unat_u32_add [of st "word_of_nat (length w)"]
        unat_u32_of_nat [of "length xs"] unat_u32_of_nat [of "length w"] len by (auto simp: st_def e_def)
    have f: "word_list is_space cs = w # word_list is_space rest" using some by (simp add: word_list_skip word_list_word)
    have s1: "skip_while is_space m a = Some st"
      unfolding st_def
    proof (rule skip_while_cstr [OF m(1)])
      show "\<not> is_space (case w @ rest of [] \<Rightarrow> 0 | y # _ \<Rightarrow> y)" using some(3,4) by (cases w) auto
    qed (use some(2) in auto)
    have s2: "skip_while (\<lambda>c. c \<noteq> 0 \<and> \<not> is_space c) m st = Some e"
      unfolding e_def
    proof (rule skip_while_cstr [OF m(2)])
      fix c assume "c \<in> set w"
      then show "c \<noteq> 0 \<and> \<not> is_space c" using some(4) cstr_nonzero [OF m(2)] by auto
    qed (use some(5) in \<open>auto split: list.splits\<close>)
    have nz: "m a \<noteq> 0" "m st \<noteq> 0" using m(1,2) some(3) by (cases xs; cases w; auto)+
    have word: "cstr m' st w" if "m' e = 0" "\<And>b. unat a \<le> unat b \<Longrightarrow> unat b < unat e \<Longrightarrow> m' b = m b" for m'
    proof -
      have "m' (st + word_of_nat i) = w ! i \<and> w ! i \<noteq> 0" if "i < length w" for i
      proof -
        have "unat (st + word_of_nat i) = unat st + i" using u that len by (subst unat_u32_add) (simp_all add: unat_u32_of_nat)
        then show ?thesis using that(1) \<open>\<And>b. unat a \<le> unat b \<Longrightarrow> unat b < unat e \<Longrightarrow> m' b = m b\<close> [of "st + word_of_nat i"] u m(2)
          by (simp add: cstr_append)
      qed
      then show ?thesis using that(1) by (simp add: cstr_nth e_def)
    qed
    show ?thesis
    proof (cases rest)
      case Nil
      then have me: "m e = 0" using m(3) by simp
      have "tokenize n e e m = Some ([], m)" using me by (cases n) simp_all
      then have "tokenize (Suc n) a a m = Some ([st], m)" using nz s1 s2 me by simp
      moreover have "take (Suc n) (word_list is_space cs) = [w]" using f Nil by simp
      ultimately show ?thesis using word [of m] me by simp
    next
      case (Cons c r)
      then have me: "m e \<noteq> 0" "is_space c" using m(3) some(5) by auto
      let ?m = "m(e := 0)"
      have ue: "unat (e + 1) = unat e + 1" using u len Cons by (subst unat_u32_add) simp_all
      have "cstr ?m (e + 1) r"
      proof (rule cstr_cong)
        show "cstr m (e + 1) r" using m(3) Cons by simp
        fix i assume "i \<le> length r"
        then have "unat (e + 1 + word_of_nat i) = unat e + 1 + i"
          using u ue len Cons by (subst unat_u32_add) (simp_all add: unat_u32_of_nat)
        then have "unat (e + 1 + word_of_nat i) \<noteq> unat e" by linarith
        then have "e + 1 + word_of_nat i \<noteq> e" by (rule contrapos_nn) (rule arg_cong)
        then show "?m (e + 1 + word_of_nat i) = m (e + 1 + word_of_nat i)" by (rule fun_upd_other)
      qed
      moreover have "unat (e + 1) + length r < 4294967296" using u ue len Cons by simp
      ultimately obtain args m' where r: "tokenize n (e + 1) (e + 1) ?m = Some (args, m')"
          "list_all2 (cstr m') args (take n (word_list is_space r))"
          "\<forall>b. unat b < unat (e + 1) \<or> unat (e + 1) + length r \<le> unat b \<longrightarrow> m' b = ?m b"
        using Suc.IH by blast
      have "tokenize (Suc n) a a m = Some (st # args, m')" using nz s1 s2 me r(1) by simp
      moreover have "take (Suc n) (word_list is_space cs) = w # take n (word_list is_space r)" using f Cons me by (simp add: word_list_sep)
      moreover have "cstr m' st w" by (rule word) (use r(3) ue in auto)
      moreover have "m' b = m b" if "unat b < unat a \<or> unat a + length cs \<le> unat b" for b
        using r(3) [rule_format, of b] that u ue some(1) Cons by auto
      ultimately show ?thesis using r(2) by auto
    qed
  qed
qed simp

section \<open>Counting and selecting\<close>

definition wc_sep :: "u8 \<Rightarrow> bool" where
  "wc_sep c \<longleftrightarrow> c = of_char CHR '' '' \<or> c = TAB \<or> c = NEWLINE \<or> c = CARRIAGE_RETURN"

abbreviation newlines :: "u8 list \<Rightarrow> nat" where
  "newlines cs \<equiv> length (filter (\<lambda>c. c = NEWLINE) cs)"

lemma wc_step_eq:
  "wc_step c (l, w, b) = (l + (if c = NEWLINE then 1 else 0), w + (if wc_sep c \<and> b then 1 else 0), \<not> wc_sep c)"
  by (auto simp: wc_step_def wc_sep_def)

lemma wc_fold:
  "\<exists>w' b'. fold wc_step cs (l, w, b) = (l + word_of_nat (newlines cs), w', b') \<and>
     w' + (if b' then 1 else 0) = w + word_of_nat (if b then Suc (length (word_list wc_sep (dropWhile (\<lambda>c. \<not> wc_sep c) cs)))
        else length (word_list wc_sep cs))"
proof (induction cs arbitrary: l w b)
  case (Cons c cs)
  have n: "\<not> wc_sep c \<Longrightarrow> word_list wc_sep (c # cs) = (c # takeWhile (\<lambda>c. \<not> wc_sep c) cs) # word_list wc_sep (dropWhile (\<lambda>c. \<not> wc_sep c) cs)"
    by (simp add: word_list.simps [of wc_sep "c # cs"])
  let ?l = "l + (if c = NEWLINE then 1 else 0)" and ?w = "w + (if wc_sep c \<and> b then 1 else 0)"
  obtain w' b' where r: "fold wc_step cs (?l, ?w, \<not> wc_sep c) = (?l + word_of_nat (newlines cs), w', b')"
    "w' + (if b' then 1 else 0) = ?w + word_of_nat (if \<not> wc_sep c then Suc (length (word_list wc_sep (dropWhile (\<lambda>c. \<not> wc_sep c) cs)))
        else length (word_list wc_sep cs))" using Cons.IH by blast
  have f: "fold wc_step (c # cs) (l, w, b) = (l + word_of_nat (newlines (c # cs)), w', b')"
    using r(1) by (simp only: fold_simps comp_apply wc_step_eq) simp
  show ?case
    by (rule exI [of _ w'], rule exI [of _ b'], rule conjI [OF f], unfold r(2)) (use n in \<open>simp add: word_list_sep\<close>)
qed simp

fun split_lines :: "u8 list \<Rightarrow> u8 list list" where
  "split_lines [] = []"
| "split_lines (c # cs) =
     (if c = NEWLINE then [c] # split_lines cs
      else case split_lines cs of [] \<Rightarrow> [[c]] | l # ls \<Rightarrow> (c # l) # ls)"

lemma concat_split_lines [simp]: "concat (split_lines cs) = cs"
  by (induction cs) (auto split: list.splits)

lemma split_lines_Nil [simp]: "split_lines cs = [] \<longleftrightarrow> cs = []"
  by (cases cs) (auto split: list.splits)

lemma split_lines_terminated: "cs \<noteq> [] \<Longrightarrow> last cs = NEWLINE \<Longrightarrow> length (split_lines cs) = newlines cs"
  by (induction cs) (auto split: list.splits if_splits)

lemma head_text_lines: "head_text n text = concat (take (unat n) (split_lines text))"
proof (induction "text" arbitrary: n)
  case (Cons c cs)
  show ?case
  proof (cases "n = 0")
    case False
    then have u: "unat n = Suc (unat (n - 1))" using unat_u32_dec [of n] by (simp add: unat_gt_0)
    then show ?thesis using Cons False by (cases "split_lines cs") (auto simp: word_gt_0)
  qed simp
qed simp

lemma tail_from_lines:
  assumes "unat skipped \<le> unat skip" and "unat skip < 4294967295" and "unat skip - unat skipped < newlines cs"
  shows "tail_from skipped skip text cs = concat (drop (Suc (unat skip - unat skipped)) (split_lines cs))"
  using assms
proof (induction cs arbitrary: skipped)
  case (Cons c cs)
  show ?case
  proof (cases "c = NEWLINE")
    case nl: True
    show ?thesis
    proof (cases "skip < skipped + 1")
      case True
      then have "unat skip = unat skipped" using Cons.prems unat_u32_inc [of skipped] by (simp add: word_less_nat_alt)
      then show ?thesis using nl True by simp
    next
      case False
      then have lt: "unat skipped < unat skip" "unat (skipped + 1) = Suc (unat skipped)"
        using Cons.prems unat_u32_inc [of skipped] by (simp_all add: word_less_nat_alt)
      then have "tail_from (skipped + 1) skip text cs = concat (drop (Suc (unat skip - unat (skipped + 1))) (split_lines cs))"
        by (intro Cons.IH) (use Cons.prems nl in auto)
      moreover have "unat skip - unat skipped = Suc (unat skip - unat (skipped + 1))" using lt by simp
      ultimately show ?thesis using nl False by simp
    qed
  next
    case False
    then show ?thesis using Cons by (cases "split_lines cs") auto
  qed
qed simp

section \<open>Properties\<close>

text \<open>The words of a command line become the arguments, at most fifteen: whatever blanks separate them, the addresses
  that are collected point to the words as terminated strings, and no byte outside the line changes.\<close>

theorem tokenize_correct:
  assumes "cstr m a cs" and "unat a + length cs < 4294967296"
  shows "\<exists>args m'. tokenize (SHELL_MAX_ARGS - 1) a a m = Some (args, m') \<and> list_all2 (cstr m') args (take 15 (word_list is_space cs)) \<and>
    (\<forall>b. unat b < unat a \<or> unat a + length cs \<le> unat b \<longrightarrow> m' b = m b)"
  using tokenize_words [OF assms, of "SHELL_MAX_ARGS - 1"] by simp

text \<open>C26: the one pass of \<open>cmd_wc\<close> over a file counts its newlines and its words.\<close>

theorem wc_count_correct:
  "wc_count text = (word_of_nat (newlines text), word_of_nat (length (word_list wc_sep text)))"
  using wc_fold [of "text" 0 0 False] by (auto simp: wc_count_def)

theorem tokenize_correct_witness:
  "\<exists>args m'. tokenize 15 0x100 0x100 string_example = Some (args, m') \<and> list_all2 (cstr m') args [[97, 98]]"
proof -
  have "word_list is_space [97, 98] = [[97, 98]]" by (simp add: word_list.simps is_space_def is_blank_def)
  then show ?thesis using tokenize_correct [OF string_example_cstr(1)] by auto
qed

text \<open>C27: \<open>cmd_head\<close> prints the first lines of a file. \<open>cmd_tail\<close> starts one line late: of a file of complete lines
  it prints the last lines without the first of them, one less than asked for.\<close>

theorem head_tail_lines:
  assumes "length text < 4294967295" and "text \<noteq> []" and "last text = NEWLINE" and "n \<noteq> 0"
  shows "head_text n text = concat (take (unat n) (split_lines text)) \<and>
    tail_text n text = concat (drop (length (split_lines text) - min (unat n) (length (split_lines text)) + 1) (split_lines text))"
proof -
  define t where "t = newlines text"
  have t: "length (split_lines text) = t" using split_lines_terminated [OF assms(2,3)] by (simp add: t_def)
  have "t \<le> length text" by (simp add: t_def)
  moreover have "t \<noteq> 0" unfolding t [symmetric] using assms(2) by simp
  ultimately have t0: "0 < t" "t < 4294967295" using assms(1) by linarith+
  have u: "unat (word_of_nat t :: u32) = t" using t0 by (intro unat_u32_of_nat) simp
  define k :: u32 where "k = (if n < word_of_nat t then word_of_nat t - n else 0)"
  have k: "unat k = t - min (unat n) t" using u by (auto simp: k_def word_less_nat_alt unat_sub word_le_nat_alt)
  have "tail_text n text = tail_from 0 k text text" by (simp add: tail_text_def k_def t_def)
  also have "\<dots> = concat (drop (Suc (unat k - unat (0 :: u32))) (split_lines text))"
    by (rule tail_from_lines) (use k t0 assms(4) in \<open>auto simp: t_def [symmetric] unat_gt_0\<close>)
  finally show ?thesis using head_text_lines k t by simp
qed

theorem head_tail_lines_witness:
  "head_text 1 (str ''ab'' @ [NEWLINE] @ str ''cd'' @ [NEWLINE]) = str ''ab'' @ [NEWLINE] \<and>
   tail_text 1 (str ''ab'' @ [NEWLINE] @ str ''cd'' @ [NEWLINE]) = []"
  using head_tail_lines [of "str ''ab'' @ [NEWLINE] @ str ''cd'' @ [NEWLINE]" 1] by simp

end
