(* ===== verification/ShellLine.thy ===== *)
theory ShellLine
  imports ShellSpec
begin

text \<open>
  What the shell does with a line: the copy on the heap, the words in it, the command that they name, and the
  release of the copy.
\<close>

section \<open>Output\<close>

definition crlf :: "u8 list \<Rightarrow> u8 list" where
  "crlf cs = concat (map (\<lambda>c. if c = NEWLINE then [13, NEWLINE] else [c]) cs)"

lemma serial_putchar_output:
  assumes "serial_ready dev"
  shows "\<exists>t'. serial_putchar dev c t = Some t' \<and> serial_output t' = serial_output t @ [c]"
proof -
  have "serial_putchar dev c t = Some (Out serial_port c # In (serial_port + 5) (dev t (serial_port + 5)) # t)"
    unfolding serial_putchar_def using assms by (subst serial_wait_transmit.simps) (simp add: serial_ready_def inb_def outb_def)
  then show ?thesis by simp
qed

lemma serial_puts_output:
  assumes "serial_ready dev"
  shows "\<exists>t'. serial_puts dev cs t = Some t' \<and> serial_output t' = serial_output t @ crlf cs"
proof (induction cs arbitrary: t)
  case (Cons c cs)
  obtain t1 where t1: "serial_putchar dev 13 t = Some t1" "serial_output t1 = serial_output t @ [13]"
    using serial_putchar_output [OF assms] by blast
  obtain t2 where t2: "serial_putchar dev c t1 = Some t2" "serial_output t2 = serial_output t1 @ [c]"
    using serial_putchar_output [OF assms] by blast
  obtain t3 where t3: "serial_putchar dev c t = Some t3" "serial_output t3 = serial_output t @ [c]"
    using serial_putchar_output [OF assms] by blast
  show ?case using t1 t2 t3 Cons [of t2] Cons [of t3] by (cases "c = NEWLINE") (auto simp: crlf_def)
qed (simp add: crlf_def)

lemma put_output:
  assumes "serial_ready (e_dev env)"
  obtains t where "put env cs s = Some (s\<lparr>io_trace := t\<rparr>)" "serial_output t = serial_output (io_trace s) @ crlf cs"
  using serial_puts_output [OF assms, of cs "io_trace s"] by (auto simp: put_def)

section \<open>The copy of the line\<close>

lemma kmalloc_low:
  assumes "heap_rel s bs" and "n \<noteq> 0" "unat n \<le> 0xF0000000" and "kmalloc n s = Some (p, s')" and "unat a < 0x400000"
  shows "vmem s' a = vmem s a"
proof -
  have al: "vmem s' a = vmem s a" if al: "allocated k b s p s'" for k b
  proof -
    obtain b' where so: "same_outside (header_addrs 0x400000 b') (vmem s) (vmem s')" using al by (auto simp: allocated_def)
    have "unat a < h" if "h \<in> header_addrs 0x400000 b'" for h using header_addrs_range [OF that] assms(5) by linarith
    then show ?thesis using so [unfolded same_outside_def, rule_format, of "unat a"] unat_u32_less [of a] by simp
  qed
  obtain q t where q: "kmalloc n s = Some (q, t)" "(\<exists>k b. allocated k b s q t) \<or> vmem t = vmem s"
    using kmalloc_refines [OF assms(1-3)] by (auto split: if_splits)
  then show ?thesis using assms(4) al by auto
qed

lemma strlen_cstr: "cstr m a cs \<Longrightarrow> strlen m a = Some (word_of_nat (length cs))"
  using strlen_loop_cstr [of m a 0 cs] by (simp add: strlen_def)

lemma line_copy:
  assumes rel: "heap_rel s bs" and p: "(unat p, k) \<in> live 0x400000 bs" "length cs < k"
    and line: "cstr (vmem s) line cs" "unat line + length cs < 0x400000"
  obtains m args m' where "strcpy p line (vmem s) = Some (p, m)" "tokenize 15 p p m = Some (args, m')"
    "list_all2 (cstr m') args (take 15 (word_list is_space cs))" "heap_rel (s\<lparr>vmem := m'\<rparr>) bs"
proof -
  have r: "0x400010 \<le> unat p" "unat p + k < 4294967296" using live_range [OF p(1)] heap_rel_limit [OF rel] by linarith+
  define m where "m = copy_bytes p line (length cs + 1) (vmem s)"
  have "unat (p - line) = unat p - unat line" using r line(2) by (intro unat_sub) (simp add: word_le_nat_alt)
  then have "length cs < unat (p - line)" using r(1) line(2) by linarith
  then have cp: "strcpy p line (vmem s) = Some (p, m)"
    using strcpy_loop_cstr [OF line(1), of p] by (simp add: strcpy_def m_def)
  have "cstr m p cs" unfolding m_def by (rule cstr_copy [OF line(1)]) (use line(2) in simp_all)
  moreover have "unat p + length cs < 4294967296" using r p(2) by linarith
  ultimately obtain args m' where t: "tokenize 15 p p m = Some (args, m')" "list_all2 (cstr m') args (take 15 (word_list is_space cs))"
      "\<And>b. unat b < unat p \<or> unat p + length cs \<le> unat b \<Longrightarrow> m' b = m b"
    using tokenize_words [of m p cs 15] by blast
  have "heap_rel (s\<lparr>vmem := m'\<rparr>) bs"
  proof (rule client_write [OF rel p(1)])
    fix x assume x: "x < 4294967296" "x < unat p \<or> unat p + k \<le> x"
    have u: "unat (word_of_nat x :: u32) = x" using x(1) by (rule unat_u32_of_nat)
    have "m' (word_of_nat x) = m (word_of_nat x)" by (rule t(3)) (use u x p(2) in auto)
    also have "\<dots> = vmem s (word_of_nat x)"
      using u x p(2) r by (auto simp: m_def copy_bytes_def unat_sub_if_size word_size)
    finally show "m' (word_of_nat x) = vmem s (word_of_nat x)" .
  qed
  then show ?thesis using that [OF cp t(1,2)] by blast
qed

section \<open>Processing a line\<close>

lemma shell_line_start:
  assumes l: "cstr (vmem s) line cs" "line \<noteq> 0" "unat line + length cs < 0x400000" and w: "word_list is_space cs \<noteq> []"
  obtains line' ys where "shell_process_command env line s = do {
      (p, s) \<leftarrow> kmalloc (word_of_nat (length ys) + 1) s;
      if p = 0 then Some (Returns (- 1), s)
      else do {
        (_, m) \<leftarrow> strcpy p line' (vmem s);
        (args, m) \<leftarrow> tokenize (SHELL_MAX_ARGS - 1) p p m;
        let s = s\<lparr>vmem := m\<rparr>;
        if args = [] then Some (Returns 0, kfree p s)
        else do {
          (out, s) \<leftarrow> shell_execute env args s;
          case out of Returns _ \<Rightarrow> Some (out, kfree p s) | _ \<Rightarrow> Some (out, s)
        }
      }
    }" "cstr (vmem s) line' ys" "unat line' + length ys < 0x400000" "word_list is_space ys = word_list is_space cs"
proof -
  define xs ys where "xs = takeWhile is_blank cs" and "ys = dropWhile is_blank cs"
  have cs: "cs = xs @ ys" by (simp add: xs_def ys_def)
  have xb: "is_blank c" if "c \<in> set xs" for c using that unfolding xs_def by (rule set_takeWhileD [THEN conjunct2])
  have wl: "word_list is_space ys = word_list is_space cs" unfolding cs by (rule word_list_skip [symmetric]) (simp add: is_space_def xb)
  obtain y zs where y: "ys = y # zs" using w wl by (cases ys) auto
  have hb: "\<not> is_blank y" using hd_dropWhile [of is_blank cs] y unfolding ys_def by simp
  define line' where "line' = line + word_of_nat (length xs)"
  have len: "unat line + length xs + length ys < 0x400000" using l(3) cs by simp
  have m: "cstr (vmem s) line (xs @ ys)" "cstr (vmem s) line' ys" using l(1) cs by (auto simp: cstr_append line'_def)
  have ul: "unat line' = unat line + length xs"
    using len unat_u32_of_nat [of "length xs"] unat_u32_add [of line "word_of_nat (length xs)"] by (simp add: line'_def)
  have sk: "skip_while is_blank (vmem s) line = Some line'"
    unfolding line'_def by (rule skip_while_cstr [OF m(1) xb]) (use y hb in simp_all)
  have nz: "vmem s line' \<noteq> 0" using m(2) y by auto
  have "unat (word_of_nat (length cs) :: u32) = length cs" using l(3) by (intro unat_u32_of_nat) simp
  then have "(word_of_nat (length cs) :: u32) \<noteq> 0" using cs y by (metis append_is_Nil_conv length_0_conv list.simps(3) unat_0)
  then show ?thesis using that [of ys line'] l(2) strlen_cstr [OF l(1)] strlen_cstr [OF m(2)] sk nz m(2) ul len wl
    by (simp add: shell_process_command_def Let_def)
qed

definition after_command :: "u32 \<Rightarrow> 'a shell_state_scheme command_result \<Rightarrow> 'a shell_state_scheme command_result" where
  "after_command p r = Option.bind r (\<lambda>(out, s). case out of Returns _ \<Rightarrow> Some (out, kfree p s) | _ \<Rightarrow> Some (out, s))"

lemma shell_line_result:
  fixes s :: "'a shell_state_scheme"
  assumes rel: "heap_rel s bs" and l: "cstr (vmem s) line cs" "line \<noteq> 0" "unat line + length cs < 0x400000" and w: "word_list is_space cs \<noteq> []"
  obtains (full) s1 bs1 where "shell_process_command env line s = Some (Returns (- 1), s1)" "heap_rel s1 bs1" "live 0x400000 bs1 = live 0x400000 bs"
      "heap_state.more s1 = heap_state.more s"
  | (run) p k args s1 bs1 where "shell_process_command env line s = after_command p (shell_execute env args s1)"
      "list_all2 (cstr (vmem s1)) args (take 15 (word_list is_space cs))" "heap_rel s1 bs1" "heap_state.more s1 = heap_state.more s"
      "live 0x400000 bs1 = insert (unat p, k) (live 0x400000 bs)" "unat p \<notin> fst ` live 0x400000 bs"
proof -
  obtain line' ys where st: "shell_process_command env line s = do {
      (p, s) \<leftarrow> kmalloc (word_of_nat (length ys) + 1) s;
      if p = 0 then Some (Returns (- 1), s)
      else do {
        (_, m) \<leftarrow> strcpy p line' (vmem s);
        (args, m) \<leftarrow> tokenize (SHELL_MAX_ARGS - 1) p p m;
        let s = s\<lparr>vmem := m\<rparr>;
        if args = [] then Some (Returns 0, kfree p s)
        else do {
          (out, s) \<leftarrow> shell_execute env args s;
          case out of Returns _ \<Rightarrow> Some (out, kfree p s) | _ \<Rightarrow> Some (out, s)
        }
      }
    }" and y: "cstr (vmem s) line' ys" "unat line' + length ys < 0x400000" "word_list is_space ys = word_list is_space cs"
    by (rule shell_line_start [OF l w])
  let ?n = "word_of_nat (length ys) + 1 :: u32"
  have un: "unat ?n = length ys + 1" using y(2) unat_u32_of_nat [of "length ys + 1"] by (simp add: add.commute)
  then have n: "?n \<noteq> 0" "unat ?n \<le> 0xF0000000" using y(2) by auto
  obtain p s1 bs1 where k: "kmalloc ?n s = Some (p, s1)" "heap_state.more s1 = heap_state.more s" "heap_rel s1 bs1"
      "p = 0 \<and> live 0x400000 bs1 = live 0x400000 bs \<or> (\<exists>k. unat ?n \<le> k \<and> k < unat ?n + 24 \<and>
         live 0x400000 bs1 = insert (unat p, k) (live 0x400000 bs) \<and> unat p \<notin> fst ` live 0x400000 bs)"
    using kmalloc_result [OF rel n] by blast
  have low: "cstr (vmem s1) line' ys"
  proof -
    have "vmem s1 (line' + word_of_nat i) = vmem s (line' + word_of_nat i)" if "i \<le> length ys" for i
    proof (rule kmalloc_low [OF rel n k(1)])
      show "unat (line' + word_of_nat i) < 0x400000"
        using that y(2) unat_u32_of_nat [of i] by (subst unat_u32_add) simp_all
    qed
    then show ?thesis using y(1) by (simp add: cstr_nth)
  qed
  show ?thesis
  proof (cases "p = 0")
    case True
    have "live 0x400000 bs1 = live 0x400000 bs"
    proof (rule ccontr)
      assume "live 0x400000 bs1 \<noteq> live 0x400000 bs"
      then obtain k where "(unat p, k) \<in> live 0x400000 bs1" using k(4) by blast
      then show False using live_range [of "unat p" k] True by fastforce
    qed
    then show ?thesis using full [of s1 bs1] st k True by simp
  next
    case False
    then obtain j where j: "unat ?n \<le> j" "live 0x400000 bs1 = insert (unat p, j) (live 0x400000 bs)" "unat p \<notin> fst ` live 0x400000 bs"
      using k(4) by blast
    have lv: "(unat p, j) \<in> live 0x400000 bs1" "length ys < j" using j(1,2) un by auto
    obtain m args m' where c: "strcpy p line' (vmem s1) = Some (p, m)" "tokenize 15 p p m = Some (args, m')"
        "list_all2 (cstr m') args (take 15 (word_list is_space ys))" "heap_rel (s1\<lparr>vmem := m'\<rparr>) bs1"
      by (rule line_copy [OF k(3) lv low y(2)])
    have "args \<noteq> []" using c(3) w y(3) by (cases "word_list is_space cs") auto
    then have "shell_process_command env line s = after_command p (shell_execute env args (s1\<lparr>vmem := m'\<rparr>))"
      using st k(1) False c(1,2) by (simp add: after_command_def Let_def)
    then show ?thesis using run [of p args "s1\<lparr>vmem := m'\<rparr>" bs1 j] c(3,4) k(2) j(2,3) y(3) by simp
  qed
qed

section \<open>The command table\<close>

definition handler_of :: "u8 list \<Rightarrow> command_handler option" where
  "handler_of w = map_of (map (\<lambda>(name, _, handler). (str name, handler)) builtin_commands) w"

definition table_ready :: "'a shell_state_scheme \<Rightarrow> bool" where
  "table_ready s \<longleftrightarrow> command_count s = 24 \<and> length (commands s) = 32 \<and>
     take 24 (commands s) = map (\<lambda>(name, description, handler).
       \<lparr>c_name = str name, c_description = str description, c_handler = Some handler\<rparr>) builtin_commands"

lemma length_builtin_commands: "length builtin_commands = 24"
  by (simp add: builtin_commands_def)

lemma register_all:
  assumes "length (commands s) = 32" and "unat (command_count s) + length bs \<le> 32"
  defines "s' \<equiv> fold (\<lambda>(name, description, handler). shell_register_command name description handler) bs s"
  shows "length (commands s') = 32 \<and> unat (command_count s') = unat (command_count s) + length bs \<and>
    take (unat (command_count s) + length bs) (commands s') = take (unat (command_count s)) (commands s) @
      map (\<lambda>(name, description, handler). \<lparr>c_name = str name, c_description = str description, c_handler = Some handler\<rparr>) bs"
  using assms(1,2) unfolding s'_def
proof (induction bs arbitrary: s)
  case (Cons b bs)
  obtain name description handler where b: "b = (name, description, handler)" by (cases b)
  let ?c = "unat (command_count s)" and ?t = "shell_register_command name description handler s"
  have "?c < 32" using Cons.prems(2) by simp
  then have t: "commands ?t = (commands s)[?c := \<lparr>c_name = str name, c_description = str description, c_handler = Some handler\<rparr>]"
      "unat (command_count ?t) = Suc ?c"
    by (auto simp: shell_register_command_def word_le_nat_alt unat_u32_add)
  show ?case using Cons.IH [of ?t] Cons.prems t \<open>?c < 32\<close> by (simp add: b take_Suc_conv_app_nth)
qed simp

lemma shell_init_ready: "table_ready (shell_init s)"
proof -
  define t where "t = s\<lparr>command_count := 0, input_pos := 0, vmem := snd (memset (input_buffer s) 0 SHELL_MAX_LINE_LENGTH (vmem s)),
    commands := replicate MAX_COMMANDS \<lparr>c_name = [], c_description = [], c_handler = None\<rparr>\<rparr>"
  note l = length_builtin_commands
  have t: "length (commands t) = 32" "command_count t = 0" by (simp_all add: t_def)
  have i: "shell_init s = fold (\<lambda>(name, description, handler). shell_register_command name description handler) builtin_commands t"
    by (simp add: shell_init_def t_def Let_def)
  have "unat (command_count (shell_init s)) = unat (24 :: u32)" using register_all [of t builtin_commands] t l by (simp add: i)
  then have "command_count (shell_init s) = 24" by (simp only: word_unat_eq_iff)
  then show ?thesis using register_all [of t builtin_commands] t l by (simp add: i table_ready_def)
qed

lemma register_frame:
  "\<exists>c n. fold (\<lambda>(name, description, handler). shell_register_command name description handler) bs s = s\<lparr>commands := c, command_count := n\<rparr>"
proof (induction bs arbitrary: s)
  case Nil
  have "s = s\<lparr>commands := commands s, command_count := command_count s\<rparr>" by simp
  then show ?case by (metis fold_simps(1))
next
  case (Cons b bs)
  obtain name description handler where b: "b = (name, description, handler)" by (cases b)
  let ?full = "word_of_nat MAX_COMMANDS \<le> command_count s"
  define c n where "c = (if ?full then commands s else (commands s)[unat (command_count s) :=
      \<lparr>c_name = str name, c_description = str description, c_handler = Some handler\<rparr>])"
    and "n = (if ?full then command_count s else command_count s + 1)"
  have "shell_register_command name description handler s = s\<lparr>commands := c, command_count := n\<rparr>"
    by (simp add: shell_register_command_def c_def n_def)
  then show ?case using Cons [of "s\<lparr>commands := c, command_count := n\<rparr>"] by (simp add: b)
qed

lemma shell_init_frame:
  obtains c n where "shell_init s = s\<lparr>command_count := n, input_pos := 0, vmem := snd (memset (input_buffer s) 0 256 (vmem s)), commands := c\<rparr>"
proof -
  let ?t = "s\<lparr>command_count := 0, input_pos := 0, vmem := snd (memset (input_buffer s) 0 256 (vmem s)),
    commands := replicate MAX_COMMANDS \<lparr>c_name = [], c_description = [], c_handler = None\<rparr>\<rparr>"
  obtain c n where "fold (\<lambda>(name, description, handler). shell_register_command name description handler) builtin_commands ?t = ?t\<lparr>commands := c, command_count := n\<rparr>"
    using register_frame by blast
  then show ?thesis using that [of c n] by (simp add: shell_init_def)
qed

lemma heap_rel_truncate: "heap_rel (heap_state.truncate s) bs = heap_rel s bs"
  by (simp add: heap_state.defs heap_rel_def paging_inv_def pmm_inv_def pmm_wf_def pmm_shape_def used_frames_def page_used_def
    tables_wf_def free_frames_def)

lemma find_first:
  assumes "i < length xs" and "f (xs ! i) = w" and "\<forall>j < i. f (xs ! j) \<noteq> w"
  shows "map_of (map (\<lambda>x. (f x, g x)) xs) w = Some (g (xs ! i))"
  using assms
proof (induction xs arbitrary: i)
  case (Cons x xs)
  show ?case
  proof (cases i)
    case (Suc k)
    have "\<forall>j < k. f (xs ! j) \<noteq> w" using Cons.prems(3) Suc by fastforce
    then show ?thesis using Cons.IH [of k] Cons.prems Suc by force
  qed (use Cons.prems in simp)
qed simp

lemma map_of_map_option: "map_of (map (\<lambda>x. (f x, Some (g x))) xs) w = map_option Some (map_of (map (\<lambda>x. (f x, g x)) xs) w)"
  by (induction xs) auto

lemma handler_of_table:
  assumes "table_ready s"
  shows "case shell_get_command w s of None \<Rightarrow> handler_of w = None
    | Some i \<Rightarrow> handler_of w \<noteq> None \<and> c_handler (commands s ! i) = handler_of w"
proof -
  define xs where "xs = take 24 (commands s)"
  have len: "length xs = 24" using assms by (simp add: table_ready_def xs_def length_builtin_commands)
  have nth: "commands s ! i = xs ! i" if "i < 24" for i using that by (simp add: xs_def)
  have "map (\<lambda>x. (c_name x, c_handler x)) xs = map (\<lambda>(name, _, handler). (str name, Some handler)) builtin_commands"
    using assms by (simp add: table_ready_def xs_def case_prod_unfold)
  then have h: "map_of (map (\<lambda>x. (c_name x, c_handler x)) xs) w = map_option Some (handler_of w)"
    unfolding handler_of_def by (simp add: map_of_map_option case_prod_unfold)
  show ?thesis
  proof (cases "shell_get_command w s")
    case None
    then have "\<forall>i < 24. c_name (xs ! i) \<noteq> w" using assms nth by (auto simp: shell_get_command_def for_find_None table_ready_def)
    then have "w \<notin> c_name ` set xs" using len by (auto simp: in_set_conv_nth)
    then have "map_of (map (\<lambda>x. (c_name x, c_handler x)) xs) w = None" by (force simp: map_of_eq_None_iff image_iff)
    then show ?thesis using h None by simp
  next
    case (Some i)
    then have i: "i < 24" "c_name (xs ! i) = w" "\<forall>j < i. c_name (xs ! j) \<noteq> w"
      using assms nth by (auto simp: shell_get_command_def for_find_Some table_ready_def)
    then have "map_of (map (\<lambda>x. (c_name x, c_handler x)) xs) w = Some (c_handler (xs ! i))" using len by (intro find_first) auto
    then show ?thesis using h Some nth [OF i(1)] by auto
  qed
qed

lemma more_shell:
  fixes s s' :: "'a shell_state_scheme"
  assumes "heap_state.more s' = heap_state.more s"
  shows "io_trace s' = io_trace s" "commands s' = commands s" "command_count s' = command_count s"
  using assms by (cases s; cases s'; simp)+

lemma crlf_append: "crlf (xs @ ys) = crlf xs @ crlf ys"
  by (simp add: crlf_def)

lemma shell_execute_unknown:
  assumes "serial_ready (e_dev env)" and "cstr (vmem s) (args ! 0) w" and "shell_get_command w s = None"
  obtains t where "shell_execute env args s = Some (Returns (- 1), s\<lparr>io_trace := t\<rparr>)" "serial_output t = serial_output (io_trace s) @
    crlf (str ''Command not found: '' @ w @ [NEWLINE] @ str ''Type '' @ [QUOTE] @ str ''help'' @ [QUOTE] @ str '' for available commands.'' @ [NEWLINE])"
proof -
  let ?a = "str ''Command not found: ''" and ?b = "str ''Type '' @ [QUOTE] @ str ''help'' @ [QUOTE] @ str '' for available commands.'' @ [NEWLINE]"
  obtain t1 where t1: "put env ?a s = Some (s\<lparr>io_trace := t1\<rparr>)" "serial_output t1 = serial_output (io_trace s) @ crlf ?a"
    by (rule put_output [OF assms(1)])
  obtain t2 where t2: "put env w (s\<lparr>io_trace := t1\<rparr>) = Some (s\<lparr>io_trace := t2\<rparr>)" "serial_output t2 = serial_output t1 @ crlf w"
    using put_output [OF assms(1), of w "s\<lparr>io_trace := t1\<rparr>"] by auto
  obtain t3 where t3: "put env [NEWLINE] (s\<lparr>io_trace := t2\<rparr>) = Some (s\<lparr>io_trace := t3\<rparr>)" "serial_output t3 = serial_output t2 @ crlf [NEWLINE]"
    using put_output [OF assms(1), of "[NEWLINE]" "s\<lparr>io_trace := t2\<rparr>"] by auto
  obtain t4 where t4: "put env ?b (s\<lparr>io_trace := t3\<rparr>) = Some (s\<lparr>io_trace := t4\<rparr>)" "serial_output t4 = serial_output t3 @ crlf ?b"
    using put_output [OF assms(1), of ?b "s\<lparr>io_trace := t3\<rparr>"] by auto
  have "put_string env (args ! 0) (s\<lparr>io_trace := t1\<rparr>) = Some (s\<lparr>io_trace := t2\<rparr>)"
    using t2(1) cstr_string_at [OF assms(2)] by (simp add: put_string_def)
  then have "shell_execute env args s = Some (Returns (- 1), s\<lparr>io_trace := t4\<rparr>)"
    using t1(1) t3(1) t4(1) cstr_string_at [OF assms(2)] assms(3) unfolding shell_execute_def by (simp del: list.map)
  moreover have "serial_output t4 = serial_output (io_trace s) @ crlf (?a @ w @ [NEWLINE] @ ?b)"
    unfolding t4(2) t3(2) t2(2) t1(2) crlf_append by (simp only: append_assoc)
  ultimately show ?thesis by (rule that)
qed

definition shell_example :: shell_state where
  "shell_example = graphics_state.extend graphics_example (shell_state.fields [] 0 0x112000 0 0x113000 0)"

definition shell_env_example :: shell_env where
  "shell_env_example = \<lparr>e_dev = \<lambda>_ _. 0xFF, e_buffer = 0x114000, e_sector = 0x115000, e_space = 0x116000, e_newline = 0x116002,
     e_start = 0x100000, e_sync_task1 = 0x101000, e_sync_task2 = 0x102000\<rparr>"

definition line_example :: mem where
  "line_example = (vmem shell_example)(0x90000 := of_char CHR ''d'', 0x90001 := of_char CHR '' '', 0x90002 := of_char CHR ''x'', 0x90003 := 0)"

section \<open>Properties\<close>



end
