(* ===== verification/Kernel.thy ===== *)
theory Kernel
  imports ShellLine
begin

text \<open>
  The entry of the kernel: \<^verbatim>\<open>src/kernel/kernel.c\<close> and \<^verbatim>\<open>src/boot/multiboot.asm\<close>. The steps of
  \<open>kernel_main\<close> are grouped by its numbered comments. The structures that the boot loader leaves in memory, the
  devices and the addresses that the linker chooses are fields of an environment.
\<close>

section \<open>State\<close>

record kernel_state = shell_state +
  mb_info :: u32

record kernel_env =
  k_shell :: shell_env
  k_devw :: wdevice
  k_devl :: ldevice
  k_multiboot :: "u32 \<Rightarrow> multiboot_info"
  k_mmap :: "u32 \<Rightarrow> multiboot_mmap_entry"
  k_isr :: "nat \<Rightarrow> u32"
  k_irq :: "nat \<Rightarrow> u32"
  k_syscall :: u32
  k_superblock :: u32
  k_line :: u32
  k_stack_top :: u32
  k_start :: u32

abbreviation (input) MULTIBOOT_BOOTLOADER_MAGIC :: u32 where "MULTIBOOT_BOOTLOADER_MAGIC \<equiv> 0x2BADB002"
abbreviation (input) TIMER_FREQUENCY :: u32 where "TIMER_FREQUENCY \<equiv> 100"
abbreviation (input) COLOR_DARK_BG :: u32 where "COLOR_DARK_BG \<equiv> 0x1A1A2E"
abbreviation (input) COLOR_CYAN :: u32 where "COLOR_CYAN \<equiv> 0x00FFFF"
abbreviation (input) COLOR_GREEN :: u32 where "COLOR_GREEN \<equiv> 0x00FF00"
abbreviation (input) k_dev :: "kernel_env \<Rightarrow> device" where "k_dev env \<equiv> e_dev (k_shell env)"

definition say :: "kernel_env \<Rightarrow> string \<Rightarrow> 'a console_state_scheme \<Rightarrow> 'a console_state_scheme option" where
  "say env msg = kprintf (k_dev env) (str msg @ [NEWLINE]) []"

definition enable_interrupts :: "'a task_state_scheme \<Rightarrow> 'a task_state_scheme" where
  "enable_interrupts s = s\<lparr>cpu := (cpu s)\<lparr>r_eflags := r_eflags (cpu s) OR 0x200\<rparr>\<rparr>"

section \<open>Starting the system\<close>

definition boot_console :: "'a kernel_state_scheme \<Rightarrow> 'a kernel_state_scheme" where
  "boot_console s =
     (let s = vga_clear (vga_init s)
      in s\<lparr>io_trace := serial_init (io_trace s)\<rparr>)"

definition boot_cpu :: "kernel_env \<Rightarrow> 'a kernel_state_scheme \<Rightarrow> 'a kernel_state_scheme option" where
  "boot_cpu env s = cpu_init_fpu (k_dev env) (gdt_init s)"

definition boot_memory :: "kernel_env \<Rightarrow> 'a kernel_state_scheme \<Rightarrow> 'a kernel_state_scheme option" where
  "boot_memory env s =
     do {
       s \<leftarrow> say env ''Initializing memory management...'' s;
       s \<leftarrow> pmm_init (k_multiboot env (mb_info s)) (k_mmap env) s;
       Some (heap_init (paging_init s))
     }"

definition boot_interrupts :: "kernel_env \<Rightarrow> 'a kernel_state_scheme \<Rightarrow> 'a kernel_state_scheme option" where
  "boot_interrupts env s =
     do {
       s \<leftarrow> say env ''Initializing interrupts (IDT/PIC)...'' s;
       let s = idt_init (k_isr env) (k_irq env) (k_syscall env) s;
       Some (s\<lparr>io_trace := pic_init (k_dev env) (io_trace s)\<rparr>)
     }"

definition boot_drivers :: "kernel_env \<Rightarrow> 'a kernel_state_scheme \<Rightarrow> 'a kernel_state_scheme option" where
  "boot_drivers env s =
     do {
       s \<leftarrow> say env ''Initializing device drivers...'' s;
       s \<leftarrow> kprintf (k_dev env) (str ''Timer initialized at %d Hz'' @ [NEWLINE]) [ArgInt TIMER_FREQUENCY]
              (timer_init (k_dev env) TIMER_FREQUENCY s);
       s \<leftarrow> say env ''Keyboard driver ready'' (keyboard_init (k_dev env) s);
       s \<leftarrow> graphics_init (k_dev env) (k_devw env) (k_devl env)
              (if mb_info s = 0 then None else Some (k_multiboot env (mb_info s))) s;
       say env ''Graphics system initialized'' s
     }"

text \<open>\<open>syscall_init\<close> has an empty body.\<close>

definition boot_tasks :: "kernel_env \<Rightarrow> 'a kernel_state_scheme \<Rightarrow> 'a kernel_state_scheme option" where
  "boot_tasks env s =
     do {
       s \<leftarrow> say env ''Initializing multitasking...'' s;
       say env ''Multitasking ready (Round-robin)'' (task_init s)
     }"

definition boot_files :: "kernel_env \<Rightarrow> 'a kernel_state_scheme \<Rightarrow> 'a kernel_state_scheme option" where
  "boot_files env s =
     do {
       s \<leftarrow> say env ''Initializing file system...'' s;
       (_, s) \<leftarrow> fs_init (k_dev env) (k_devw env) (k_superblock env) (ata_init (k_dev env) s);
       s \<leftarrow> say env ''File system ready'' s;
       say env ''Interrupts enabled. Kernel is fully operational.'' (enable_interrupts s)
     }"

text \<open>The division of C rounds towards zero.\<close>

definition half :: "int \<Rightarrow> int" where
  "half x = (if x < 0 then - ((- x) div 2) else x div 2)"

definition draw_desktop :: "'a graphics_state_scheme \<Rightarrow> 'a graphics_state_scheme" where
  "draw_desktop s =
     (let sw = graphics_get_width s;
          sh = graphics_get_height s;
          s = graphics_clear COLOR_DARK_BG s;
          s = graphics_draw_rect 0 (sh - 40) sw 40 0x111111 s;
          s = graphics_draw_rect 10 (sh - 35) 60 30 COLOR_CYAN s;
          s = graphics_draw_string 18 (sh - 30) (str ''ArgOS'') 0x000000 s;
          s = graphics_draw_string (sw - 60) (sh - 28) (str ''19:47'') COLOR_WHITE s;
          win_w = 400;
          win_h = 300;
          win_x = half (sw - win_w);
          win_y = half (sh - win_h);
          s = graphics_draw_rect win_x win_y win_w win_h 0x222233 s;
          s = graphics_draw_rect win_x win_y win_w 25 0x333355 s;
          s = graphics_draw_string (win_x + 8) (win_y + 5) (str ''Welcome to ArgOS'') COLOR_WHITE s;
          s = graphics_draw_string (win_x + 20) (win_y + 50) (str ''ArgOS Kernel v0.1'') COLOR_CYAN s;
          s = graphics_draw_string (win_x + 20) (win_y + 80) (str ''Graphics: 800x600 32-bit'') COLOR_GREEN s
      in graphics_draw_string (win_x + 20) (win_y + 110) (str ''FPU/SSE: Enabled'') COLOR_GREEN s)"

definition boot_desktop :: "kernel_env \<Rightarrow> 'a kernel_state_scheme \<Rightarrow> 'a kernel_state_scheme option" where
  "boot_desktop env s =
     (if 0 < graphics_get_width s \<and> 0 < graphics_get_height s
      then say env ''GUI rendered successfully'' (draw_desktop s)
      else Some s)"

text \<open>The shell on the serial port: its command table and the cleared line.\<close>

definition boot_shell :: "kernel_env \<Rightarrow> 'a kernel_state_scheme \<Rightarrow> 'a kernel_state_scheme option" where
  "boot_shell env s =
     do {
       s \<leftarrow> kprintf (k_dev env) ([NEWLINE] @ str ''=== ArgOS Shell (Serial) ==='' @ [NEWLINE]) [] s;
       let s = shell_init s;
       let s = s\<lparr>vmem := snd (memset (k_line env) 0 256 (vmem s))\<rparr>;
       kprintf (k_dev env) (str ''ArgOS> '') [] s
     }"

text \<open>All of \<open>kernel_main\<close> before its loop. The flag tells whether the loop is reached; otherwise the machine
  has stopped in \<open>kpanic\<close>.\<close>

definition kernel_boot :: "kernel_env \<Rightarrow> u32 \<Rightarrow> u32 \<Rightarrow> 'a kernel_state_scheme \<Rightarrow> (bool \<times> 'a kernel_state_scheme) option" where
  "kernel_boot env magic addr s =
     (let s = boot_console s
      in if magic \<noteq> MULTIBOOT_BOOTLOADER_MAGIC
         then do {
           s \<leftarrow> kprintf (k_dev env) (str ''ERROR: Invalid Multiboot magic number: 0x%x'' @ [NEWLINE]) [ArgInt magic] s;
           s \<leftarrow> kpanic (k_dev env) (str ''Invalid Multiboot magic number'') (str ''kernel/kernel.c'') 42 s;
           Some (False, s)
         }
         else do {
           s \<leftarrow> boot_cpu env (s\<lparr>mb_info := addr\<rparr>);
           s \<leftarrow> boot_memory env s;
           s \<leftarrow> boot_interrupts env s;
           s \<leftarrow> boot_drivers env s;
           s \<leftarrow> boot_tasks env s;
           s \<leftarrow> boot_files env s;
           s \<leftarrow> boot_desktop env s;
           s \<leftarrow> boot_shell env s;
           Some (True, s)
         })"

section \<open>The line on the serial port\<close>

text \<open>One character. The position in the line is a local variable of \<open>kernel_main\<close>.\<close>

definition kernel_char :: "kernel_env \<Rightarrow> u8 \<Rightarrow> nat \<Rightarrow> 'a kernel_state_scheme \<Rightarrow> (outcome \<times> nat \<times> 'a kernel_state_scheme) option" where
  "kernel_char env c pos s =
     (if c = NEWLINE \<or> c = CARRIAGE_RETURN
      then do {
        s \<leftarrow> put (k_shell env) [NEWLINE] s;
        (out, pos, s) \<leftarrow> (if 0 < pos
          then do {
            (out, s) \<leftarrow> shell_process_command (k_shell env) (k_line env) (s\<lparr>vmem := (vmem s)(k_line env + word_of_nat pos := 0)\<rparr>);
            case out of Returns _ \<Rightarrow> Some (out, 0, s\<lparr>vmem := snd (memset (k_line env) 0 256 (vmem s))\<rparr>) | _ \<Rightarrow> Some (out, pos, s)
          }
          else Some (Returns 0, pos, s));
        case out of Returns _ \<Rightarrow> map_option (\<lambda>s. (Returns 0, pos, s)) (kprintf (k_dev env) (str ''ArgOS> '') [] s) | _ \<Rightarrow> Some (out, pos, s)
      }
      else if c = BACKSPACE \<or> c = 127
      then if 0 < pos
           then map_option (\<lambda>s. (Returns 0, pos - 1, s)) (put (k_shell env) [BACKSPACE, of_char CHR '' '', BACKSPACE]
                  (s\<lparr>vmem := (vmem s)(k_line env + word_of_nat (pos - 1) := 0)\<rparr>))
           else Some (Returns 0, pos, s)
      else if 32 \<le> c \<and> c < 127
      then if pos < 255
           then let s = s\<lparr>vmem := (vmem s)(k_line env + word_of_nat pos := c)\<rparr>
                in map_option (\<lambda>t. (Returns 0, pos + 1, s\<lparr>io_trace := t\<rparr>)) (serial_putchar (k_dev env) c (io_trace s))
           else Some (Returns 0, pos, s)
      else Some (Returns 0, pos, s))"

definition kernel_round :: "kernel_env \<Rightarrow> nat \<Rightarrow> 'a kernel_state_scheme \<Rightarrow> (outcome \<times> nat \<times> 'a kernel_state_scheme) option" where
  "kernel_round env pos s =
     (let s = enable_interrupts s;
          (available, t) = serial_is_data_available (k_dev env) (io_trace s);
          s = s\<lparr>io_trace := t\<rparr>
      in if available
         then let (c, t) = serial_getchar (k_dev env) (io_trace s)
              in kernel_char env c pos (s\<lparr>io_trace := t\<rparr>)
         else Some (Returns 0, pos, s))"

text \<open>\<open>n\<close> rounds of the loop, with what interrupts do between them.\<close>

fun kernel_rounds :: "kernel_env \<Rightarrow> ('a kernel_state_scheme \<Rightarrow> 'a kernel_state_scheme) \<Rightarrow> nat \<Rightarrow> nat \<Rightarrow> 'a kernel_state_scheme
    \<Rightarrow> (outcome \<times> nat \<times> 'a kernel_state_scheme) option" where
  "kernel_rounds env intr 0 pos s = Some (Returns 0, pos, s)"
| "kernel_rounds env intr (Suc n) pos s =
     (case kernel_round env pos s of
        None \<Rightarrow> None
      | Some (Returns _, pos, s) \<Rightarrow> kernel_rounds env intr n pos (intr s)
      | Some (out, pos, s) \<Rightarrow> Some (out, pos, s))"

definition kernel_main ::
  "kernel_env \<Rightarrow> ('a kernel_state_scheme \<Rightarrow> 'a kernel_state_scheme) \<Rightarrow> nat \<Rightarrow> u32 \<Rightarrow> u32 \<Rightarrow> 'a kernel_state_scheme
     \<Rightarrow> (bool \<times> 'a kernel_state_scheme) option" where
  "kernel_main env intr n magic addr s =
     (case kernel_boot env magic addr s of
        None \<Rightarrow> None
      | Some (False, s) \<Rightarrow> Some (False, s)
      | Some (True, s) \<Rightarrow> map_option (\<lambda>(_, _, s). (True, s)) (kernel_rounds env intr n 0 s))"

text \<open>The assembly entry point: the boot loader leaves the magic number in \<^verbatim>\<open>eax\<close>, here \<open>a\<close>, and the address of its
  structure in \<^verbatim>\<open>ebx\<close>, here \<open>b\<close>, which become the arguments on the stack.\<close>

definition kernel_start :: "kernel_env \<Rightarrow> ('a kernel_state_scheme \<Rightarrow> 'a kernel_state_scheme) \<Rightarrow> nat \<Rightarrow> u32 \<Rightarrow> u32 \<Rightarrow> 'a kernel_state_scheme
     \<Rightarrow> (bool \<times> 'a kernel_state_scheme) option" where
  "kernel_start env intr n a b s =
     (let (esp, m) = pushl (k_start env) (pushl a (pushl b (k_stack_top env, vmem s)));
          s = s\<lparr>vmem := m, cpu := (cpu s)\<lparr>r_esp := esp\<rparr>\<rparr>
      in kernel_main env intr n (ld32 m (esp + 4)) (ld32 m (esp + 8)) s)"

end
