(* ===== verification/KernelSpec.thy ===== *)
theory KernelSpec
  imports Kernel
begin

text \<open>
  The line editor of the kernel on the serial port.
\<close>

section \<open>The line editor\<close>

text \<open>The buffer holds the characters of the line and zeros behind them.\<close>

definition line_rep :: "u32 \<Rightarrow> u8 list \<Rightarrow> mem \<Rightarrow> bool" where
  "line_rep a cs m \<longleftrightarrow> length cs \<le> 255 \<and> (\<forall>c \<in> set cs. 32 \<le> c \<and> c < 127) \<and>
     (\<forall>i < 256. m (a + word_of_nat i) = (if i < length cs then cs ! i else 0))"

definition edit :: "u8 \<Rightarrow> u8 list \<Rightarrow> u8 list" where
  "edit c cs = (if c = BACKSPACE \<or> c = 127 then butlast cs else if 32 \<le> c \<and> c < 127 \<and> length cs < 255 then cs @ [c] else cs)"

definition ends_line :: "u8 \<Rightarrow> bool" where
  "ends_line c \<longleftrightarrow> c = NEWLINE \<or> c = CARRIAGE_RETURN"

lemma small_offset: "i < 256 \<Longrightarrow> j < 256 \<Longrightarrow> (word_of_nat i :: u32) = word_of_nat j \<longleftrightarrow> i = j"
  by (simp add: u32_eq_unat unat_u32_of_nat)

lemma line_rep_append:
  assumes "line_rep a cs m" and "length cs < 255" and "32 \<le> c" and "c < 127"
  shows "line_rep a (cs @ [c]) (m(a + word_of_nat (length cs) := c))"
  using assms by (auto simp: line_rep_def small_offset nth_append)

lemma line_rep_butlast:
  assumes "line_rep a cs m" and "cs \<noteq> []"
  shows "line_rep a (butlast cs) (m(a + word_of_nat (length cs - 1) := 0))"
proof -
  have "length cs \<le> 255" using assms(1) by (simp add: line_rep_def)
  then have "length cs - 1 < 256" by linarith
  then show ?thesis using assms by (auto simp: line_rep_def small_offset nth_butlast dest: in_set_butlastD)
qed

lemma line_rep_cstr:
  assumes "line_rep a cs m"
  shows "cstr m a cs" "m(a + word_of_nat (length cs) := 0) = m"
proof -
  have "length cs < 256" using assms by (simp add: line_rep_def)
  moreover have "cs ! i \<noteq> 0" if "i < length cs" for i using assms nth_mem [OF that] by (fastforce simp: line_rep_def)
  ultimately show "cstr m a cs" using assms by (simp add: line_rep_def cstr_nth)
  show "m(a + word_of_nat (length cs) := 0) = m" using assms \<open>length cs < 256\<close> by (auto simp: line_rep_def fun_eq_iff)
qed

lemma line_rep_clear: "line_rep a [] (snd (memset a 0 256 m))"
  by (auto simp: line_rep_def memset_fill fill_bytes_def unat_u32_of_nat)

lemma kernel_char_edit:
  assumes "serial_ready (k_dev env)" and "line_rep (k_line env) cs (vmem s)" and "\<not> ends_line c"
  shows "\<exists>m t. kernel_char env c (length cs) s = Some (Returns 0, length (edit c cs), s\<lparr>vmem := m, io_trace := t\<rparr>) \<and>
    line_rep (k_line env) (edit c cs) m \<and> (\<forall>a. 256 \<le> unat (a - k_line env) \<longrightarrow> m a = vmem s a)"
proof -
  have len: "length cs < 256" using assms(2) by (simp add: line_rep_def)
  have far: "a \<noteq> k_line env + word_of_nat i" if "256 \<le> unat (a - k_line env)" "i < 256" for a i
    using that by (auto simp: unat_u32_of_nat)
  show ?thesis
  proof (cases "c = BACKSPACE \<or> c = 127")
    case True
    show ?thesis
    proof (cases "cs = []")
      case False
      let ?m = "(vmem s)(k_line env + word_of_nat (length cs - 1) := 0)"
      obtain t where "put (k_shell env) [BACKSPACE, of_char CHR '' '', BACKSPACE] (s\<lparr>vmem := ?m\<rparr>) = Some (s\<lparr>vmem := ?m, io_trace := t\<rparr>)"
        by (rule put_output [OF assms(1)])
      then have "kernel_char env c (length cs) s = Some (Returns 0, length (edit c cs), s\<lparr>vmem := ?m, io_trace := t\<rparr>)"
        using True False assms(3) by (simp add: kernel_char_def edit_def ends_line_def)
      moreover have "line_rep (k_line env) (edit c cs) ?m" using line_rep_butlast [OF assms(2) False] True by (simp add: edit_def)
      ultimately show ?thesis using far len by (intro exI conjI) auto
    qed (use True assms in \<open>auto simp: kernel_char_def edit_def ends_line_def intro!: exI [of _ "vmem s"] exI [of _ "io_trace s"]\<close>)
  next
    case False
    show ?thesis
    proof (cases "32 \<le> c \<and> c < 127 \<and> length cs < 255")
      case True
      let ?m = "(vmem s)(k_line env + word_of_nat (length cs) := c)"
      obtain t where "serial_putchar (k_dev env) c (io_trace s) = Some t" using serial_putchar_output [OF assms(1)] by blast
      then have "kernel_char env c (length cs) s = Some (Returns 0, length (edit c cs), s\<lparr>vmem := ?m, io_trace := t\<rparr>)"
        using True False assms(3) by (simp add: kernel_char_def edit_def ends_line_def)
      moreover have "line_rep (k_line env) (edit c cs) ?m" using line_rep_append [OF assms(2)] True False by (simp add: edit_def)
      ultimately show ?thesis using far len by (intro exI conjI) auto
    qed (use False assms in \<open>auto simp: kernel_char_def edit_def ends_line_def intro!: exI [of _ "vmem s"] exI [of _ "io_trace s"]\<close>)
  qed
qed

text \<open>A sequence of characters, and what follows the command of a finished line.\<close>

fun kernel_type :: "kernel_env \<Rightarrow> u8 list \<Rightarrow> nat \<Rightarrow> 'a kernel_state_scheme \<Rightarrow> (nat \<times> 'a kernel_state_scheme) option" where
  "kernel_type env [] pos s = Some (pos, s)"
| "kernel_type env (c # cs) pos s = Option.bind (kernel_char env c pos s) (\<lambda>(_, pos, s). kernel_type env cs pos s)"

definition next_line :: "kernel_env \<Rightarrow> nat \<Rightarrow> 'a kernel_state_scheme command_result \<Rightarrow> (outcome \<times> nat \<times> 'a kernel_state_scheme) option" where
  "next_line env pos r = Option.bind r (\<lambda>(out, s). case out of
     Returns _ \<Rightarrow> map_option (\<lambda>s. (Returns 0, 0, s)) (kprintf (k_dev env) (str ''ArgOS> '') [] (s\<lparr>vmem := snd (memset (k_line env) 0 256 (vmem s))\<rparr>))
   | _ \<Rightarrow> Some (out, pos, s))"

lemma kernel_type_edit:
  assumes "serial_ready (k_dev env)" and "line_rep (k_line env) cs (vmem s)" and "\<forall>x \<in> set xs. \<not> ends_line x"
  shows "\<exists>m t. kernel_type env xs (length cs) s = Some (length (fold edit xs cs), s\<lparr>vmem := m, io_trace := t\<rparr>) \<and>
    line_rep (k_line env) (fold edit xs cs) m \<and> (\<forall>a. 256 \<le> unat (a - k_line env) \<longrightarrow> m a = vmem s a)"
  using assms
proof (induction xs arbitrary: cs s)
  case Nil
  then show ?case by (auto intro!: exI [of _ "vmem s"] exI [of _ "io_trace s"])
next
  case (Cons x xs)
  obtain m t where m: "kernel_char env x (length cs) s = Some (Returns 0, length (edit x cs), s\<lparr>vmem := m, io_trace := t\<rparr>)"
      "line_rep (k_line env) (edit x cs) m" "\<forall>a. 256 \<le> unat (a - k_line env) \<longrightarrow> m a = vmem s a"
    using kernel_char_edit [OF Cons.prems(1,2), of x] Cons.prems(3) by auto
  have "line_rep (k_line env) (edit x cs) (vmem (s\<lparr>vmem := m, io_trace := t\<rparr>))" using m(2) by simp
  from Cons.IH [OF Cons.prems(1) this] Cons.prems(3) m(1,3) show ?case by auto
qed

lemma kernel_char_enter:
  assumes "serial_ready (k_dev env)" and "line_rep (k_line env) cs (vmem s)" and "ends_line c" and "cs \<noteq> []"
  shows "\<exists>t. serial_output t = serial_output (io_trace s) @ crlf [NEWLINE] \<and>
    kernel_char env c (length cs) s = next_line env (length cs) (shell_process_command (k_shell env) (k_line env) (s\<lparr>io_trace := t\<rparr>))"
proof -
  obtain t where t: "put (k_shell env) [NEWLINE] s = Some (s\<lparr>io_trace := t\<rparr>)" "serial_output t = serial_output (io_trace s) @ crlf [NEWLINE]"
    by (rule put_output [OF assms(1)])
  have m: "(vmem s)(k_line env + word_of_nat (length cs) := 0) = vmem s" by (rule line_rep_cstr [OF assms(2)])
  have "kernel_char env c (length cs) s = next_line env (length cs) (shell_process_command (k_shell env) (k_line env) (s\<lparr>io_trace := t\<rparr>))"
    using assms(3,4) t(1) m
    by (auto simp: kernel_char_def ends_line_def next_line_def bind_map_option comp_def intro!: arg_cong2 [of _ _ _ _ Option.bind] split: outcome.split option.split)
  then show ?thesis using t(2) by blast
qed

definition kernel_example :: kernel_state where
  "kernel_example = (let s = shell_state.extend shell_example (kernel_state.fields 0x9000)
     in s\<lparr>vmem := snd (memset 0x118000 0 256 (vmem s))\<rparr>)"

definition kernel_env_example :: kernel_env where
  "kernel_env_example = \<lparr>k_shell = shell_env_example, k_devw = \<lambda>_ _. 0xFFFF, k_devl = \<lambda>_ _. 0xFFFFFFFF, k_multiboot = \<lambda>_. mb_example,
     k_mmap = mmap_example, k_isr = \<lambda>i. 0x103000 + word_of_nat i * 16, k_irq = \<lambda>i. 0x104000 + word_of_nat i * 16, k_syscall = 0x105000,
     k_superblock = 0x90000, k_line = 0x118000, k_stack_top = 0x11C000, k_start = 0x100040\<rparr>"

section \<open>Properties\<close>

text \<open>C25: typing on the serial port edits the line: the buffer always holds the characters that were typed and not erased,
  at most 255, followed by zeros, and no other memory changes. The end of a line that is not empty runs the shell on
  exactly that line and starts an empty one when the command returns.\<close>

theorem kernel_line_correct:
  assumes "serial_ready (k_dev env)" and "line_rep (k_line env) [] (vmem s)" and "\<forall>x \<in> set xs. \<not> ends_line x" and "ends_line c"
    and "l = fold edit xs []"
  shows "\<exists>m t. kernel_type env xs 0 s = Some (length l, s\<lparr>vmem := m, io_trace := t\<rparr>) \<and> length l \<le> 255 \<and> cstr m (k_line env) l \<and>
    (\<forall>a. 256 \<le> unat (a - k_line env) \<longrightarrow> m a = vmem s a) \<and>
    (l \<noteq> [] \<longrightarrow> (\<exists>t'. kernel_char env c (length l) (s\<lparr>vmem := m, io_trace := t\<rparr>) =
       next_line env (length l) (shell_process_command (k_shell env) (k_line env) (s\<lparr>vmem := m, io_trace := t'\<rparr>)))) \<and>
    (\<forall>m. line_rep (k_line env) [] (snd (memset (k_line env) 0 256 m)))"
proof -
  obtain m t where m: "kernel_type env xs 0 s = Some (length l, s\<lparr>vmem := m, io_trace := t\<rparr>)"
      "line_rep (k_line env) l m" "\<forall>a. 256 \<le> unat (a - k_line env) \<longrightarrow> m a = vmem s a"
    using kernel_type_edit [OF assms(1-3)] assms(5) by auto
  have r: "line_rep (k_line env) l (vmem (s\<lparr>vmem := m, io_trace := t\<rparr>))" using m(2) by simp
  have "\<exists>t'. kernel_char env c (length l) (s\<lparr>vmem := m, io_trace := t\<rparr>) =
      next_line env (length l) (shell_process_command (k_shell env) (k_line env) (s\<lparr>vmem := m, io_trace := t'\<rparr>))" if "l \<noteq> []"
    using kernel_char_enter [OF assms(1) r assms(4) that] by auto
  moreover have "length l \<le> 255" using m(2) by (simp add: line_rep_def)
  ultimately show ?thesis using m(1,3) line_rep_cstr(1) [OF m(2)] line_rep_clear by blast
qed

theorem kernel_line_correct_witness:
  "\<exists>s. kernel_type kernel_env_example [108, 120, 8, 115] 0 kernel_example = Some (2, s) \<and> cstr (vmem s) 0x118000 [108, 115]"
proof -
  have f: "fold edit [108, 120, 8, 115] [] = [108, 115]" by (simp add: edit_def)
  have "line_rep (k_line kernel_env_example) [] (vmem kernel_example)"
    by (simp add: kernel_example_def kernel_env_example_def Let_def line_rep_clear)
  then show ?thesis
    using kernel_line_correct [of kernel_env_example kernel_example "[108, 120, 8, 115]" NEWLINE "[108, 115]"] no_devices(1) f
    by (auto simp: kernel_env_example_def shell_env_example_def ends_line_def)
qed

end
