(* ===== verification/BootSpec.thy ===== *)
theory BootSpec
  imports KernelSpec
begin

text \<open>
  Starting the system: the steps of \<open>kernel_main\<close> before its loop, each with what it establishes and what it keeps.
\<close>

section \<open>Parts of the state\<close>

definition static_view :: "'a kernel_state_scheme \<Rightarrow> (u32 \<times> (u32 \<Rightarrow> inode) \<times> u32 \<times> u32 \<times> file_descriptor list \<times> bool \<times> u32) \<times> u32 \<times> u32" where
  "static_view s = (fs_view s, input_buffer s, mb_info s)"

definition screen_view :: "'a graphics_state_scheme \<Rightarrow> u32 \<times> int \<times> int" where
  "screen_view s = (framebuffer s, screen_width s, screen_height s)"

definition table_view :: "'a tables_state_scheme \<Rightarrow> gdt_entry list \<times> u16 \<times> idt_entry list \<times> u32 \<times> table_ptr" where
  "table_view s = (gdt s, seg_cs s, idt s, idt_addr s, idtr s)"

definition task_view :: "'a task_state_scheme \<Rightarrow> (u32 \<Rightarrow> task) \<times> u32 \<times> u32 \<times> u32 \<times> cpu_state" where
  "task_view s = (tasks s, task_list s, current_task s, task_count s, cpu s)"

lemmas views = static_view_def screen_view_def table_view_def task_view_def fs_view_def

lemma heap_more_views:
  fixes s s' :: "'a kernel_state_scheme"
  assumes "heap_state.more s' = heap_state.more s"
  shows "static_view s' = static_view s" "screen_view s' = screen_view s" "table_view s' = table_view s" "task_view s' = task_view s"
    "Console.on_screen s' = Console.on_screen s"
  using assms by (cases s; cases s'; simp add: views Console.on_screen_def)+

lemma heap_rel_same: "heap_state.truncate s' = heap_state.truncate s \<Longrightarrow> heap_rel s bs \<Longrightarrow> heap_rel s' bs"
  using heap_rel_truncate [of s'] heap_rel_truncate [of s] by simp

lemma fs_inv_view:
  assumes "fs_inv s K bs" and "fs_view s' = fs_view s" and "heap_rel s' bs"
  shows "fs_inv s' K bs"
  using fs_view_eqD [OF assms(2)] by (intro same_nodes_inv [OF assms(1)]) (simp_all add: assms(3))

lemma sched_inv_view: "sched_inv s us \<Longrightarrow> task_view s' = task_view s \<Longrightarrow> sched_inv s' us"
  by (simp add: sched_inv_def ring_def task_view_def)

section \<open>Messages\<close>

text \<open>What a message changes: the screen, the cursor and the trace; all memory from 1 MB on stays.\<close>

definition calm :: "'a console_state_scheme \<Rightarrow> 'a console_state_scheme \<Rightarrow> bool" where
  "calm s s' \<longleftrightarrow> (\<exists>m x y t. s' = s\<lparr>vmem := m, cursor_x := x, cursor_y := y, io_trace := t\<rparr> \<and>
     (\<forall>a. 0x100000 \<le> unat a \<longrightarrow> m a = vmem s a)) \<and> Console.on_screen s'"

lemma calm_puts:
  assumes "Console.on_screen s"
  shows "calm s (vga_puts cs (s\<lparr>io_trace := t\<rparr>))"
proof -
  let ?s = "s\<lparr>io_trace := t\<rparr>" and ?r = "vga_puts cs (s\<lparr>io_trace := t\<rparr>)"
  have "Console.on_screen ?s" using assms by (simp add: Console.on_screen_def)
  then have p: "screen_only ?s ?r" "Console.on_screen ?r" using puts_screen by blast+
  have f: "4000 \<le> unat (a - VGA_MEMORY)" if "0x100000 \<le> unat a" for a :: u32
    using that by (simp add: unat_sub_if_size word_size)
  define m x y where "m = vmem ?r" and "x = cursor_x ?r" and "y = cursor_y ?r"
  have "?r = ?s\<lparr>vmem := m, cursor_x := x, cursor_y := y\<rparr>" using p(1) unfolding screen_only_def m_def x_def y_def by blast
  also have "\<dots> = s\<lparr>vmem := m, cursor_x := x, cursor_y := y, io_trace := t\<rparr>" by simp
  finally have "?r = s\<lparr>vmem := m, cursor_x := x, cursor_y := y, io_trace := t\<rparr>" .
  moreover have "\<forall>a. 0x100000 \<le> unat a \<longrightarrow> m a = vmem s a" using p(1) f unfolding screen_only_def m_def by simp
  ultimately show ?thesis using p(2) unfolding calm_def by blast
qed

lemma vsprintf_plain: "37 \<notin> set cs \<Longrightarrow> vsprintf cs args = Some cs"
  by (induction cs) auto

lemma kprintf_calm:
  assumes "serial_ready dev" and "Console.on_screen s" and "vsprintf f args = Some buf"
  obtains s' where "kprintf dev f args s = Some s'" "calm s s'"
proof -
  let ?b = "takeWhile (\<lambda>c. c \<noteq> 0) buf"
  obtain t where "serial_puts dev ?b (io_trace s) = Some t" using serial_puts_output [OF assms(1)] by blast
  then have "kprintf dev f args s = Some (vga_puts ?b (s\<lparr>io_trace := t\<rparr>))" using assms(3) by (simp add: kprintf_def)
  then show ?thesis using that calm_puts [OF assms(2)] by blast
qed

lemma kprintf_plain:
  assumes "serial_ready dev" and "Console.on_screen s" and "37 \<notin> set f"
  obtains s' where "kprintf dev f args s = Some s'" "calm s s'"
  by (rule kprintf_calm [OF assms(1,2) vsprintf_plain [OF assms(3)]])

lemma say_calm:
  assumes "serial_ready (k_dev env)" and "Console.on_screen s" and "37 \<notin> set (str msg)"
  obtains s' where "say env msg s = Some s'" "calm s s'"
  using kprintf_plain [OF assms(1,2), of "str msg @ [NEWLINE]" "[]"] assms(3) by (auto simp: say_def)

lemma calm_views:
  fixes s s' :: "'a kernel_state_scheme"
  assumes "calm s s'"
  shows "static_view s' = static_view s" "screen_view s' = screen_view s" "table_view s' = table_view s" "task_view s' = task_view s"
    "Console.on_screen s'" "used_pages s' = used_pages s" "first_page_table s' = first_page_table s" "command_count s' = command_count s"
    "commands s' = commands s" "0x100000 \<le> unat a \<Longrightarrow> vmem s' a = vmem s a"
  using assms by (auto simp: calm_def views)

lemma calm_heap:
  assumes "calm s s'" and "heap_rel s bs"
  shows "heap_rel s' bs"
proof -
  obtain m x y t where s': "s' = s\<lparr>vmem := m, cursor_x := x, cursor_y := y, io_trace := t\<rparr>" "\<forall>a. 0x100000 \<le> unat a \<longrightarrow> m a = vmem s a"
    using assms(1) by (auto simp: calm_def)
  have "heap_rel (s\<lparr>vmem := m\<rparr>) bs"
    by (rule heap_rel_outside [where a = "0 :: u32" and n = "0x100000", OF assms(2)]) (use s'(2) in auto)
  then show ?thesis by (rule heap_rel_same [rotated]) (simp add: s'(1) heap_state.defs)
qed

lemma calm_fs:
  assumes "calm s s'" and "fs_inv s K bs"
  shows "fs_inv s' K bs"
proof (rule fs_inv_view [OF assms(2)])
  show "fs_view s' = fs_view s" using assms(1) by (auto simp: calm_def fs_view_def)
  show "heap_rel s' bs" using assms by (auto simp: fs_inv_def intro: calm_heap)
qed

section \<open>Processor and memory\<close>

lemma boot_console_views:
  fixes s :: "'a kernel_state_scheme"
  shows "static_view (boot_console s) = static_view s" "screen_view (boot_console s) = screen_view s" "table_view (boot_console s) = table_view s"
    "used_pages (boot_console s) = used_pages s" "first_page_table (boot_console s) = first_page_table s" "Console.on_screen (boot_console s)"
proof -
  define r where "r = vga_clear (vga_init s)"
  define m x y where "m = vmem r" and "x = cursor_x r" and "y = cursor_y r"
  have "r = (vga_init s)\<lparr>vmem := m, cursor_x := x, cursor_y := y\<rparr>"
    using clear_screen(1) [of "vga_init s"] unfolding screen_only_def m_def x_def y_def r_def by blast
  then have "boot_console s = (vga_init s)\<lparr>vmem := m, cursor_x := x, cursor_y := y, io_trace := serial_init (io_trace r)\<rparr>"
    by (simp add: boot_console_def r_def [symmetric] Let_def)
  then show "static_view (boot_console s) = static_view s" "screen_view (boot_console s) = screen_view s" "table_view (boot_console s) = table_view s"
      "used_pages (boot_console s) = used_pages s" "first_page_table (boot_console s) = first_page_table s"
    by (simp_all add: views vga_init_def)
  show "Console.on_screen (boot_console s)"
    using clear_screen(2) [of "vga_init s"] by (simp add: boot_console_def Let_def Console.on_screen_def)
qed

lemma gdt_init_views:
  fixes s :: "'a kernel_state_scheme"
  shows "static_view (gdt_init s) = static_view s" "screen_view (gdt_init s) = screen_view s"
    "used_pages (gdt_init s) = used_pages s" "first_page_table (gdt_init s) = first_page_table s" "Console.on_screen (gdt_init s) = Console.on_screen s"
  by (simp_all add: views gdt_init_def gdt_set_gate_def gdt_flush_def Let_def Console.on_screen_def)

lemma boot_cpu_result:
  fixes s :: "'a kernel_state_scheme"
  assumes "serial_ready (k_dev env)" and "Console.on_screen s"
  obtains s' where "boot_cpu env s = Some s'" "Console.on_screen s'" "static_view s' = static_view s" "screen_view s' = screen_view s"
    "table_view s' = table_view (gdt_init s)" "used_pages s' = used_pages s" "first_page_table s' = first_page_table s"
proof -
  define t where "t = (gdt_init s)\<lparr>cr0 := (cr0 s OR push_bit 1 1) AND NOT (push_bit 2 1) OR push_bit 5 1, cr4 := cr4 s OR push_bit 9 1 OR push_bit 10 1\<rparr>"
  have c: "cr0 (gdt_init s) = cr0 s" "cr4 (gdt_init s) = cr4 s"
    by (simp_all add: gdt_init_def gdt_set_gate_def gdt_flush_def Let_def)
  have v: "static_view t = static_view s" "screen_view t = screen_view s" "table_view t = table_view (gdt_init s)" "used_pages t = used_pages s"
      "first_page_table t = first_page_table s" "Console.on_screen t"
    using gdt_init_views [of s] assms(2) by (simp_all add: t_def views Console.on_screen_def)
  obtain s' where s': "kprintf (k_dev env) (str ''FPU and SSE support enabled'' @ [NEWLINE]) [] t = Some s'" "calm t s'"
    by (rule kprintf_plain [OF assms(1) v(6), of "str ''FPU and SSE support enabled'' @ [NEWLINE]" "[]"]) simp_all
  have "boot_cpu env s = Some s'" using s'(1) c by (simp add: boot_cpu_def cpu_init_fpu_def Let_def t_def)
  then show ?thesis using that calm_views [OF s'(2)] v by metis
qed

lemma heap_init_more: "paging_inv s \<Longrightarrow> heap_state.more (heap_init s) = heap_state.more s"
proof -
  assume inv: "paging_inv s"
  have pn: "unat ((0x100000 + 4096 - 1) div 4096 :: u32) = 256" by (simp add: unat_div)
  obtain ok s1 where s1: "heap_map_pages 0x400000 0 256 s = (ok, s1)" by fastforce
  have "heap_state.more s1 = heap_state.more s" using heap_map_pages_frame [OF inv, of "0x400000" 0 256] heap_fields_more(5) [of s1 s] s1 by simp
  then show ?thesis unfolding heap_init_def Let_def pn s1 by simp
qed

lemma pmm_more_fields:
  assumes "pmm_state.more s' = pmm_state.more s"
  shows "heap_state.more s' = heap_state.more s" "first_page_table s' = first_page_table s"
  using assms by (cases s; cases s'; simp)+

text \<open>The memory that the boot loader reports: a well-formed map and 512 frames that are neither reserved nor below the
  end of the frame bitmap.\<close>

definition memory_ok :: "multiboot_info \<Rightarrow> (u32 \<Rightarrow> multiboot_mmap_entry) \<Rightarrow> multiboot_mmap_entry list \<Rightarrow> bool" where
  "memory_ok mb M es \<longleftrightarrow> mb_flags mb AND 0x40 \<noteq> 0 \<and> mmap_entries M (mmap_addr mb) (mmap_addr mb + mmap_length mb) es \<and>
     4096 \<le> pmm_total_memory mb \<and>
     (let n = unat (pmm_total_memory mb) div 4096
      in 512 \<le> card {p. p < n \<and> 512 + (4 * ((n + 31) div 32) + 4095) div 4096 \<le> p \<and> (\<forall>x \<in> set es. p \<notin> entry_reserved x)})"

lemma boot_memory_result:
  fixes s :: "'a kernel_state_scheme"
  assumes "serial_ready (k_dev env)" and "Console.on_screen s" and "memory_ok (k_multiboot env (mb_info s)) (k_mmap env) es"
    and "used_pages s = 0" and "first_page_table s AND 0xFFF = 0" and "unat (first_page_table s) < 0x200000"
  obtains s' where "boot_memory env s = Some s'" "Console.on_screen s'" "static_view s' = static_view s" "screen_view s' = screen_view s"
    "table_view s' = table_view s" "heap_rel s' [(0xFFFF0, True)]"
proof -
  obtain s1 where s1: "say env ''Initializing memory management...'' s = Some s1" "calm s s1" by (rule say_calm [OF assms(1,2), of "''Initializing memory management...''"]) simp_all
  note v1 = calm_views [OF s1(2)]
  let ?mb = "k_multiboot env (mb_info s)"
  have mb: "mb_info s1 = mb_info s" using v1(1) by (simp add: static_view_def)
  note mem = assms(3) [unfolded memory_ok_def Let_def]
  obtain s2 n where s2: "pmm_init ?mb (k_mmap env) s1 = Some s2" "pmm_inv s2" "n = unat (pmm_total_memory ?mb) div 4096" "unat (total_pages s2) = n"
      "used_frames s2 = {p. p < n \<and> (p < 512 + (4 * ((n + 31) div 32) + 4095) div 4096 \<or> (\<exists>x \<in> set es. p \<in> entry_reserved x))}"
      "pmm_state.more s2 = pmm_state.more s1"
    using pmm_init_spec [of s1 ?mb "k_mmap env" es] mem v1(6) assms(4) by auto
  have free: "free_frames s2 = {p. p < n \<and> 512 + (4 * ((n + 31) div 32) + 4095) div 4096 \<le> p \<and> (\<forall>x \<in> set es. p \<notin> entry_reserved x)}"
  proof -
    have "free_frames s2 = {..<n} - used_frames s2" using frames_partition [of s2] s2(4) by blast
    then show ?thesis using s2(5) by auto
  qed
  have fpt: "first_page_table s2 = first_page_table s" using pmm_more_fields(2) [OF s2(6)] v1(7) by simp
  have al: "first_page_table s2 AND 0xFFF = 0" "unat (first_page_table s2) div 4096 \<notin> free_frames s2" using assms(5,6) fpt free by auto
  let ?s3 = "paging_init s2"
  have inv: "paging_inv ?s3" by (rule paging_init_inv [OF s2(2) al])
  have "512 \<le> card (free_frames ?s3)" using mem free s2(3) paging_init_fields [OF al(1)] by simp
  then have h: "heap_rel (heap_init ?s3) [(0xFFFF0, True)]" by (rule heap_init_rel(1) [OF inv])
  have "heap_state.more (heap_init ?s3) = heap_state.more s1"
    using heap_init_more [OF inv] pmm_more_fields(1) [OF s2(6)] by (simp add: paging_init_def paging_enable_def Let_def)
  note v = heap_more_views [OF this]
  have "boot_memory env s = Some (heap_init ?s3)" using s1(1) s2(1) mb by (simp add: boot_memory_def)
  then show ?thesis using that h v v1(1-5) by metis
qed

section \<open>Interrupts\<close>

lemma idt_gates_eq:
  "\<exists>d. \<forall>s :: 'a tables_state_scheme. idt s = e \<longrightarrow> fold (\<lambda>i. idt_set_gate (P i) (B i) sel (F i)) js s = s\<lparr>idt := d\<rparr>"
proof (induction js arbitrary: e)
  case Nil
  have "s\<lparr>idt := idt s\<rparr> = s" for s :: "'a tables_state_scheme" by simp
  then have "\<forall>s :: 'a tables_state_scheme. idt s = e \<longrightarrow> s = s\<lparr>idt := e\<rparr>" by metis
  then show ?case unfolding fold_simps by (rule exI)
next
  case (Cons j js)
  define e' where "e' = e[unat (P j) := \<lparr>base_low = ucast (B j AND 0xFFFF), selector = sel, always0 = 0, flags = F j OR IDT_FLAG_PRESENT,
     base_high = ucast (drop_bit 16 (B j) AND 0xFFFF)\<rparr>]"
  obtain d where d: "\<forall>s :: 'a tables_state_scheme. idt s = e' \<longrightarrow> fold (\<lambda>i. idt_set_gate (P i) (B i) sel (F i)) js s = s\<lparr>idt := d\<rparr>" using Cons by blast
  have "fold (\<lambda>i. idt_set_gate (P i) (B i) sel (F i)) (j # js) s = s\<lparr>idt := d\<rparr>" if "idt s = e" for s :: "'a tables_state_scheme"
    using d [rule_format, of "s\<lparr>idt := e'\<rparr>"] that by (simp add: idt_set_gate_def e'_def)
  then show ?case by blast
qed

lemma idt_init_eq:
  "\<exists>d. \<forall>s :: 'a tables_state_scheme. idt_init isr irq sc s = s\<lparr>idt := d, idtr := \<lparr>tp_limit = 2047, tp_base = idt_addr s\<rparr>\<rparr>"
proof -
  let ?e = "replicate IDT_ENTRIES \<lparr>base_low = 0, selector = 0, always0 = 0, flags = 0, base_high = 0\<rparr>"
  obtain d1 where d1: "\<forall>s :: 'a tables_state_scheme. idt s = ?e \<longrightarrow> fold (\<lambda>i. idt_set_gate (word_of_nat i) (isr i) 0x08
      (if i = 3 \<or> i = 4 then IDT_GATE_32BIT_TRAP else IDT_GATE_32BIT_INT)) [0..<32] s = s\<lparr>idt := d1\<rparr>"
    using idt_gates_eq [of ?e "\<lambda>i. word_of_nat i" isr 8 "\<lambda>i. if i = 3 \<or> i = 4 then IDT_GATE_32BIT_TRAP else IDT_GATE_32BIT_INT" "[0..<32]"] by blast
  define d2 where "d2 = d1[0x80 := \<lparr>base_low = ucast (sc AND 0xFFFF), selector = 0x08, always0 = 0,
    flags = (IDT_GATE_32BIT_INT OR IDT_FLAG_RING3) OR IDT_FLAG_PRESENT, base_high = ucast (drop_bit 16 sc AND 0xFFFF)\<rparr>]"
  obtain d3 where d3: "\<forall>s :: 'a tables_state_scheme. idt s = d2 \<longrightarrow> fold (\<lambda>i. idt_set_gate (word_of_nat (32 + i)) (irq i) 0x08 IDT_GATE_32BIT_INT) [0..<16] s = s\<lparr>idt := d3\<rparr>"
    using idt_gates_eq [of d2 "\<lambda>i. word_of_nat (32 + i)" irq 8 "\<lambda>_. IDT_GATE_32BIT_INT" "[0..<16]"] by blast
  have "idt_init isr irq sc s = s\<lparr>idt := d3, idtr := \<lparr>tp_limit = 2047, tp_base = idt_addr s\<rparr>\<rparr>" for s :: "'a tables_state_scheme"
  proof -
    have 1: "fold (\<lambda>i. idt_set_gate (word_of_nat i) (isr i) 0x08 (if i = 3 \<or> i = 4 then IDT_GATE_32BIT_TRAP else IDT_GATE_32BIT_INT)) [0..<32] (s\<lparr>idt := ?e\<rparr>) =
        s\<lparr>idt := d1\<rparr>" using d1 [rule_format, of "s\<lparr>idt := ?e\<rparr>"] by simp
    have 2: "idt_set_gate 0x80 sc 0x08 (IDT_GATE_32BIT_INT OR IDT_FLAG_RING3) (s\<lparr>idt := d1\<rparr>) = s\<lparr>idt := d2\<rparr>"
      by (simp add: idt_set_gate_def d2_def)
    have 3: "fold (\<lambda>i. idt_set_gate (word_of_nat (32 + i)) (irq i) 0x08 IDT_GATE_32BIT_INT) [0..<16] (s\<lparr>idt := d2\<rparr>) = s\<lparr>idt := d3\<rparr>"
      using d3 [rule_format, of "s\<lparr>idt := d2\<rparr>"] by simp
    show ?thesis unfolding idt_init_def Let_def 1 2 3 by (simp add: idt_flush_def)
  qed
  then show ?thesis by blast
qed

lemma idt_init_tables:
  fixes s s' :: "'a kernel_state_scheme"
  assumes "table_view s' = table_view s"
  shows "table_view (idt_init isr irq sc s') = table_view (idt_init isr irq sc s)"
proof -
  obtain d where "\<forall>s :: 'a kernel_state_scheme. idt_init isr irq sc s = s\<lparr>idt := d, idtr := \<lparr>tp_limit = 2047, tp_base = idt_addr s\<rparr>\<rparr>"
    using idt_init_eq by blast
  then show ?thesis using assms by (simp add: table_view_def)
qed

lemma gdt_init_tables: "table_view s' = table_view s \<Longrightarrow> table_view (gdt_init s') = table_view (gdt_init s)"
  by (simp add: table_view_def gdt_init_def gdt_set_gate_def gdt_flush_def Let_def)

lemma boot_interrupts_result:
  fixes s :: "'a kernel_state_scheme"
  assumes "serial_ready (k_dev env)" and "Console.on_screen s" and "heap_rel s bs"
  obtains s' where "boot_interrupts env s = Some s'" "Console.on_screen s'" "static_view s' = static_view s" "screen_view s' = screen_view s"
    "table_view s' = table_view (idt_init (k_isr env) (k_irq env) (k_syscall env) s)" "heap_rel s' bs"
proof -
  obtain s1 where s1: "say env ''Initializing interrupts (IDT/PIC)...'' s = Some s1" "calm s s1"
    by (rule say_calm [OF assms(1,2), of "''Initializing interrupts (IDT/PIC)...''"]) simp_all
  note v1 = calm_views [OF s1(2)]
  obtain d where d: "\<forall>s :: 'a kernel_state_scheme. idt_init (k_isr env) (k_irq env) (k_syscall env) s = s\<lparr>idt := d, idtr := \<lparr>tp_limit = 2047, tp_base = idt_addr s\<rparr>\<rparr>"
    using idt_init_eq by blast
  define s2 where "s2 = s1\<lparr>idt := d, idtr := \<lparr>tp_limit = 2047, tp_base = idt_addr s1\<rparr>, io_trace := pic_init (k_dev env) (io_trace s1)\<rparr>"
  have e: "boot_interrupts env s = Some s2" using s1(1) d by (simp add: boot_interrupts_def s2_def)
  have "table_view s2 = table_view (idt_init (k_isr env) (k_irq env) (k_syscall env) s1)" by (simp add: d s2_def table_view_def)
  also have "\<dots> = table_view (idt_init (k_isr env) (k_irq env) (k_syscall env) s)" by (rule idt_init_tables [OF v1(3)])
  finally have t: "table_view s2 = table_view (idt_init (k_isr env) (k_irq env) (k_syscall env) s)" .
  have "static_view s2 = static_view s1" "screen_view s2 = screen_view s1" "Console.on_screen s2" using v1(5) by (simp_all add: s2_def views Console.on_screen_def)
  moreover have "heap_rel s2 bs" using calm_heap [OF s1(2) assms(3)] by (rule heap_rel_same [rotated]) (simp add: s2_def heap_state.defs)
  ultimately show ?thesis using that e t v1(1,2) by metis
qed

section \<open>Devices\<close>

text \<open>A frame buffer that the boot loader reports lies above the heap and fits in the address space; without one there is no
  Bochs display either.\<close>

definition display_ok :: "kernel_env \<Rightarrow> multiboot_info \<Rightarrow> bool" where
  "display_ok env mb \<longleftrightarrow> (if mb_flags mb AND push_bit 12 1 = 0 then \<forall>t. k_devw env t BGA_DATA_PORT < 0xB0C0 \<or> 0xB0C5 < k_devw env t BGA_DATA_PORT
     else 0x500000 \<le> unat (framebuffer_addr_low mb) \<and> 0 < sint (framebuffer_width mb) \<and> 0 < sint (framebuffer_height mb) \<and>
       uint (framebuffer_addr_low mb) + 4 * sint (framebuffer_width mb) * sint (framebuffer_height mb) \<le> 2 ^ 32)"

definition screen_good :: "'a graphics_state_scheme \<Rightarrow> bool" where
  "screen_good s \<longleftrightarrow> screen_width s = 0 \<or> fb_wf s \<and> 0x500000 \<le> unat (framebuffer s)"

lemma map_page_inv: "paging_inv s \<Longrightarrow> paging_inv (paging_map_page va pa fl s)"
  using map_page_present [of s va pa fl] map_page_full [of s va pa fl] map_page_new [of s va pa fl] by metis

lemma map_pages_fold:
  fixes s :: "'a kernel_state_scheme"
  assumes "paging_inv s" and "s' = fold (\<lambda>i s. let addr = framebuffer s + word_of_nat i * 0x1000 in paging_map_page addr addr fl s) js s"
  shows "paging_inv s' \<and> paging_state.more s' = paging_state.more s"
  using assms(1) unfolding assms(2)
proof (induction js arbitrary: s)
  case (Cons j js)
  let ?t = "let addr = framebuffer s + word_of_nat j * 0x1000 in paging_map_page addr addr fl s"
  have "paging_inv ?t" "paging_state.more ?t = paging_state.more s" using map_page_inv [OF Cons.prems] by (simp_all add: Let_def)
  then show ?case using Cons.IH [of ?t] by simp
qed simp

lemma graphics_log_ready:
  assumes "serial_ready dev"
  obtains t where "graphics_log dev msg s = Some (s\<lparr>io_trace := t\<rparr>)"
  using serial_puts_output [OF assms, of msg "io_trace s"] by (auto simp: graphics_log_def)

lemma io_views [simp]:
  fixes s :: "'a kernel_state_scheme"
  shows "static_view (s\<lparr>io_trace := t\<rparr>) = static_view s" "screen_view (s\<lparr>io_trace := t\<rparr>) = screen_view s" "table_view (s\<lparr>io_trace := t\<rparr>) = table_view s"
    "task_view (s\<lparr>io_trace := t\<rparr>) = task_view s" "Console.on_screen (s\<lparr>io_trace := t\<rparr>) = Console.on_screen s"
  by (simp_all add: views Console.on_screen_def)

lemma map_framebuffer_result:
  fixes s :: "'a kernel_state_scheme"
  assumes "serial_ready dev" and "heap_rel s bs" and "framebuffer s \<noteq> 0"
  obtains s' where "map_framebuffer dev s = Some s'" "heap_rel s' bs" "static_view s' = static_view s" "screen_view s' = screen_view s"
    "table_view s' = table_view s" "Console.on_screen s' = Console.on_screen s"
proof -
  define np :: u32 where "np = (word_of_int (screen_width s) * word_of_int (screen_height s) * word_of_int (screen_bpp s div 8) + 0xFFF) div 0x1000"
  define s1 where "s1 = fold (\<lambda>i s. let addr = framebuffer s + word_of_nat i * 0x1000 in paging_map_page addr addr (PAGE_PRESENT OR PAGE_WRITABLE) s) [0..<unat np] s"
  have inv: "paging_inv s" using assms(2) by (simp add: heap_rel_def)
  have m: "paging_inv s1" "paging_state.more s1 = paging_state.more s" using map_pages_fold [OF inv s1_def] by blast+
  note f = heap_fields_more [OF m(2)]
  have h: "heap_rel s1 bs" using assms(2) m(1) f by (simp add: heap_rel_def)
  obtain t1 where t1: "graphics_log dev (str ''FB=0x'') s1 = Some (s1\<lparr>io_trace := t1\<rparr>)" by (rule graphics_log_ready [OF assms(1)])
  obtain t2 where t2: "put_nibbles dev (framebuffer s1) t1 = Some t2" using serial_put_all_output [OF assms(1)] unfolding put_nibbles_def by blast
  obtain t3 where t3: "graphics_log dev [NEWLINE] (s1\<lparr>io_trace := t2\<rparr>) = Some (s1\<lparr>io_trace := t3\<rparr>)"
    using graphics_log_ready [OF assms(1), of "[NEWLINE]" "s1\<lparr>io_trace := t2\<rparr>"] by auto
  have "map_framebuffer dev s = Some (s1\<lparr>io_trace := t3\<rparr>)"
    unfolding map_framebuffer_def Let_def np_def [symmetric] s1_def [unfolded Let_def, symmetric] using assms(3) t1 t2 t3 by simp
  moreover have "heap_rel (s1\<lparr>io_trace := t3\<rparr>) bs" using h by simp
  ultimately show ?thesis using that heap_more_views [OF f(5)] io_views [of t3 s1] by metis
qed

lemma graphics_init_result:
  fixes s :: "'a kernel_state_scheme"
  assumes "serial_ready (k_dev env)" and "heap_rel s bs" and "display_ok env mb" and "screen_view s = (0, 0, 0)" and "i = None \<or> i = Some mb"
  obtains s' where "graphics_init (k_dev env) (k_devw env) (k_devl env) i s = Some s'" "heap_rel s' bs" "static_view s' = static_view s"
    "table_view s' = table_view s" "Console.on_screen s' = Console.on_screen s" "screen_good s'"
proof -
  note out = that
  have w: "screen_good (s\<lparr>io_trace := t\<rparr>)" for t using assms(4) by (simp add: screen_good_def screen_view_def)
  have quiet: thesis if "graphics_init (k_dev env) (k_devw env) (k_devl env) i s = Some (s\<lparr>io_trace := t\<rparr>)" for t
    using out [OF that] assms(2) w by simp
  show thesis
  proof (cases "i = Some mb")
    case False
    then have i: "i = None" using assms(5) by blast
    obtain t where "graphics_log (k_dev env) (str ''ERROR: No Multiboot info provided to graphics_init'' @ [NEWLINE]) s = Some (s\<lparr>io_trace := t\<rparr>)"
      by (rule graphics_log_ready [OF assms(1)])
    then show thesis using quiet [of t] by (simp add: graphics_init_def i)
  next
    case i: True
    show thesis
    proof (cases "mb_flags mb AND push_bit 12 1 = 0")
      case True
      obtain t where "graphics_log (k_dev env) (str ''ERROR: No framebuffer info in Multiboot structure'' @ [NEWLINE]) s = Some (s\<lparr>io_trace := t\<rparr>)"
        by (rule graphics_log_ready [OF assms(1)])
      then show thesis using quiet True assms(3) by (simp add: graphics_init_def i display_ok_def inw_def Let_def)
    next
      case False
      define s1 where "s1 = s\<lparr>framebuffer := framebuffer_addr_low mb, screen_width := sint (framebuffer_width mb),
        screen_height := sint (framebuffer_height mb), screen_bpp := uint (framebuffer_bpp mb)\<rparr>"
      obtain t where t: "graphics_log (k_dev env) (str ''Multiboot Graphics initialized: '') s1 = Some (s1\<lparr>io_trace := t\<rparr>)"
        by (rule graphics_log_ready [OF assms(1)])
      define s2 where "s2 = s1\<lparr>io_trace := t\<rparr>"
      have h: "heap_rel s2 bs" using assms(2) by (rule heap_rel_same [rotated]) (simp add: s2_def s1_def heap_state.defs)
      have fb: "framebuffer s2 \<noteq> 0" "screen_good s2"
        using False assms(3) by (auto simp: s2_def s1_def screen_good_def fb_wf_def display_ok_def)
      obtain s3 where s3: "map_framebuffer (k_dev env) s2 = Some s3" "heap_rel s3 bs" "static_view s3 = static_view s2" "screen_view s3 = screen_view s2"
          "table_view s3 = table_view s2" "Console.on_screen s3 = Console.on_screen s2" by (rule map_framebuffer_result [OF assms(1) h fb(1)])
      have "graphics_init (k_dev env) (k_devw env) (k_devl env) i s = Some s3"
        using False t s3(1) by (simp add: graphics_init_def i s1_def s2_def)
      moreover have "static_view s2 = static_view s" "table_view s2 = table_view s" "Console.on_screen s2 = Console.on_screen s"
        by (simp_all add: s2_def s1_def views Console.on_screen_def)
      moreover have "screen_good s3" using fb(2) s3(4) by (simp add: screen_good_def screen_view_def fb_wf_def)
      ultimately show thesis using s3(2,3,5,6) out by metis
    qed
  qed
qed

text \<open>Steps that keep everything but screen, trace and the state of their own device.\<close>

definition steady :: "'a kernel_state_scheme \<Rightarrow> 'a kernel_state_scheme \<Rightarrow> bool" where
  "steady s s' \<longleftrightarrow> static_view s' = static_view s \<and> screen_view s' = screen_view s \<and> table_view s' = table_view s \<and> task_view s' = task_view s \<and>
     commands s' = commands s \<and> command_count s' = command_count s \<and> Console.on_screen s' \<and>
     (\<forall>bs. heap_rel s bs \<longrightarrow> heap_rel s' bs) \<and> (\<forall>a. 0x100000 \<le> unat a \<longrightarrow> vmem s' a = vmem s a)"

lemma steady_trans: "steady s s1 \<Longrightarrow> steady s1 s2 \<Longrightarrow> steady s s2"
  by (simp add: steady_def)

lemma calm_steady: "calm s s' \<Longrightarrow> steady s s'"
  using calm_views [of s s'] calm_heap [of s s'] by (auto simp: steady_def)

lemma steadyI:
  assumes "heap_state.truncate s' = heap_state.truncate s" and "static_view s' = static_view s" "screen_view s' = screen_view s"
    "table_view s' = table_view s" "task_view s' = task_view s" "commands s' = commands s" "command_count s' = command_count s" "Console.on_screen s'"
  shows "steady s s'"
proof -
  have "vmem s' = vmem s" using assms(1) by (simp add: heap_state.defs)
  then show ?thesis using assms(2-) heap_rel_same [OF assms(1)] by (simp add: steady_def)
qed

lemma steady_devices:
  assumes "Console.on_screen s"
  shows "steady s (timer_init dev f s)" "steady s (keyboard_init dev s)"
  using assms by (intro steadyI; simp add: views timer_init_def keyboard_init_def Let_def Console.on_screen_def heap_state.defs)+

lemma timer_message: "\<exists>buf. vsprintf (str ''Timer initialized at %d Hz'' @ [NEWLINE]) [ArgInt 100] = Some buf"
proof -
  have "\<And>d :: u32. d < 10 \<Longrightarrow> digit_value (hex_chars d) = unat d" by (intro digit_chars(1)) (simp add: word_less_nat_alt)
  then obtain ds where "digits_loop hex_chars 10 100 = Some ds" using digits_loop_returns [of 10 hex_chars 100] by auto
  then have "\<exists>ds. itoa 10 100 = Some ds" by (simp add: itoa_def)
  moreover have "\<not> (100 :: u32) <s 0" by (simp add: word_sless_alt)
  ultimately show ?thesis by (auto simp: format_one_def)
qed

lemma boot_drivers_result:
  fixes s :: "'a kernel_state_scheme"
  assumes "serial_ready (k_dev env)" and "Console.on_screen s" and "heap_rel s bs" and "display_ok env (k_multiboot env (mb_info s))" and "screen_view s = (0, 0, 0)"
  obtains s' where "boot_drivers env s = Some s'" "Console.on_screen s'" "static_view s' = static_view s" "table_view s' = table_view s"
    "heap_rel s' bs" "screen_good s'"
proof -
  obtain s1 where s1: "say env ''Initializing device drivers...'' s = Some s1" "calm s s1"
    by (rule say_calm [OF assms(1,2), of "''Initializing device drivers...''"]) simp_all
  let ?s2 = "timer_init (k_dev env) TIMER_FREQUENCY s1"
  have s2: "steady s ?s2" using calm_steady [OF s1(2)] steady_devices(1) by (auto simp: steady_def)
  then have o2: "Console.on_screen ?s2" by (simp add: steady_def)
  obtain s3 where s3: "kprintf (k_dev env) (str ''Timer initialized at %d Hz'' @ [NEWLINE]) [ArgInt 100] ?s2 = Some s3" "calm ?s2 s3"
    using timer_message kprintf_calm [OF assms(1) o2] by blast
  let ?s4 = "keyboard_init (k_dev env) s3"
  have s4: "steady s ?s4" using steady_trans [OF s2 calm_steady [OF s3(2)]] steady_devices(2) by (auto simp: steady_def)
  then have o4: "Console.on_screen ?s4" by (simp add: steady_def)
  obtain s5 where s5: "say env ''Keyboard driver ready'' ?s4 = Some s5" "calm ?s4 s5"
    by (rule say_calm [OF assms(1) o4, of "''Keyboard driver ready''"]) simp_all
  have st: "steady s s5" by (rule steady_trans [OF s4 calm_steady [OF s5(2)]])
  then have v5: "static_view s5 = static_view s" "screen_view s5 = (0, 0, 0)" "table_view s5 = table_view s" "Console.on_screen s5" "heap_rel s5 bs" "mb_info s5 = mb_info s"
    using assms(3,5) by (simp_all add: steady_def static_view_def)
  let ?i = "if mb_info s5 = 0 then None else Some (k_multiboot env (mb_info s5))"
  have i: "?i = None \<or> ?i = Some (k_multiboot env (mb_info s))" using v5(6) by simp
  obtain s6 where s6: "graphics_init (k_dev env) (k_devw env) (k_devl env) ?i s5 = Some s6" "heap_rel s6 bs" "static_view s6 = static_view s5"
      "table_view s6 = table_view s5" "Console.on_screen s6 = Console.on_screen s5" "screen_good s6"
    by (rule graphics_init_result [OF assms(1) v5(5) assms(4) v5(2) i])
  have o6: "Console.on_screen s6" using s6(5) v5(4) by simp
  obtain s7 where s7: "say env ''Graphics system initialized'' s6 = Some s7" "calm s6 s7"
    by (rule say_calm [OF assms(1) o6, of "''Graphics system initialized''"]) simp_all
  note v7 = calm_views [OF s7(2)]
  have "boot_drivers env s = Some s7" unfolding boot_drivers_def s1(1) using s3(1) s5(1) s6(1) s7(1) by simp
  moreover have "screen_good s7" using s6(6) v7(2) by (simp add: screen_good_def screen_view_def fb_wf_def)
  ultimately show ?thesis using that v7(1,3,5) s6(3,4) v5(1,3) calm_heap [OF s7(2) s6(2)] by metis
qed

section \<open>Tasks and files\<close>

lemma boot_tasks_result:
  fixes s :: "'a kernel_state_scheme"
  assumes "serial_ready (k_dev env)" and "Console.on_screen s" and "heap_rel s bs"
  obtains s' where "boot_tasks env s = Some s'" "Console.on_screen s'" "static_view s' = static_view s" "screen_view s' = screen_view s"
    "table_view s' = table_view s" "heap_rel s' bs" "sched_inv s' []"
proof -
  obtain s1 where s1: "say env ''Initializing multitasking...'' s = Some s1" "calm s s1"
    by (rule say_calm [OF assms(1,2), of "''Initializing multitasking...''"]) simp_all
  note v1 = calm_views [OF s1(2)]
  let ?s2 = "task_init s1"
  have h2: "heap_rel ?s2 bs" using calm_heap [OF s1(2) assms(3)] by (rule heap_rel_same [rotated]) (simp add: task_init_def heap_state.defs)
  have v2: "Console.on_screen ?s2" "static_view ?s2 = static_view s1" "screen_view ?s2 = screen_view s1" "table_view ?s2 = table_view s1" "sched_inv ?s2 []"
    using v1(5) by (simp_all add: task_init_def views Console.on_screen_def sched_inv_def ring_def)
  obtain s3 where s3: "say env ''Multitasking ready (Round-robin)'' ?s2 = Some s3" "calm ?s2 s3"
    by (rule say_calm [OF assms(1) v2(1), of "''Multitasking ready (Round-robin)''"]) simp_all
  note v3 = calm_views [OF s3(2)]
  have "boot_tasks env s = Some s3" using s1(1) s3(1) by (simp add: boot_tasks_def)
  then show ?thesis using that v3(1-3,5) v2 v1(1-3) calm_heap [OF s3(2) h2] sched_inv_view [OF v2(5) v3(4)] by metis
qed

lemma fs_only_views:
  fixes s s' :: "'a kernel_state_scheme"
  assumes "fs_only s s'"
  shows "input_buffer s' = input_buffer s" "mb_info s' = mb_info s" "screen_view s' = screen_view s" "table_view s' = table_view s"
    "task_view s' = task_view s" "Console.on_screen s' = Console.on_screen s"
proof -
  obtain t a b c d e f where "s' = s\<lparr>io_trace := t, inodes := a, root_dir := b, current_dir := c, file_descriptors := d, fs_initialized := e, next_inode := f\<rparr>"
    using assms unfolding fs_only_def by metis
  then show "input_buffer s' = input_buffer s" "mb_info s' = mb_info s" "screen_view s' = screen_view s" "table_view s' = table_view s"
    "task_view s' = task_view s" "Console.on_screen s' = Console.on_screen s" by (simp_all add: views Console.on_screen_def)
qed

definition empty_fs :: "'a fs_state_scheme \<Rightarrow> blocks \<Rightarrow> bool" where
  "empty_fs s bs \<longleftrightarrow> fs_inv s (\<lambda>_. []) bs \<and> nodes s = {root_dir s} \<and> current_dir s = root_dir s \<and> fs_initialized s"

lemma empty_fs_view: "empty_fs s bs \<Longrightarrow> fs_view s' = fs_view s \<Longrightarrow> heap_rel s' bs \<Longrightarrow> empty_fs s' bs"
  using fs_view_eqD [of s' s] fs_inv_view [of s "\<lambda>_. []" bs s'] by (simp add: empty_fs_def)

definition interrupts_on :: "'a task_state_scheme \<Rightarrow> bool" where
  "interrupts_on s \<longleftrightarrow> bit (r_eflags (cpu s)) 9"

lemma enable_interrupts_on: "interrupts_on (enable_interrupts s)"
proof -
  have "(0x200 :: u32) = push_bit 9 1" by simp
  then show ?thesis by (simp only: interrupts_on_def enable_interrupts_def task_state.simps cpu_state.simps bit_or_iff) (simp add: bit_simps)
qed

lemma boot_files_result:
  fixes s :: "'a kernel_state_scheme"
  assumes "serial_ready (k_dev env)" and "Console.on_screen s" and "heap_rel s bs" and "sched_inv s []" and "no_disk (k_dev env)" and "inode_space s"
    and "length (file_descriptors s) = MAX_FILE_DESCRIPTORS" and "next_inode s + 1 \<noteq> 0" and "\<not> fs_initialized s"
  obtains s' where "boot_files env s = Some s'" "Console.on_screen s'" "input_buffer s' = input_buffer s" "screen_view s' = screen_view s"
    "table_view s' = table_view s" "heap_rel s' bs" "sched_inv s' []" "empty_fs s' bs" "interrupts_on s'"
proof -
  obtain s1 where s1: "say env ''Initializing file system...'' s = Some s1" "calm s s1"
    by (rule say_calm [OF assms(1,2), of "''Initializing file system...''"]) simp_all
  note v1 = calm_views [OF s1(2)]
  define s2 where "s2 = ata_init (k_dev env) s1"
  have c2: "calm s1 s2" using calm_puts [OF v1(5)] by (simp add: s2_def ata_init_def Let_def inb_def)
  note v2 = calm_views [OF c2]
  have h2: "heap_rel s2 bs" by (rule calm_heap [OF c2 calm_heap [OF s1(2) assms(3)]])
  have "fs_view s2 = fs_view s" using v1(1) v2(1) by (simp add: static_view_def)
  note e = fs_view_eqD [OF this]
  obtain s3 where s3: "fs_init (k_dev env) (k_devw env) (k_superblock env) s2 = Some (0, s3)" "empty_fs s3 bs" "fs_only s2 s3"
    using fs_init_fresh [OF assms(1,5) h2, of "k_devw env" "k_superblock env"] e assms(6-9) by (auto simp: empty_fs_def)
  note v3 = fs_only_views [OF s3(3)]
  have o3: "Console.on_screen s3" using v3(6) v2(5) by simp
  obtain s4 where s4: "say env ''File system ready'' s3 = Some s4" "calm s3 s4"
    by (rule say_calm [OF assms(1) o3, of "''File system ready''"]) simp_all
  note v4 = calm_views [OF s4(2)]
  let ?s5 = "enable_interrupts s4"
  have v5: "Console.on_screen ?s5" "static_view ?s5 = static_view s4" "screen_view ?s5 = screen_view s4" "table_view ?s5 = table_view s4"
    using v4(5) by (simp_all add: enable_interrupts_def views Console.on_screen_def)
  obtain s6 where s6: "say env ''Interrupts enabled. Kernel is fully operational.'' ?s5 = Some s6" "calm ?s5 s6"
    by (rule say_calm [OF assms(1) v5(1), of "''Interrupts enabled. Kernel is fully operational.''"]) simp_all
  note v6 = calm_views [OF s6(2)]
  have h3: "heap_rel s3 bs" using s3(2) by (simp add: empty_fs_def fs_inv_def)
  have h5: "heap_rel ?s5 bs" using calm_heap [OF s4(2) h3] by (rule heap_rel_same [rotated]) (simp add: enable_interrupts_def heap_state.defs)
  have h6: "heap_rel s6 bs" by (rule calm_heap [OF s6(2) h5])
  have "sched_inv s4 []" using sched_inv_view [OF assms(4), of s4] v1(4) v2(4) v3(5) v4(4) by simp
  then have "sched_inv ?s5 []" by (simp add: enable_interrupts_def sched_inv_def ring_def)
  then have sch: "sched_inv s6 []" by (rule sched_inv_view [OF _ v6(4)])
  have "static_view s6 = static_view s3" using v6(1) v5(2) v4(1) by simp
  then have f: "empty_fs s6 bs" "input_buffer s6 = input_buffer s3" using empty_fs_view [OF s3(2) _ h6] by (simp_all add: static_view_def)
  have i: "interrupts_on s6" using enable_interrupts_on [of s4] v6(4) by (simp add: interrupts_on_def task_view_def)
  have ib: "input_buffer s3 = input_buffer s" using v3(1) v2(1) v1(1) by (simp add: static_view_def)
  have "boot_files env s = Some s6" using s1(1) s3(1) s4(1) s6(1) by (simp add: boot_files_def s2_def)
  then show ?thesis using that f i h6 sch v6(2,3,5) v5(3,4) v4(2,3) v3(3,4) v2(2,3) v1(2,3) ib by metis
qed

section \<open>The desktop\<close>

definition draws :: "'a graphics_state_scheme \<Rightarrow> 'a graphics_state_scheme \<Rightarrow> bool" where
  "draws s s' \<longleftrightarrow> (\<exists>m. s' = s\<lparr>vmem := m\<rparr> \<and> (\<forall>a. a \<notin> fb_bytes s \<longrightarrow> m a = vmem s a))"

lemma draws_refl: "draws s s"
  unfolding draws_def by (intro exI [of _ "vmem s"]) simp

lemma draws_screen: "draws s s' \<Longrightarrow> fb_wf s' = fb_wf s \<and> fb_bytes s' = fb_bytes s \<and> screen_view s' = screen_view s"
  by (auto simp: draws_def fb_wf_def fb_bytes_def screen_view_def)

lemma draws_trans:
  assumes "draws s t" and "draws t u"
  shows "draws s u"
proof -
  obtain m where m: "t = s\<lparr>vmem := m\<rparr>" "\<forall>a. a \<notin> fb_bytes s \<longrightarrow> m a = vmem s a" using assms(1) by (auto simp: draws_def)
  obtain n where n: "u = t\<lparr>vmem := n\<rparr>" "\<forall>a. a \<notin> fb_bytes s \<longrightarrow> n a = vmem t a"
    using assms(2) draws_screen [OF assms(1)] by (auto simp: draws_def)
  show ?thesis unfolding draws_def by (intro exI [of _ n]) (use m n in simp)
qed

lemma draws_step: "draws s t \<Longrightarrow> fb_wf s \<Longrightarrow> (\<And>u. fb_wf u \<Longrightarrow> draws u (f u)) \<Longrightarrow> draws s (f t)"
  using draws_trans draws_screen by blast

lemma plot_vmem: "\<exists>m. plot ps c s = s\<lparr>vmem := m\<rparr>"
proof (induction ps arbitrary: s)
  case Nil
  have "s\<lparr>vmem := vmem s\<rparr> = s" by simp
  then show ?case by (metis plot_simps(1))
next
  case (Cons p ps)
  obtain x y where p: "p = (x, y)" by (cases p)
  have "graphics_put_pixel x y c s = s\<lparr>vmem := vmem (graphics_put_pixel x y c s)\<rparr>" by (simp add: graphics_put_pixel_def)
  then obtain n where n: "graphics_put_pixel x y c s = s\<lparr>vmem := n\<rparr>" by blast
  obtain m where "plot ps c (s\<lparr>vmem := n\<rparr>) = s\<lparr>vmem := n\<rparr>\<lparr>vmem := m\<rparr>" using Cons by blast
  then have "plot (p # ps) c s = s\<lparr>vmem := m\<rparr>" by (simp add: p n)
  then show ?case by blast
qed

lemma draws_plot: "fb_wf s \<Longrightarrow> draws s (plot ps c s)"
  using plot_vmem [of ps c s] plot_outside [of s _ ps c] by (force simp: draws_def)

lemma draws_rect: "fb_wf s \<Longrightarrow> draws s (graphics_draw_rect x y w h c s)"
  using draws_plot [of s] draw_rect_plot [of s x y w h c] by (simp add: fb_wf_def)

lemma draws_clear: "fb_wf s \<Longrightarrow> 0 \<le> screen_width s \<Longrightarrow> draws s (graphics_clear c s)"
  using draws_plot [of s] clear_plot [of s c] by (simp add: fb_wf_def)

lemma draws_char: "fb_wf s \<Longrightarrow> draws s (graphics_draw_char x y ch c s)"
proof (cases "ch < 128")
  case False
  then show ?thesis by (simp add: graphics_draw_char_def draws_refl)
qed (simp add: draw_char_plot draws_plot)

lemma draws_string: "fb_wf s \<Longrightarrow> draws s (graphics_draw_string x y msg c s)"
proof (induction msg arbitrary: x s)
  case Nil
  show ?case by (simp add: draws_refl)
next
  case (Cons ch msg)
  have "draws s (graphics_draw_char x y ch c s)" by (rule draws_char [OF Cons.prems])
  then show ?case using draws_step [OF _ Cons.prems Cons.IH] by simp
qed

lemma draws_next:
  assumes "draws s t" and "fb_wf s"
  shows "draws s (graphics_draw_rect x y w h c t)" "draws s (graphics_draw_string x y msg c t)"
  by (rule draws_step [OF assms]; rule draws_rect draws_string; assumption)+

lemma draws_desktop: "fb_wf s \<Longrightarrow> 0 \<le> screen_width s \<Longrightarrow> draws s (draw_desktop s)"
  unfolding draw_desktop_def Let_def by (intro draws_next draws_clear)

lemma boot_desktop_result:
  fixes s :: "'a kernel_state_scheme"
  assumes "serial_ready (k_dev env)" and "Console.on_screen s" and "heap_rel s bs" "tot bs \<le> 0x100000" and "sched_inv s []" "empty_fs s bs" "interrupts_on s" "screen_good s"
  obtains s' where "boot_desktop env s = Some s'" "Console.on_screen s'" "input_buffer s' = input_buffer s" "table_view s' = table_view s"
    "heap_rel s' bs" "sched_inv s' []" "empty_fs s' bs" "interrupts_on s'"
proof (cases "0 < screen_width s \<and> 0 < screen_height s")
  case False
  then have "boot_desktop env s = Some s" by (auto simp: boot_desktop_def graphics_get_width_def graphics_get_height_def)
  then show ?thesis using that assms(2-7) by blast
next
  case True
  then have fb: "fb_wf s" "0x500000 \<le> unat (framebuffer s)" using assms(8) by (auto simp: screen_good_def)
  obtain m where m: "draw_desktop s = s\<lparr>vmem := m\<rparr>" "\<forall>a. a \<notin> fb_bytes s \<longrightarrow> m a = vmem s a"
    using draws_desktop [OF fb(1)] True by (auto simp: draws_def)
  have far: "a \<notin> fb_bytes s" if "unat a < 0x500000" for a
  proof -
    have "unat a < unat (framebuffer s)" using that fb(2) by linarith
    then have "a < framebuffer s" unfolding word_less_nat_alt .
    then have "\<not> uint (framebuffer s) \<le> uint a" unfolding word_less_def by linarith
    then have "uint (a - framebuffer s) = uint a - uint (framebuffer s) + 4294967296" by (simp add: uint_sub_if_size word_size)
    moreover have "uint (framebuffer s) + 4 * (screen_width s * screen_height s) \<le> 4294967296" using fb(1) by (simp add: fb_wf_def mult.assoc)
    moreover have "0 \<le> uint a" by simp
    ultimately show ?thesis unfolding fb_bytes_def mem_Collect_eq by linarith
  qed
  let ?s1 = "s\<lparr>vmem := m\<rparr>"
  have h: "heap_rel ?s1 bs"
    by (rule heap_rel_outside [OF assms(3), where a = "0x500000 :: u32" and n = "0xFFB00000"])
      (use assms(4) m(2) far unat_u32_less in \<open>auto simp: not_le [symmetric]\<close>)
  have o: "Console.on_screen ?s1" using assms(2) by (simp add: Console.on_screen_def)
  obtain s2 where s2: "say env ''GUI rendered successfully'' ?s1 = Some s2" "calm ?s1 s2"
    by (rule say_calm [OF assms(1) o, of "''GUI rendered successfully''"]) simp_all
  note v = calm_views [OF s2(2)]
  have w: "static_view s2 = static_view s" "table_view s2 = table_view s" "task_view s2 = task_view s"
    using v(1,3,4) by (simp_all add: views)
  have h2: "heap_rel s2 bs" by (rule calm_heap [OF s2(2) h])
  have "boot_desktop env s = Some s2" using True m(1) s2(1) by (simp add: boot_desktop_def graphics_get_width_def graphics_get_height_def)
  moreover have "empty_fs s2 bs" "input_buffer s2 = input_buffer s" using empty_fs_view [OF assms(6) _ h2] w(1) by (simp_all add: static_view_def)
  moreover have "interrupts_on s2" using assms(7) w(3) by (simp add: interrupts_on_def task_view_def)
  ultimately show ?thesis using that v(5) w(2) h2 sched_inv_view [OF assms(5) w(3)] by blast
qed

section \<open>The shell\<close>

lemma heap_rel_clear:
  assumes "heap_rel s bs" and "unat a + 256 \<le> 0x400000"
  shows "heap_rel (s\<lparr>vmem := snd (memset a 0 256 (vmem s))\<rparr>) bs"
proof (rule heap_rel_outside [OF assms(1), where a = a and n = 256])
  fix x :: u32 assume "unat x < unat a \<or> unat a + 256 \<le> unat x"
  then have "256 \<le> unat (x - a)"
    using assms(2) unat_u32_less [of x] unat_u32_less [of a] by (auto simp: unat_sub_if_size word_size)
  then show "snd (memset a 0 256 (vmem s)) x = vmem s x" by (simp add: memset_zero fill_bytes_def)
qed (use assms(2) in simp)

lemma boot_shell_result:
  fixes s :: "'a kernel_state_scheme"
  assumes "serial_ready (k_dev env)" and "Console.on_screen s" and "heap_rel s bs" and "sched_inv s []" "empty_fs s bs" "interrupts_on s"
    and "unat (input_buffer s) + 256 \<le> 0x400000" and "0x100000 \<le> unat (k_line env)" "unat (k_line env) + 256 \<le> 0x400000"
  obtains s' where "boot_shell env s = Some s'" "Console.on_screen s'" "table_view s' = table_view s"
    "heap_rel s' bs" "sched_inv s' []" "empty_fs s' bs" "interrupts_on s'" "table_ready s'" "line_rep (k_line env) [] (vmem s')"
proof -
  obtain s1 where s1: "kprintf (k_dev env) ([NEWLINE] @ str ''=== ArgOS Shell (Serial) ==='' @ [NEWLINE]) [] s = Some s1" "calm s s1"
    by (rule kprintf_plain [OF assms(1,2), of "[NEWLINE] @ str ''=== ArgOS Shell (Serial) ==='' @ [NEWLINE]" "[]"]) simp_all
  note v1 = calm_views [OF s1(2)]
  have ib: "input_buffer s1 = input_buffer s" using v1(1) by (simp add: static_view_def)
  obtain c n where i: "shell_init s1 = s1\<lparr>command_count := n, input_pos := 0, vmem := snd (memset (input_buffer s1) 0 256 (vmem s1)), commands := c\<rparr>"
    by (rule shell_init_frame)
  let ?s2 = "shell_init s1"
  have "heap_rel (s1\<lparr>vmem := snd (memset (input_buffer s1) 0 256 (vmem s1))\<rparr>) bs"
    using heap_rel_clear [OF calm_heap [OF s1(2) assms(3)]] assms(7) ib by simp
  then have h2: "heap_rel ?s2 bs" by (rule heap_rel_same [rotated]) (simp add: i heap_state.defs)
  let ?s3 = "?s2\<lparr>vmem := snd (memset (k_line env) 0 256 (vmem ?s2))\<rparr>"
  have h3: "heap_rel ?s3 bs" by (rule heap_rel_clear [OF h2 assms(9)])
  have w: "static_view ?s3 = static_view s1" "table_view ?s3 = table_view s1" "task_view ?s3 = task_view s1" "Console.on_screen ?s3"
    using v1(5) by (simp_all add: i views Console.on_screen_def)
  have r: "table_ready ?s3" using shell_init_ready [of s1] by (simp add: table_ready_def)
  obtain s4 where s4: "kprintf (k_dev env) (str ''ArgOS> '') [] ?s3 = Some s4" "calm ?s3 s4"
    by (rule kprintf_plain [OF assms(1) w(4), of "str ''ArgOS> ''" "[]"]) simp_all
  note v4 = calm_views [OF s4(2)]
  have h4: "heap_rel s4 bs" by (rule calm_heap [OF s4(2) h3])
  have tv: "task_view s4 = task_view s" "static_view s4 = static_view s" using v4(1,4) w v1(1,4) by simp_all
  have l: "line_rep (k_line env) [] (vmem s4)"
  proof -
    have "vmem s4 (k_line env + word_of_nat j) = vmem ?s3 (k_line env + word_of_nat j)" if "j < 256" for j
    proof (rule v4(10))
      show "0x100000 \<le> unat (k_line env + word_of_nat j)" using that assms(8,9) by (subst unat_u32_add) (simp_all add: unat_u32_of_nat)
    qed
    then show ?thesis using line_rep_clear [of "k_line env" "vmem ?s2"] by (simp add: line_rep_def)
  qed
  have "boot_shell env s = Some s4" using s1(1) s4(1) by (simp add: boot_shell_def)
  moreover have "table_ready s4" using r v4(8,9) by (simp add: table_ready_def)
  moreover have "interrupts_on s4" using assms(6) tv(1) by (simp add: interrupts_on_def task_view_def)
  moreover have "empty_fs s4 bs" using empty_fs_view [OF assms(5) _ h4] tv(2) by (simp add: static_view_def)
  moreover have "table_view s4 = table_view s" using v4(3) w(2) v1(3) by simp
  ultimately show ?thesis using that v4(5) h4 sched_inv_view [OF assms(4) tv(1)] l by blast
qed

section \<open>Panic\<close>

lemma kpanic_stops:
  assumes "serial_ready dev"
  shows "\<exists>s'. kpanic dev msg fname n s = Some s' \<and> \<not> interrupts_on s'"
proof -
  have log: "\<exists>t. graphics_log dev m u = Some (u\<lparr>io_trace := t\<rparr>)" for m u using graphics_log_ready [OF assms] by metis
  have "\<And>d :: u32. d < 10 \<Longrightarrow> digit_value (hex_chars d) = unat d" by (intro digit_chars(1)) (simp add: word_less_nat_alt)
  then obtain ds where "digits_loop hex_chars 10 n = Some ds" using digits_loop_returns [of 10 hex_chars n] by auto
  then have "digits_loop dec_digit 10 n = Some ds" using digits_loop_cong [of 10 dec_digit hex_chars n] digit_chars(3) by simp
  then obtain buf where buf: "(if n = 0 then Some [of_char CHR ''0''] else digits_loop dec_digit 10 n) = Some buf" by (cases "n = 0") auto
  have off: "\<not> interrupts_on (snd (disable_interrupts u))" for u
  proof -
    have "(0x200 :: u32) = push_bit 9 1" by simp
    then show ?thesis by (simp only: interrupts_on_def disable_interrupts_def snd_conv task_state.simps cpu_state.simps bit_and_iff bit_not_iff) (simp add: bit_simps)
  qed
  obtain t1 where 1: "graphics_log dev ([NEWLINE] @ str ''!!! KERNEL PANIC !!!'' @ [NEWLINE]) s = Some (s\<lparr>io_trace := t1\<rparr>)" using log by blast
  obtain t2 where 2: "graphics_log dev msg (s\<lparr>io_trace := t1\<rparr>) = Some (s\<lparr>io_trace := t2\<rparr>)" using log [of msg "s\<lparr>io_trace := t1\<rparr>"] by auto
  obtain t3 where 3: "graphics_log dev ([NEWLINE] @ str ''At: '') (s\<lparr>io_trace := t2\<rparr>) = Some (s\<lparr>io_trace := t3\<rparr>)"
    using log [of "[NEWLINE] @ str ''At: ''" "s\<lparr>io_trace := t2\<rparr>"] by auto
  obtain t4 where 4: "graphics_log dev fname (s\<lparr>io_trace := t3\<rparr>) = Some (s\<lparr>io_trace := t4\<rparr>)" using log [of fname "s\<lparr>io_trace := t3\<rparr>"] by auto
  obtain t5 where 5: "graphics_log dev (str '':'') (s\<lparr>io_trace := t4\<rparr>) = Some (s\<lparr>io_trace := t5\<rparr>)" using log [of "str '':''" "s\<lparr>io_trace := t4\<rparr>"] by auto
  obtain t6 where 6: "graphics_log dev (rev buf) (s\<lparr>io_trace := t5\<rparr>) = Some (s\<lparr>io_trace := t6\<rparr>)" using log [of "rev buf" "s\<lparr>io_trace := t5\<rparr>"] by auto
  obtain t7 where 7: "graphics_log dev ([NEWLINE] @ str ''System Halted.'' @ [NEWLINE]) (s\<lparr>io_trace := t6\<rparr>) = Some (s\<lparr>io_trace := t7\<rparr>)"
    using log [of "[NEWLINE] @ str ''System Halted.'' @ [NEWLINE]" "s\<lparr>io_trace := t6\<rparr>"] by auto
  show ?thesis unfolding kpanic_def 1 2 3 4 5 6 7 buf Let_def Option.bind.bind_lunit using off by blast
qed

lemma itoa_hex: "\<exists>ds. itoa 16 n = Some ds"
  using digits_loop_returns [of 16 hex_chars n] digit_chars(1) by (auto simp: itoa_def)

lemma kernel_boot_stops:
  assumes "serial_ready (k_dev env)" and "magic \<noteq> MULTIBOOT_BOOTLOADER_MAGIC"
  shows "\<exists>s'. kernel_boot env magic addr s = Some (False, s') \<and> \<not> interrupts_on s'"
proof -
  obtain ds where "itoa 16 magic = Some ds" using itoa_hex by blast
  then obtain buf where "vsprintf (str ''ERROR: Invalid Multiboot magic number: 0x%x'' @ [NEWLINE]) [ArgInt magic] = Some buf" by (auto simp: format_one_def)
  then obtain s1 where s1: "kprintf (k_dev env) (str ''ERROR: Invalid Multiboot magic number: 0x%x'' @ [NEWLINE]) [ArgInt magic] (boot_console s) = Some s1"
    using kprintf_calm [OF assms(1) boot_console_views(6)] by blast
  obtain s2 where "kpanic (k_dev env) (str ''Invalid Multiboot magic number'') (str ''kernel/kernel.c'') 42 s1 = Some s2" "\<not> interrupts_on s2"
    using kpanic_stops [OF assms(1)] by blast
  then show ?thesis using assms(2) s1 unfolding kernel_boot_def Let_def by (simp del: list.map)
qed

definition boot_example_state :: kernel_state where
  "boot_example_state = kernel_example\<lparr>used_pages := 0, first_page_table := 0x1000, framebuffer := 0, screen_width := 0, screen_height := 0\<rparr>"

lemma memory_example: "memory_ok mb_example mmap_example [mmap_example 0x9000, mmap_example 0x9018]"
proof -
  have tm: "pmm_total_memory mb_example = 0x800000" by (simp add: pmm_total_memory_def mb_example_def)
  have r: "entry_reserved (mmap_example 0x9000) = {}" "entry_reserved (mmap_example 0x9018) = {0x700 ..< 0x702}"
    by (simp_all add: entry_reserved_def mmap_example_def PAGE_NUMBER_def)
  have "card {513 ..< 0x700 :: nat} \<le> card {p. p < 2048 \<and> 513 \<le> p \<and> p \<notin> {0x700 ..< 0x702 :: nat}}" by (rule card_mono) auto
  then have "512 \<le> card {p. p < 2048 \<and> 513 \<le> p \<and> p \<notin> {0x700 ..< 0x702 :: nat}}" by simp
  then have "512 \<le> card {p. p < 2048 \<and> 513 \<le> p \<and> (\<forall>x \<in> set [mmap_example 0x9000, mmap_example 0x9018]. p \<notin> entry_reserved x)}" by (simp add: r)
  moreover have "mmap_entries mmap_example (mmap_addr mb_example) (mmap_addr mb_example + mmap_length mb_example) [mmap_example 0x9000, mmap_example 0x9018]"
    by (simp add: mmap_example_def mb_example_def)
  ultimately show ?thesis unfolding memory_ok_def tm Let_def by (simp add: mb_example_def)
qed

text \<open>The steps up to the device drivers.\<close>

definition start_ok :: "kernel_env \<Rightarrow> u32 \<Rightarrow> multiboot_mmap_entry list \<Rightarrow> 'a kernel_state_scheme \<Rightarrow> bool" where
  "start_ok env addr es s \<longleftrightarrow> memory_ok (k_multiboot env addr) (k_mmap env) es \<and> display_ok env (k_multiboot env addr) \<and>
     used_pages s = 0 \<and> first_page_table s AND 0xFFF = 0 \<and> unat (first_page_table s) < 0x200000 \<and>
     framebuffer s = 0 \<and> screen_width s = 0 \<and> screen_height s = 0"

lemma boot_hardware:
  fixes s :: "'a kernel_state_scheme"
  assumes "serial_ready (k_dev env)" and "start_ok env addr es s"
  obtains s4 where "kernel_boot env MULTIBOOT_BOOTLOADER_MAGIC addr s = do {
      s \<leftarrow> boot_tasks env s4; s \<leftarrow> boot_files env s; s \<leftarrow> boot_desktop env s; s \<leftarrow> boot_shell env s; Some (True, s) }"
    "Console.on_screen s4" "fs_view s4 = fs_view s" "input_buffer s4 = input_buffer s"
    "table_view s4 = table_view (idt_init (k_isr env) (k_irq env) (k_syscall env) (gdt_init s))" "heap_rel s4 [(0xFFFF0, True)]" "screen_good s4"
proof -
  note ok = assms(2) [unfolded start_ok_def]
  define s0 where "s0 = (boot_console s)\<lparr>mb_info := addr\<rparr>"
  note b = boot_console_views [of s]
  have v0: "fs_view s0 = fs_view s" "input_buffer s0 = input_buffer s" "mb_info s0 = addr" "screen_view s0 = (0, 0, 0)" "table_view s0 = table_view s"
      "used_pages s0 = 0" "first_page_table s0 = first_page_table s" "Console.on_screen s0"
    using b ok by (simp_all add: s0_def views Console.on_screen_def)
  obtain s1 where s1: "boot_cpu env s0 = Some s1" "Console.on_screen s1" "static_view s1 = static_view s0" "screen_view s1 = screen_view s0"
      "table_view s1 = table_view (gdt_init s0)" "used_pages s1 = used_pages s0" "first_page_table s1 = first_page_table s0"
    by (rule boot_cpu_result [OF assms(1) v0(8)])
  have mb: "mb_info s1 = addr" using s1(3) v0(3) by (simp add: static_view_def)
  obtain s2 where s2: "boot_memory env s1 = Some s2" "Console.on_screen s2" "static_view s2 = static_view s1" "screen_view s2 = screen_view s1"
      "table_view s2 = table_view s1" "heap_rel s2 [(0xFFFF0, True)]"
    by (rule boot_memory_result [OF assms(1) s1(2), of es]) (use ok mb s1(6,7) v0(6,7) in simp_all)
  obtain s3 where s3: "boot_interrupts env s2 = Some s3" "Console.on_screen s3" "static_view s3 = static_view s2" "screen_view s3 = screen_view s2"
      "table_view s3 = table_view (idt_init (k_isr env) (k_irq env) (k_syscall env) s2)" "heap_rel s3 [(0xFFFF0, True)]"
    by (rule boot_interrupts_result [OF assms(1) s2(2,6)])
  have st3: "static_view s3 = static_view s0" "screen_view s3 = (0, 0, 0)" using s3(3,4) s2(3,4) s1(3,4) v0(4) by simp_all
  then have mb3: "mb_info s3 = addr" using v0(3) by (simp add: static_view_def)
  obtain s4 where s4: "boot_drivers env s3 = Some s4" "Console.on_screen s4" "static_view s4 = static_view s3" "table_view s4 = table_view s3"
      "heap_rel s4 [(0xFFFF0, True)]" "screen_good s4"
    by (rule boot_drivers_result [OF assms(1) s3(2,6) _ st3(2)]) (use ok mb3 in simp_all)
  have "table_view s2 = table_view (gdt_init s)" using s2(5) s1(5) gdt_init_tables [OF v0(5)] by simp
  then have "table_view s3 = table_view (idt_init (k_isr env) (k_irq env) (k_syscall env) (gdt_init s))" using s3(5) idt_init_tables by metis
  then have "table_view s4 = table_view (idt_init (k_isr env) (k_irq env) (k_syscall env) (gdt_init s))" using s4(4) by simp
  moreover have "fs_view s4 = fs_view s" "input_buffer s4 = input_buffer s" using s4(3) st3(1) v0(1,2) by (simp_all add: static_view_def)
  ultimately show ?thesis using that [of s4] s4(2,5,6) s1(1) s2(1) s3(1) s4(1) by (simp add: kernel_boot_def s0_def)
qed

section \<open>Properties\<close>

text \<open>C5: on a machine with a well-formed memory map and enough free frames, a working serial port, no disk, and either a frame
  buffer above the heap or none, \<open>kernel_main\<close> reaches its loop, and everything the components rely on holds there: the heap is one free
  megabyte of mapped pages, the scheduler has no task, the file system is an empty root directory, the descriptor tables are those of
  \<open>gdt_init\<close> and \<open>idt_init\<close>, the command table has the built-in commands, the input line is empty, the cursor is on the screen, and
  interrupts are on. With a wrong magic number the kernel stops with interrupts off.\<close>

theorem kernel_boot_correct:
  fixes s :: "'a kernel_state_scheme"
  assumes "serial_ready (k_dev env)" and "no_disk (k_dev env)" and "start_ok env addr es s"
    and "inode_space s" and "length (file_descriptors s) = MAX_FILE_DESCRIPTORS" and "next_inode s + 1 \<noteq> 0" and "\<not> fs_initialized s"
    and "unat (input_buffer s) + 256 \<le> 0x400000" and "0x100000 \<le> unat (k_line env)" and "unat (k_line env) + 256 \<le> 0x400000"
  shows "(\<exists>s'. kernel_boot env MULTIBOOT_BOOTLOADER_MAGIC addr s = Some (True, s') \<and> heap_rel s' [(0xFFFF0, True)] \<and> sched_inv s' [] \<and>
    fs_inv s' (\<lambda>_. []) [(0xFFFF0, True)] \<and> nodes s' = {root_dir s'} \<and> current_dir s' = root_dir s' \<and>
    (let t = idt_init (k_isr env) (k_irq env) (k_syscall env) (gdt_init s)
     in gdt s' = gdt t \<and> seg_cs s' = seg_cs t \<and> idt s' = idt t \<and> idtr s' = idtr t) \<and>
    table_ready s' \<and> line_rep (k_line env) [] (vmem s') \<and> Console.on_screen s' \<and> interrupts_on s') \<and>
    (magic \<noteq> MULTIBOOT_BOOTLOADER_MAGIC \<longrightarrow> (\<exists>s'. kernel_boot env magic addr s = Some (False, s') \<and> \<not> interrupts_on s'))"
proof -
  obtain s4 where s4: "kernel_boot env MULTIBOOT_BOOTLOADER_MAGIC addr s = do {
      s \<leftarrow> boot_tasks env s4; s \<leftarrow> boot_files env s; s \<leftarrow> boot_desktop env s; s \<leftarrow> boot_shell env s; Some (True, s) }"
    "Console.on_screen s4" "fs_view s4 = fs_view s" "input_buffer s4 = input_buffer s"
    "table_view s4 = table_view (idt_init (k_isr env) (k_irq env) (k_syscall env) (gdt_init s))" "heap_rel s4 [(0xFFFF0, True)]" "screen_good s4"
    by (rule boot_hardware [OF assms(1,3)])
  obtain s5 where s5: "boot_tasks env s4 = Some s5" "Console.on_screen s5" "static_view s5 = static_view s4" "screen_view s5 = screen_view s4"
      "table_view s5 = table_view s4" "heap_rel s5 [(0xFFFF0, True)]" "sched_inv s5 []"
    by (rule boot_tasks_result [OF assms(1) s4(2,6)])
  have st5: "fs_view s5 = fs_view s" "input_buffer s5 = input_buffer s" using s5(3) s4(3,4) by (simp_all add: static_view_def)
  note e = fs_view_eqD [OF st5(1)]
  obtain s6 where s6: "boot_files env s5 = Some s6" "Console.on_screen s6" "input_buffer s6 = input_buffer s5" "screen_view s6 = screen_view s5"
      "table_view s6 = table_view s5" "heap_rel s6 [(0xFFFF0, True)]" "sched_inv s6 []" "empty_fs s6 [(0xFFFF0, True)]" "interrupts_on s6"
    by (rule boot_files_result [OF assms(1) s5(2,6,7) assms(2)]) (use e assms(4-7) in simp_all)
  have g6: "screen_good s6" using s4(7) s5(4) s6(4) by (simp add: screen_good_def screen_view_def fb_wf_def)
  obtain s7 where s7: "boot_desktop env s6 = Some s7" "Console.on_screen s7" "input_buffer s7 = input_buffer s6" "table_view s7 = table_view s6"
      "heap_rel s7 [(0xFFFF0, True)]" "sched_inv s7 []" "empty_fs s7 [(0xFFFF0, True)]" "interrupts_on s7"
    by (rule boot_desktop_result [OF assms(1) s6(2,6) _ s6(7-9) g6]) simp_all
  have ib: "unat (input_buffer s7) + 256 \<le> 0x400000" using s7(3) s6(3) st5(2) assms(8) by simp
  obtain s8 where s8: "boot_shell env s7 = Some s8" "Console.on_screen s8" "table_view s8 = table_view s7"
      "heap_rel s8 [(0xFFFF0, True)]" "sched_inv s8 []" "empty_fs s8 [(0xFFFF0, True)]" "interrupts_on s8" "table_ready s8" "line_rep (k_line env) [] (vmem s8)"
    by (rule boot_shell_result [OF assms(1) s7(2,5-8) ib assms(9,10)])
  have "kernel_boot env MULTIBOOT_BOOTLOADER_MAGIC addr s = Some (True, s8)" using s4(1) s5(1) s6(1) s7(1) s8(1) by simp
  moreover have "table_view s8 = table_view (idt_init (k_isr env) (k_irq env) (k_syscall env) (gdt_init s))" using s8(3) s7(4) s6(5) s5(5) s4(5) by simp
  ultimately show ?thesis using s8(2,4-9)
    by (intro conjI [OF exI [of _ s8]] impI kernel_boot_stops [OF assms(1)]) (simp_all add: Let_def table_view_def empty_fs_def)
qed

theorem kernel_boot_correct_witness:
  "\<exists>s'. kernel_boot kernel_env_example 0x2BADB002 0x9000 boot_example_state = Some (True, s') \<and> table_ready s' \<and> interrupts_on s'"
proof -
  have e: "k_dev kernel_env_example = (\<lambda>_ _. 0xFF)" "k_line kernel_env_example = 0x118000"
    by (simp_all add: kernel_env_example_def shell_env_example_def)
  have m: "memory_ok (k_multiboot kernel_env_example 0x9000) (k_mmap kernel_env_example) [mmap_example 0x9000, mmap_example 0x9018]"
    using memory_example by (simp add: kernel_env_example_def)
  have d: "display_ok kernel_env_example (k_multiboot kernel_env_example 0x9000)" by (simp add: display_ok_def kernel_env_example_def mb_example_def)
  have f: "first_page_table boot_example_state = 0x1000" "input_buffer boot_example_state = 0x112000" "fs_view boot_example_state = fs_view fs_example"
    by (simp_all add: boot_example_state_def kernel_example_def Let_def shell_example_def graphics_example_def tables_example_def fs_view_def
      fs_state.defs tables_state.defs graphics_state.defs shell_state.defs)
  note v = fs_view_eqD [OF f(3)]
  show ?thesis
    using kernel_boot_correct [of kernel_env_example "0x9000" "[mmap_example 0x9000, mmap_example 0x9018]" boot_example_state 0]
      m d no_devices fs_example_state(2-5) v e f by (auto simp: start_ok_def boot_example_state_def)
qed

end
