(* ===== verification/Spec2Isabelle.thy ===== *)
theory Spec2Isabelle
  imports HeapSpec BootSpec
begin

text \<open>
  \<^bold>\<open>A verification library for the ArgoOS kernel.\<close> ArgoOS is a small kernel for 32-bit x86 machines in C and
  assembly. The boot loader enters \<^verbatim>\<open>boot/multiboot.asm\<close>, which calls \<^verbatim>\<open>kernel_main\<close>. That function
  initialises every component and then reads command lines from the serial port for the shell. This library
  translates the components to HOL functions over one state and proves what they promise.

  \<^bold>\<open>The state.\<close> Each component extends the record of the one below it, and its functions are polymorphic in the
  extension, so that they run on the whole kernel state:
  \<open>pmm_state\<close>, \<open>paging_state\<close>, \<open>heap_state\<close> (with the byte memory \<open>vmem\<close>), \<open>timer_state\<close> (with the trace \<open>io_trace\<close>),
  \<open>task_state\<close> (with the processor), \<open>sync_state\<close>, \<open>console_state\<close>, \<open>keyboard_state\<close>, \<open>fs_state\<close>, \<open>tables_state\<close>,
  \<open>graphics_state\<close>, \<open>shell_state\<close>, \<open>kernel_state\<close>. A C function becomes a function from its arguments and the state to
  its result and the new state. Integers are words of their width, so that wrap-around is that of the code.
  Heap blocks, file contents, stacks, strings, the screen and the frame buffer are bytes of \<open>vmem\<close>. Task
  structures, inodes, mutexes and page tables are typed stores indexed by their address; the descriptor
  tables and the frame bitmap are lists. Port accesses are a trace with the newest first. What a device
  answers is a function of the trace, a parameter.

  \<^bold>\<open>Loops.\<close> A loop with a bound is a structural recursion or a function with a termination proof. A loop that ends
  only on good data or a good device is a \<^theory_text>\<open>partial_function (option)\<close>: \<open>None\<close> means that it never ends. Properties
  state that such a function returns. The endless loops of \<open>shell_run\<close> and \<open>kernel_main\<close> are any number \<open>n\<close> of
  rounds; the properties hold for one round or one character, so no bound is chosen. An infinite recursion
  or wait is never cut off by fuel.

  \<^bold>\<open>Theories\<close>, with the sources under \<^verbatim>\<open>src/\<close>:

  \<^item> \<open>Prelude\<close>: words for \<^verbatim>\<open>include/types.h\<close>, the search loop \<open>for_find\<close>, shared lemmas on words, lists and bits.
  \<^item> \<open>PMM\<close>: \<^verbatim>\<open>kernel/memory/pmm.c\<close>, frames in a bitmap. The interface \<open>frame_allocator\<close> is interpreted on
    the allocator; allocation takes the lowest free frame, release gives back exactly one, initialisation takes
    exactly the frames that the memory map reserves.
  \<^item> \<open>Paging\<close>: \<^verbatim>\<open>kernel/memory/paging.c\<close>. The page tables refine a map from pages to frames, interface \<open>address_space\<close>.
  \<^item> \<open>Memory\<close>: \<^verbatim>\<open>kernel/lib/string.c\<close> and \<^verbatim>\<open>string_asm.asm\<close> over bytes; interface \<open>byte_copier\<close> for both ways to copy.
  \<^item> \<open>Heap\<close>, \<open>HeapSpec\<close>: \<^verbatim>\<open>kernel/memory/heap.c\<close>. The linked list of blocks refines a list of sizes with free marks;
    the interface \<open>allocator\<close> states what the rest of the kernel relies on.
  \<^item> \<open>Ports\<close>: port accesses and \<^verbatim>\<open>kernel/interrupts/pic.c\<close>.
  \<^item> \<open>Task\<close>, \<open>RunQueue\<close>, \<open>Scheduler\<close>: \<^verbatim>\<open>kernel/task/task.c\<close>, \<^verbatim>\<open>context_switch.asm\<close>, \<^verbatim>\<open>kernel/drivers/timer.c\<close>. The
    circular list, round robin order, sleeping, creation, and the switch down to registers and stack words.
  \<^item> \<open>Sync\<close>: \<^verbatim>\<open>kernel/task/sync.c\<close>. Mutexes and semaphores over the interface \<open>blocking_queue\<close> of wait queues.
  \<^item> \<open>Console\<close>: \<^verbatim>\<open>kernel/drivers/serial.c\<close>, \<^verbatim>\<open>kernel/lib/vga.c\<close>, \<^verbatim>\<open>kernel/lib/printf.c\<close>. Bounds of screen output, digits.
  \<^item> \<open>Keyboard\<close>: \<^verbatim>\<open>kernel/drivers/keyboard.c\<close>.
  \<^item> \<open>Disk\<close>, \<open>FS\<close>, \<open>FSDisk\<close>, \<open>FSTree\<close>, \<open>FSSpec\<close>, \<open>FileSystem\<close>: \<^verbatim>\<open>kernel/drivers/ata.c\<close> and \<^verbatim>\<open>kernel/fs/fs.c\<close>. Inodes form a
    tree, file contents are byte lists in heap blocks; every operation on them, paths, and the format on disk.
  \<^item> \<open>Interrupts\<close>: \<^verbatim>\<open>kernel/memory/gdt.c\<close>, \<^verbatim>\<open>kernel/interrupts/idt.c\<close>, \<^verbatim>\<open>idt.asm\<close>, \<^verbatim>\<open>kernel/cpu/fpu.c\<close>. The descriptor tables
    and the stubs with their stack frames.
  \<^item> \<open>Graphics\<close>: \<^verbatim>\<open>kernel/drivers/graphics.c\<close>, \<^verbatim>\<open>kernel/lib/font.c\<close>, \<^verbatim>\<open>kernel/lib/panic.c\<close>. Drawing sets exactly the
    pixels of a shape.
  \<^item> \<open>ELF\<close>: \<^verbatim>\<open>kernel/fs/elf_loader.c\<close>. Loading a segment; the loader never reports success.
  \<^item> \<open>Syscall\<close>: \<^verbatim>\<open>kernel/task/syscall.c\<close> and \<^verbatim>\<open>syscall.asm\<close>. The handlers and the entry point.
  \<^item> \<open>Shell\<close>, \<open>ShellSpec\<close>, \<open>ShellLine\<close>: \<^verbatim>\<open>kernel/shell/shell.c\<close>. All commands; words, counts and lines of text; what happens to
    a command line.
  \<^item> \<open>Kernel\<close>, \<open>KernelSpec\<close>, \<open>BootSpec\<close>: \<^verbatim>\<open>kernel/kernel.c\<close> and \<^verbatim>\<open>boot/multiboot.asm\<close>. The line editor on the serial port, and the start
    of the system, which establishes the invariants of all components.

  \<^bold>\<open>How the parts rest on each other.\<close> The heap takes frames from the frame allocator and maps them through paging.
  Tasks, file data and command lines are heap allocations: their properties use \<open>heap_rel\<close>, the relation between the
  block list in memory and the abstract heap, and the set \<open>live\<close> of allocations in use. Mutexes use wait queues of
  the scheduler. The file system keeps \<open>fs_inv\<close>, which contains \<open>heap_rel\<close>. The shell and the ELF loader work on
  the file system.

  \<^bold>\<open>Parameters.\<close> Devices; the functions that interrupts run while the processor halts; registered callbacks; the
  structures of the boot loader; and addresses that compiler and linker choose, such as those of static
  buffers, local arrays and entry points. Hypotheses on devices are named: \<open>serial_ready\<close> (the transmitter
  gets ready) and \<open>no_disk\<close> (the status register of an empty bus). Witnesses instantiate them.

  \<^bold>\<open>Not modelled.\<close>
  Invalidation of the TLB, since memory is accessed by virtual address and no cached translation is
  part of the state. Accesses through unmapped pages: \<open>vmem\<close> is total, so a page fault is not a step of the model;
  that pages are mapped is stated in the heap and paging properties. Preemption in the middle of a C function: an
  operation is one step, which is right where the code disables interrupts. Overflow of the fixed
  local buffers on the stack has no effect on other memory. The C compiler, \<^verbatim>\<open>kernel.ld\<close>, \<^verbatim>\<open>Makefile\<close>, \<^verbatim>\<open>grub.cfg\<close>
  and \<^verbatim>\<open>tools/bridge.py\<close>, a script on the host that connects a terminal to the serial port, are not part of the
  kernel. Headers hold declarations and constants; their constants are abbreviations where they are used.
\<close>

end
